(* ===== verification/Prelude.thy ===== *)
theory Prelude
  imports "HOL-Library.Word" "HOL-Library.Monad_Syntax"
begin

text \<open>
  Shared vocabulary of the development: machine types, byte buffers with their loads and
  stores, C strings, and the collections of automation the component theories extend.

  A C function that may not return is modelled by a result in an option type: the value None
  stands for "no defined result", that is a panic or an exit of the handler process, an access
  outside the object it points into, or a loop that never ends. An error that the C code
  returns is a negative errno in the returned integer, exactly as in C.
\<close>

type_synonym byte = "8 word"
type_synonym bytes = "byte list"
type_synonym u16 = "16 word"
type_synonym u32 = "32 word"

named_theorems buf_simps "lengths, loads and stores of byte buffers"
named_theorems state_frames "fields of a state that an operation leaves alone"


section \<open>errno values\<close>

text \<open>The errno names are symbolic: errno.h is the C library's, and the code only compares
  them with 0 and passes them on; the usual Unix numbers are used.\<close>

abbreviation (input) EPERM :: int where "EPERM \<equiv> 1"
abbreviation (input) ENOENT :: int where "ENOENT \<equiv> 2"
abbreviation (input) EIO :: int where "EIO \<equiv> 5"
abbreviation (input) ENOMEM :: int where "ENOMEM \<equiv> 12"
abbreviation (input) EBUSY :: int where "EBUSY \<equiv> 16"
abbreviation (input) EEXIST :: int where "EEXIST \<equiv> 17"
abbreviation (input) ENOTDIR :: int where "ENOTDIR \<equiv> 20"
abbreviation (input) EISDIR :: int where "EISDIR \<equiv> 21"
abbreviation (input) EINVAL :: int where "EINVAL \<equiv> 22"
abbreviation (input) EFBIG :: int where "EFBIG \<equiv> 27"
abbreviation (input) ENOSPC :: int where "ENOSPC \<equiv> 28"
abbreviation (input) EMLINK :: int where "EMLINK \<equiv> 31"
abbreviation (input) ENAMETOOLONG :: int where "ENAMETOOLONG \<equiv> 36"
abbreviation (input) ENOSYS :: int where "ENOSYS \<equiv> 38"
abbreviation (input) ENOTEMPTY :: int where "ENOTEMPTY \<equiv> 39"
abbreviation (input) ENOTSUP :: int where "ENOTSUP \<equiv> 95"


section \<open>Byte buffers\<close>

definition splice :: "nat \<Rightarrow> 'a list \<Rightarrow> 'a list \<Rightarrow> 'a list" where
  "splice off xs bs = take off bs @ xs @ drop (off + length xs) bs"

lemma length_splice [buf_simps, simp]:
  "off + length xs \<le> length bs \<Longrightarrow> length (splice off xs bs) = length bs"
  by (simp add: splice_def)

lemma nth_splice [buf_simps]:
  "off + length xs \<le> length bs \<Longrightarrow> k < length bs \<Longrightarrow>
   splice off xs bs ! k = (if off \<le> k \<and> k < off + length xs then xs ! (k - off) else bs ! k)"
  by (auto simp: splice_def nth_append min_def)

lemma take_splice [buf_simps]:
  "n \<le> off \<Longrightarrow> off + length xs \<le> length bs \<Longrightarrow> take n (splice off xs bs) = take n bs"
  by (simp add: splice_def min_def)

lemma drop_splice [buf_simps]:
  "off + length xs \<le> n \<Longrightarrow> off + length xs \<le> length bs \<Longrightarrow>
   drop n (splice off xs bs) = drop n bs"
  by (simp add: splice_def)

lemma splice_same [buf_simps]:
  "off + length xs \<le> length bs \<Longrightarrow>
   take (length xs) (drop off (splice off xs bs)) = xs"
  by (simp add: splice_def)

definition slice :: "nat \<Rightarrow> nat \<Rightarrow> 'a list \<Rightarrow> 'a list" where
  "slice off n bs = take n (drop off bs)"

lemma length_slice [buf_simps, simp]: "off + n \<le> length bs \<Longrightarrow> length (slice off n bs) = n"
  by (simp add: slice_def)

lemma slice_splice_same [buf_simps]:
  "off + length xs \<le> length bs \<Longrightarrow> n = length xs \<Longrightarrow> slice off n (splice off xs bs) = xs"
  by (simp add: slice_def splice_same)

lemma slice_splice_other [buf_simps]:
  assumes "off + length xs \<le> length bs" and "i + n \<le> length bs"
    and "i + n \<le> off \<or> off + length xs \<le> i"
  shows "slice i n (splice off xs bs) = slice i n bs"
  using assms by (intro nth_equalityI) (auto simp: slice_def nth_splice)

text \<open>Host loads and stores of 16 and 32 bits; \<open>be\<close> says that the CPU is big-endian.\<close>

definition enc16 :: "bool \<Rightarrow> u16 \<Rightarrow> bytes" where
  "enc16 be w = (let bs = [word_of_nat (unat w mod 256), word_of_nat (unat w div 256 mod 256)]
                 in if be then rev bs else bs)"

definition dec16 :: "bool \<Rightarrow> byte \<Rightarrow> byte \<Rightarrow> u16" where
  "dec16 be a b = (if be then word_of_nat (unat b + 256 * unat a)
                   else word_of_nat (unat a + 256 * unat b))"

definition enc32 :: "bool \<Rightarrow> u32 \<Rightarrow> bytes" where
  "enc32 be w = (let bs = [word_of_nat (unat w mod 256), word_of_nat (unat w div 256 mod 256),
                           word_of_nat (unat w div 65536 mod 256),
                           word_of_nat (unat w div 16777216 mod 256)]
                 in if be then rev bs else bs)"

definition dec32 :: "bool \<Rightarrow> byte \<Rightarrow> byte \<Rightarrow> byte \<Rightarrow> byte \<Rightarrow> u32" where
  "dec32 be a b c d =
     (if be then word_of_nat (unat d + 256 * unat c + 65536 * unat b + 16777216 * unat a)
      else word_of_nat (unat a + 256 * unat b + 65536 * unat c + 16777216 * unat d))"

definition ld8 :: "bytes \<Rightarrow> nat \<Rightarrow> byte option" where
  "ld8 bs i = (if i < length bs then Some (bs ! i) else None)"

definition ld16 :: "bool \<Rightarrow> bytes \<Rightarrow> nat \<Rightarrow> u16 option" where
  "ld16 be bs i = (if i + 2 \<le> length bs then Some (dec16 be (bs ! i) (bs ! (i + 1))) else None)"

definition ld32 :: "bool \<Rightarrow> bytes \<Rightarrow> nat \<Rightarrow> u32 option" where
  "ld32 be bs i = (if i + 4 \<le> length bs
     then Some (dec32 be (bs ! i) (bs ! (i + 1)) (bs ! (i + 2)) (bs ! (i + 3))) else None)"

definition store :: "bytes \<Rightarrow> nat \<Rightarrow> bytes \<Rightarrow> bytes option" where
  "store xs i bs = (if i + length xs \<le> length bs then Some (splice i xs bs) else None)"

lemma length_enc16 [buf_simps, simp]: "length (enc16 be w) = 2"
  by (simp add: enc16_def Let_def)

lemma length_enc32 [buf_simps, simp]: "length (enc32 be w) = 4"
  by (simp add: enc32_def Let_def)

lemma unat_byte_lt [simp]: "unat (b :: byte) < 256"
  using unsigned_less [of b, where 'a = nat] by simp

lemma unat_u16_lt [simp]: "unat (w :: u16) < 65536"
  using unsigned_less [of w, where 'a = nat] by simp

lemma unat_u32_lt [simp]: "unat (w :: u32) < 4294967296"
  using unsigned_less [of w, where 'a = nat] by simp

lemma unat_suc_less: "(w :: u32) < b \<Longrightarrow> unat (w + 1) = Suc (unat w)"
proof -
  assume "w < b"
  then have "Suc (unat w) < 4294967296" using unat_u32_lt [of b] by (simp only: word_less_nat_alt)
  then show ?thesis by (simp add: unat_word_ariths)
qed

lemma sint_small: "unat (w :: u32) < 2147483648 \<Longrightarrow> sint w = int (unat w)"
proof -
  assume "unat w < 2147483648"
  then have "uint w < 2147483648" by (metis of_nat_less_numeral_iff uint_nat)
  moreover have "- (2 ^ 31) \<le> uint w" by (rule order_trans [of _ 0]) simp_all
  ultimately have "signed_take_bit 31 (uint w) = uint w"
    by (intro signed_take_bit_int_eq_self) simp_all
  then show ?thesis by (simp add: sint_uint)
qed

lemma sint64_small: "unat (w :: 64 word) < 9223372036854775808 \<Longrightarrow> sint w = int (unat w)"
proof -
  assume "unat w < 9223372036854775808"
  then have "uint w < 9223372036854775808" by (metis of_nat_less_numeral_iff uint_nat)
  moreover have "- (2 ^ 63) \<le> uint w" by (rule order_trans [of _ 0]) simp_all
  ultimately have "signed_take_bit 63 (uint w) = uint w"
    by (intro signed_take_bit_int_eq_self) simp_all
  then show ?thesis by (simp add: sint_uint)
qed

lemma unat_word_of_nat32: "n < 4294967296 \<Longrightarrow> unat (word_of_nat n :: u32) = n"
  by (simp add: unsigned_of_nat take_bit_eq_mod)

lemma unat_ucast16 [simp]: "unat (ucast (w :: u16) :: u32) = unat w"
proof -
  have "unat w < 2 ^ 32" by (rule less_trans [OF unat_u16_lt]) simp
  then show ?thesis by (simp add: unsigned_ucast_eq take_bit_word_eq_self take_bit_nat_eq_self)
qed

lemma unat_byte_of_nat [simp]: "unat (word_of_nat n :: byte) = n mod 256"
  by (simp add: unsigned_of_nat take_bit_eq_mod)

lemma two_digits: "(x :: nat) < 65536 \<Longrightarrow> x mod 256 + 256 * (x div 256 mod 256) = x"
  by (simp add: mod_less div_less_iff_less_mult)

lemma four_digits:
  assumes "(x :: nat) < 4294967296"
  shows "x mod 256 + 256 * (x div 256 mod 256) + 65536 * (x div 65536 mod 256)
         + 16777216 * (x div 16777216 mod 256) = x"
proof -
  have a: "x mod 256 + 256 * (x div 256 mod 256) = x mod 65536"
    using mod_mult2_eq [of x 256 256] by simp
  have b: "x mod 65536 + 65536 * (x div 65536 mod 256) = x mod 16777216"
    using mod_mult2_eq [of x 65536 256] by simp
  have c: "x div 16777216 mod 256 = x div 16777216"
    using assms by (simp add: div_less_iff_less_mult)
  have "x mod 16777216 + 16777216 * (x div 16777216) = x"
    by simp
  with a b c show ?thesis by linarith
qed

lemma dec_enc16 [buf_simps, simp]: "dec16 be (enc16 be w ! 0) (enc16 be w ! Suc 0) = w"
  by (simp add: dec16_def enc16_def Let_def two_digits del: of_nat_add of_nat_mult)

lemma dec_enc32 [buf_simps, simp]:
  "dec32 be (enc32 be w ! 0) (enc32 be w ! Suc 0) (enc32 be w ! 2) (enc32 be w ! 3) = w"
  by (simp add: dec32_def enc32_def Let_def numeral_2_eq_2 numeral_3_eq_3
        four_digits del: of_nat_add of_nat_mult)

lemma ld16_splice_same [buf_simps]:
  "i + 2 \<le> length bs \<Longrightarrow> ld16 be (splice i (enc16 be w) bs) i = Some w"
  by (simp add: ld16_def nth_splice)

lemma ld32_splice_same [buf_simps]:
  "i + 4 \<le> length bs \<Longrightarrow> ld32 be (splice i (enc32 be w) bs) i = Some w"
  by (simp add: ld32_def nth_splice)

lemma ld8_splice_other [buf_simps]:
  "off + length xs \<le> length bs \<Longrightarrow> i < off \<or> off + length xs \<le> i \<Longrightarrow>
   ld8 (splice off xs bs) i = ld8 bs i"
  by (auto simp: ld8_def nth_splice)

lemma ld16_splice_other [buf_simps]:
  "off + length xs \<le> length bs \<Longrightarrow> i + 2 \<le> off \<or> off + length xs \<le> i \<Longrightarrow>
   ld16 be (splice off xs bs) i = ld16 be bs i"
  by (auto simp: ld16_def nth_splice)

lemma ld32_splice_other [buf_simps]:
  "off + length xs \<le> length bs \<Longrightarrow> i + 4 \<le> off \<or> off + length xs \<le> i \<Longrightarrow>
   ld32 be (splice off xs bs) i = ld32 be bs i"
  by (auto simp: ld32_def nth_splice)


section \<open>C strings\<close>

text \<open>
  A C string lives at the front of a buffer. \<open>c_streq\<close> is \<open>strcmp(a, b) == 0\<close>: it compares
  byte by byte and has no result when it runs off the end of either buffer.
\<close>

fun c_streq :: "bytes \<Rightarrow> bytes \<Rightarrow> bool option" where
  "c_streq (x # xs) (y # ys) =
     (if x \<noteq> y then Some False else if x = 0 then Some True else c_streq xs ys)"
| "c_streq _ _ = None"

definition cstr :: "bytes \<Rightarrow> bytes" where
  "cstr bs = takeWhile (\<lambda>b. b \<noteq> 0) bs"

definition terminated :: "bytes \<Rightarrow> bool" where
  "terminated bs \<longleftrightarrow> (0 \<in> set bs)"

lemma terminated_length_cstr: "terminated bs \<Longrightarrow> length (cstr bs) < length bs"
  by (induction bs) (auto simp: terminated_def cstr_def)

lemma cstr_take: "terminated (take n bs) \<Longrightarrow> cstr (take n bs) = cstr bs"
  by (induction bs arbitrary: n)
    (auto simp: terminated_def cstr_def take_Cons' split: if_splits)

lemma c_streq_terminated:
  "terminated a \<Longrightarrow> terminated b \<Longrightarrow> c_streq a b = Some (cstr a = cstr b)"
  by (induction a b rule: c_streq.induct) (auto simp: terminated_def cstr_def)

definition c_strlen :: "bytes \<Rightarrow> nat option" where
  "c_strlen bs = (if terminated bs then Some (length (cstr bs)) else None)"

lemma cstr_eq_Nil_iff: "terminated bs \<Longrightarrow> cstr bs = [] \<longleftrightarrow> hd bs = 0"
  by (cases bs) (auto simp: terminated_def cstr_def)

text \<open>\<open>strcpy(dst, src)\<close>: the string and its terminator; no result if they do not fit.\<close>

definition c_strcpy :: "bytes \<Rightarrow> bytes \<Rightarrow> bytes option" where
  "c_strcpy dst src =
     (if terminated src \<and> length (cstr src) < length dst
      then Some (splice 0 (cstr src @ [0]) dst) else None)"

lemma zero_notin_cstr: "0 \<notin> set (cstr bs)"
  by (auto simp: cstr_def dest: set_takeWhileD)

lemma cstr_append_zero: "0 \<notin> set s \<Longrightarrow> cstr (s @ 0 # rest) = s"
  by (induction s) (auto simp: cstr_def)

lemma c_strcpy_cstr:
  assumes "c_strcpy dst src = Some d"
  shows "cstr d = cstr src" and "terminated d" and "length d = length dst"
  using assms zero_notin_cstr [of src]
  by (auto simp: c_strcpy_def splice_def cstr_append_zero terminated_def split: if_splits)


section \<open>Kernel messages\<close>

text \<open>
  A handler answers one request by some \<open>writemsg\<close> calls and one \<open>replymsg\<close>; these are the
  outputs of the model, in order. The message calls themselves are system calls: what
  \<open>readmsg\<close> delivers and what \<open>writemsg\<close> returns are arguments of the handlers.
\<close>

text \<open>
  \<open>readmsg(portid, msgid, buf, sz, off)\<close> copies the bytes the client supplied over the front
  of a local buffer whose old contents are arbitrary; writing past the buffer has no result.
\<close>

definition readmsg_into :: "bytes \<Rightarrow> nat \<Rightarrow> bytes \<Rightarrow> bytes option" where
  "readmsg_into buf sz payload =
     (if sz \<le> length buf then Some (splice 0 (take sz payload) buf) else None)"

lemma readmsg_into_length: "readmsg_into buf sz payload = Some b \<Longrightarrow> length b = length buf"
  by (auto simp: readmsg_into_def split: if_splits)

text \<open>The local \<open>char name[256]\<close> into which a handler reads a name.\<close>

definition read_name :: "(nat \<Rightarrow> byte) \<Rightarrow> nat \<Rightarrow> bytes \<Rightarrow> bytes option" where
  "read_name stk name_sz payload = readmsg_into (map stk [0..<256]) name_sz payload"

text \<open>\<open>ALIGN_UP\<close> of the handlers' headers.\<close>

definition ALIGN_UP :: "nat \<Rightarrow> nat \<Rightarrow> nat" where
  "ALIGN_UP v a = ((v + a - 1) div a) * a"

lemma ALIGN_UP_ge: "0 < a \<Longrightarrow> v \<le> ALIGN_UP v a"
proof -
  assume "0 < a"
  then have "v + a - 1 < ((v + a - 1) div a) * a + a"
    by (metis div_mult_mod_eq mod_less_divisor nat_add_left_cancel_less)
  with \<open>0 < a\<close> show "v \<le> ALIGN_UP v a" by (simp add: ALIGN_UP_def)
qed

end
