(* ===== verification/Ipc.thy ===== *)
theory Ipc
  imports Prelude
begin

text \<open>
  What the four handlers (ifs, devfs, extfs, fatfs) share: the replies they send to the
  kernel's VFS, the directory records they pack for \<open>readdir\<close>, and the contract of a
  \<open>readdir\<close> that a client pages through with the offset the handler returns.
\<close>

section \<open>Replies\<close>

text \<open>
  The mode bits of sys/stat.h. A reply carries the union of sys/iorequest.h; \<open>NoBody\<close> is a
  reply sent with a null body and \<open>ZeroBody\<close> one whose struct was only zeroed,
  \<open>JunkBody\<close> one whose struct was never assigned.
\<close>

abbreviation (input) S_IFMT :: u32 where "S_IFMT \<equiv> 0xF000"
abbreviation (input) S_IFDIR :: u32 where "S_IFDIR \<equiv> 0x4000"
abbreviation (input) S_IFREG :: u32 where "S_IFREG \<equiv> 0x8000"
abbreviation (input) S_IFCHR :: u32 where "S_IFCHR \<equiv> 0x2000"
abbreviation (input) S_IFBLK :: u32 where "S_IFBLK \<equiv> 0x6000"
abbreviation (input) S_IFIFO :: u32 where "S_IFIFO \<equiv> 0x1000"
abbreviation (input) S_IFLNK :: u32 where "S_IFLNK \<equiv> 0xA000"
abbreviation (input) S_IRWXUGO :: u32 where "S_IRWXUGO \<equiv> 0x1FF"

record node_info =
  ni_inode_nr :: int
  ni_size :: int
  ni_mode :: u32
  ni_uid :: int
  ni_gid :: int

record dirent =
  d_name :: bytes
  d_ino :: int
  d_cookie :: int
  d_reclen :: nat

datatype ioreply =
    NoBody
  | ZeroBody
  | JunkBody
  | NodeBody node_info
  | ReaddirBody int

datatype ipc_out =
    WriteDirents "dirent list" int
  | WriteBytes bytes nat
  | ReplyMsg int ioreply


section \<open>Paging through a directory\<close>

text \<open>
  The slots of a node table that \<open>readdir\<close> reports, in order.
\<close>

definition reported :: "(nat \<Rightarrow> 'e option) \<Rightarrow> nat \<Rightarrow> nat \<Rightarrow> 'e list" where
  "reported slot i j = List.map_filter slot [i..<j]"

lemma reported_empty [simp]: "j \<le> i \<Longrightarrow> reported slot i j = []"
  by (simp add: reported_def List.map_filter_def)

lemma reported_append: "i \<le> j \<Longrightarrow> j \<le> k \<Longrightarrow>
  reported slot i j @ reported slot j k = reported slot i k"
  unfolding reported_def List.map_filter_def
  by (metis filter_append le_iff_add map_append upt_add_eq_append)

lemma reported_step:
  "i < j \<Longrightarrow> reported slot i j =
     (case slot i of None \<Rightarrow> [] | Some e \<Rightarrow> [e]) @ reported slot (Suc i) j"
  by (auto simp: reported_def List.map_filter_def upt_conv_Cons split: option.splits)

lemma reported_snoc:
  "i \<le> j \<Longrightarrow> reported slot i (Suc j) =
     reported slot i j @ (case slot j of None \<Rightarrow> [] | Some e \<Rightarrow> [e])"
  by (auto simp: reported_def List.map_filter_def split: option.splits)

text \<open>
  A client that lists a whole directory calls \<open>readdir\<close> again and again, each time from the
  offset the last reply carried, until a reply holds no record.
\<close>

fun read_all :: "(nat \<Rightarrow> nat \<times> 'e list) \<Rightarrow> nat \<Rightarrow> nat \<Rightarrow> 'e list option" where
  "read_all scan 0 c = None"
| "read_all scan (Suc fuel) c =
     (case scan c of (c', es) \<Rightarrow>
        if es = [] then Some []
        else map_option (\<lambda>rest. es @ rest) (read_all scan fuel c'))"

text \<open>
  The contract of a paged scan of the slots of a state \<open>s\<close>: a call from slot \<open>c\<close> with room for
  \<open>m\<close> bytes (at most \<open>cap\<close>, the handler's own buffer) reports exactly the entries of the slots it passed, and stops before the end only
  at an entry that no longer fits.
\<close>

locale paged_scan =
  fixes scan :: "'s \<Rightarrow> nat \<Rightarrow> nat \<Rightarrow> nat \<times> 'e list"
    and slot :: "'s \<Rightarrow> nat \<Rightarrow> 'e option"
    and slots :: "'s \<Rightarrow> nat"
    and esize :: "'e \<Rightarrow> nat"
    and cap :: nat
    and ok :: "'s \<Rightarrow> bool"
  assumes scan_range:
      "ok s \<Longrightarrow> c \<le> slots s \<Longrightarrow> scan s m c = (c', es) \<Longrightarrow> c \<le> c' \<and> c' \<le> slots s"
    and scan_entries:
      "ok s \<Longrightarrow> c \<le> slots s \<Longrightarrow> scan s m c = (c', es) \<Longrightarrow> es = reported (slot s) c c'"
    and scan_stops:
      "ok s \<Longrightarrow> c \<le> slots s \<Longrightarrow> scan s m c = (c', es) \<Longrightarrow> c' < slots s \<Longrightarrow>
       \<exists>e. slot s c' = Some e \<and> min m cap < sum_list (map esize es) + esize e"
begin

lemma scan_progress:
  assumes "ok s" and "c \<le> slots s" and "scan s m c = (c', es)"
    and room: "\<And>i e. slot s i = Some e \<Longrightarrow> esize e \<le> min m cap"
  shows "es = [] \<Longrightarrow> c' = slots s" and "es \<noteq> [] \<Longrightarrow> c < c'"
proof -
  note range = scan_range [OF assms(1-3)] and entries = scan_entries [OF assms(1-3)]
  show "c' = slots s" if "es = []"
  proof (rule ccontr)
    assume "c' \<noteq> slots s"
    with range have "c' < slots s" by simp
    from scan_stops [OF assms(1-3) this] that obtain e where
      "slot s c' = Some e" and "min m cap < esize e" by auto
    with room [of c' e] show False by (meson not_le)
  qed
  show "c < c'" if "es \<noteq> []"
    using that range entries by (metis le_neq_implies_less order_refl reported_empty)
qed

theorem read_all_complete:
  assumes "ok s" and room: "\<And>i e. slot s i = Some e \<Longrightarrow> esize e \<le> min m cap"
  shows "c \<le> slots s \<Longrightarrow> slots s - c < fuel \<Longrightarrow>
    read_all (scan s m) fuel c = Some (reported (slot s) c (slots s))"
proof (induction fuel arbitrary: c)
  case 0
  then show ?case by simp
next
  case (Suc fuel)
  obtain c' es where sc: "scan s m c = (c', es)" by fastforce
  note facts = assms(1) Suc.prems(1) sc
  note range = scan_range [OF facts] and entries = scan_entries [OF facts]
  show ?case
  proof (cases "es = []")
    case True
    have "c' = slots s" by (rule scan_progress(1) [OF facts _ True]) (rule room)
    with True entries sc show ?thesis by simp
  next
    case False
    have "c < c'" by (rule scan_progress(2) [OF facts _ False]) (rule room)
    with Suc.prems range have "read_all (scan s m) fuel c' = Some (reported (slot s) c' (slots s))"
      by (intro Suc.IH) auto
    with False sc entries range show ?thesis
      by (simp add: reported_append)
  qed
qed

end


section \<open>Packing records into a reply buffer\<close>

text \<open>
  The common shape of the packing loops: walk the slots from a cookie, append each record that
  still fits in \<open>m\<close> bytes, and stop at the first that does not. The handlers' own loops are
  shown equal to it on well-formed tables.
\<close>

abbreviation dirents_size :: "dirent list \<Rightarrow> int" where
  "dirents_size ds \<equiv> int (sum_list (map d_reclen ds))"

function dirent_fill ::
    "(nat \<Rightarrow> dirent option) \<Rightarrow> nat \<Rightarrow> int \<Rightarrow> nat \<Rightarrow> int \<Rightarrow> dirent list \<Rightarrow> int \<times> int \<times> dirent list" where
  "dirent_fill slot n m c sz acc =
     (if n \<le> c then (int c, sz, acc)
      else (case slot c of
          None \<Rightarrow> dirent_fill slot n m (Suc c) sz acc
        | Some e \<Rightarrow>
            if sz + int (d_reclen e) \<le> m
            then dirent_fill slot n m (Suc c) (sz + int (d_reclen e)) (acc @ [e])
            else (int c, sz, acc)))"
  by pat_completeness auto
termination
  by (relation "measure (\<lambda>(slot, n, m, c, sz, acc). n - c)") auto

declare dirent_fill.simps [simp del]

lemma dirent_fill_spec:
  "c \<le> n \<Longrightarrow>
    \<exists>c'. dirent_fill slot n m c sz acc =
        (int c', sz + dirents_size (reported slot c c'), acc @ reported slot c c') \<and>
      c \<le> c' \<and> c' \<le> n \<and>
      (c' < n \<longrightarrow> (\<exists>e. slot c' = Some e \<and>
         m < sz + dirents_size (reported slot c c') + int (d_reclen e)))"
proof (induction slot n m c sz acc rule: dirent_fill.induct)
  case (1 slot n m c sz acc)
  note step = dirent_fill.simps [of slot n m c sz acc]
  show ?case
  proof (cases "c < n")
    case False
    then have "dirent_fill slot n m c sz acc = (int c, sz, acc)" by (simp add: step)
    with "1.prems" False show ?thesis by (intro exI [where x = c]) simp
  next
    case c: True
    show ?thesis
    proof (cases "slot c")
      case None
      with c "1.IH"(1) obtain c' where IH: "Suc c \<le> c'" "c' \<le> n"
        "dirent_fill slot n m (Suc c) sz acc =
          (int c', sz + dirents_size (reported slot (Suc c) c'), acc @ reported slot (Suc c) c')"
        "c' < n \<longrightarrow> (\<exists>e. slot c' = Some e \<and>
           m < sz + dirents_size (reported slot (Suc c) c') + int (d_reclen e))"
        by (metis Suc_leI not_le)
      then have "reported slot c c' = reported slot (Suc c) c'"
        using None by (simp add: reported_step [of c])
      with IH c None show ?thesis by (intro exI [where x = c']) (simp add: step)
    next
      case (Some e)
      show ?thesis
      proof (cases "sz + int (d_reclen e) \<le> m")
        case False
        with c Some show ?thesis by (intro exI [where x = c]) (simp add: step)
      next
        case True
        with c Some "1.IH"(2) obtain c' where IH: "Suc c \<le> c'" "c' \<le> n"
          "dirent_fill slot n m (Suc c) (sz + int (d_reclen e)) (acc @ [e]) =
            (int c', sz + int (d_reclen e) + dirents_size (reported slot (Suc c) c'),
             (acc @ [e]) @ reported slot (Suc c) c')"
          "c' < n \<longrightarrow> (\<exists>f. slot c' = Some f \<and>
             m < sz + int (d_reclen e) + dirents_size (reported slot (Suc c) c') + int (d_reclen f))"
          by (metis Suc_leI not_le)
        then have "reported slot c c' = e # reported slot (Suc c) c'"
          using Some by (simp add: reported_step [of c])
        with IH c Some True show ?thesis
          by (intro exI [where x = c']) (auto simp: step algebra_simps)
      qed
    qed
  qed
qed

end
