(* ===== verification/Devfs.thy ===== *)
theory Devfs
  imports Ipc
begin

text \<open>
  The device file system, src/devfs: a fixed table of 128 nodes below one root directory.
  The state is the node table; the operations are one per request of main.c, and
  \<open>devfs_step\<close> is the dispatch of its event loop.
\<close>

section \<open>State\<close>

abbreviation (input) DEVFS_MAX_INODE :: nat where "DEVFS_MAX_INODE \<equiv> 128"
abbreviation (input) DEVFS_DIRENTS_BUF_SZ :: int where "DEVFS_DIRENTS_BUF_SZ \<equiv> 4096"
abbreviation (input) DEVFS_NAME_LEN :: nat where "DEVFS_NAME_LEN \<equiv> 64"

record DevfsNode =
  dn_name :: bytes
  dn_inode_nr :: int
  dn_parent_inode_nr :: int
  dn_mode :: u32
  dn_uid :: int
  dn_gid :: int
  dn_file_offset :: u32
  dn_file_size :: u32

record devfs =
  devfs_inode_table :: "DevfsNode list"
  devfs_shutdown :: bool

text \<open>\<open>init_devfs\<close>: number the nodes and empty their names; it returns 0.\<close>

definition init_devfs_node :: "nat \<Rightarrow> DevfsNode \<Rightarrow> DevfsNode" where
  "init_devfs_node t nd =
     nd\<lparr>dn_inode_nr := int t, dn_parent_inode_nr := 0, dn_name := (dn_name nd)[0 := 0]\<rparr>"

definition init_devfs :: "devfs \<Rightarrow> int \<times> devfs" where
  "init_devfs s =
     (0, s\<lparr>devfs_inode_table :=
            map (\<lambda>t. init_devfs_node t (devfs_inode_table s ! t)) [0..<DEVFS_MAX_INODE]\<rparr>)"

text \<open>The globals of a C program start zeroed.\<close>

definition devfs_zero :: devfs where
  "devfs_zero =
     \<lparr>devfs_inode_table = replicate DEVFS_MAX_INODE
        \<lparr>dn_name = replicate DEVFS_NAME_LEN 0, dn_inode_nr = 0, dn_parent_inode_nr = 0, dn_mode = 0,
         dn_uid = 0, dn_gid = 0, dn_file_offset = 0, dn_file_size = 0\<rparr>,
      devfs_shutdown = False\<rparr>"


section \<open>Operations\<close>

text \<open>The loop over the table that looks for a name: the first node whose name is equal.\<close>

fun devfs_find :: "bytes \<Rightarrow> DevfsNode list \<Rightarrow> DevfsNode option option" where
  "devfs_find name [] = Some None"
| "devfs_find name (nd # nds) =
     (case c_streq (dn_name nd) name of
        None \<Rightarrow> None
      | Some eq \<Rightarrow> if eq then Some (Some nd) else devfs_find name nds)"

text \<open>\<open>stk\<close> gives the old contents of the local name buffer.\<close>

definition devfsLookup ::
    "(nat \<Rightarrow> byte) \<Rightarrow> int \<Rightarrow> nat \<Rightarrow> bytes \<Rightarrow> devfs \<Rightarrow> (ipc_out list \<times> devfs) option" where
  "devfsLookup stk dir_inode_nr name_sz payload s =
     (if DEVFS_NAME_LEN < name_sz then Some ([ReplyMsg (- EINVAL) NoBody], s)
      else do {
        buf \<leftarrow> readmsg_into (map stk [0..<DEVFS_NAME_LEN + 1]) name_sz payload;
        let name = buf[name_sz := 0];
        if dir_inode_nr < 0 \<or> int DEVFS_MAX_INODE \<le> dir_inode_nr
        then Some ([ReplyMsg (- EINVAL) NoBody], s)
        else do {
          found \<leftarrow> devfs_find name (drop 1 (devfs_inode_table s));
          (case found of
             Some node \<Rightarrow>
               Some ([ReplyMsg 0 (NodeBody
                  \<lparr>ni_inode_nr = dn_inode_nr node, ni_size = uint (dn_file_size node),
                   ni_mode = or S_IRWXUGO (and S_IFMT (dn_mode node)),
                   ni_uid = 0, ni_gid = 0\<rparr>)], s)
           | None \<Rightarrow> Some ([ReplyMsg (- ENOENT) NoBody], s))
        }
      })"

definition devfsClose :: "devfs \<Rightarrow> (ipc_out list \<times> devfs) option" where
  "devfsClose s = Some ([ReplyMsg 0 NoBody], s)"

text \<open>
  \<open>dno\<close> is the offset of the name in \<open>struct dirent\<close>, which dirent.h decides. The records in
  the reply buffer are kept as a list; \<open>sz\<close> is the number of bytes they take.
\<close>

definition dirent_reclen :: "nat \<Rightarrow> bytes \<Rightarrow> nat" where
  "dirent_reclen dno name = ALIGN_UP (dno + length (cstr name) + 1) 8"

definition devfs_dirent :: "nat \<Rightarrow> int \<Rightarrow> DevfsNode \<Rightarrow> dirent" where
  "devfs_dirent dno cookie node =
     \<lparr>d_name = cstr (dn_name node), d_ino = dn_inode_nr node, d_cookie = cookie,
      d_reclen = dirent_reclen dno (dn_name node)\<rparr>"

function devfs_readdir_loop ::
    "nat \<Rightarrow> DevfsNode list \<Rightarrow> int \<Rightarrow> int \<Rightarrow> int \<Rightarrow> dirent list \<Rightarrow> (int \<times> int \<times> dirent list) option" where
  "devfs_readdir_loop dno tbl max_sz cookie sz acc =
     (if int DEVFS_MAX_INODE \<le> cookie then Some (cookie, sz, acc)
      else if cookie < 0 then None
      else let node = tbl ! nat cookie in
        if hd (dn_name node) \<noteq> 0 then
          (case c_strlen (dn_name node) of
             None \<Rightarrow> None
           | Some len \<Rightarrow>
               let reclen = int (ALIGN_UP (dno + len + 1) 8) in
               if sz + reclen \<le> max_sz
               then devfs_readdir_loop dno tbl max_sz (cookie + 1) (sz + reclen)
                      (acc @ [devfs_dirent dno cookie node])
               else Some (cookie, sz, acc))
        else devfs_readdir_loop dno tbl max_sz (cookie + 1) sz acc)"
  by pat_completeness auto
termination
  by (relation "measure (\<lambda>(dno, tbl, max_sz, cookie, sz, acc). nat (int DEVFS_MAX_INODE - cookie))")
    auto

declare devfs_readdir_loop.simps [simp del]

definition devfsReaddir ::
    "nat \<Rightarrow> int \<Rightarrow> int \<Rightarrow> devfs \<Rightarrow> (ipc_out list \<times> devfs) option" where
  "devfsReaddir dno offset req_sz s =
     (let max_reply_sz = (if req_sz < DEVFS_DIRENTS_BUF_SZ then req_sz else DEVFS_DIRENTS_BUF_SZ);
          cookie = (if offset = 0 then 1 else offset)
      in do {
        (cookie', sz, ds) \<leftarrow>
          devfs_readdir_loop dno (devfs_inode_table s) max_reply_sz cookie 0 [];
        Some ([WriteDirents ds sz, ReplyMsg sz (ReaddirBody cookie')], s)
      })"

text \<open>The loop that looks for the first node with an empty name, by its index.\<close>

fun devfs_free_slot :: "nat \<Rightarrow> DevfsNode list \<Rightarrow> nat option" where
  "devfs_free_slot i [] = None"
| "devfs_free_slot i (nd # nds) =
     (if hd (dn_name nd) = 0 then Some i else devfs_free_slot (Suc i) nds)"

definition devfsMknod ::
    "(nat \<Rightarrow> byte) \<Rightarrow> int \<Rightarrow> nat \<Rightarrow> bytes \<Rightarrow> u32 \<Rightarrow> int \<Rightarrow> int \<Rightarrow> devfs \<Rightarrow>
     (ipc_out list \<times> devfs) option" where
  "devfsMknod stk dir_inode_nr name_sz payload mode uid gid s = do {
     name \<leftarrow> readmsg_into (map stk [0..<256]) name_sz payload;
     exists \<leftarrow> devfs_find name (drop 1 (devfs_inode_table s));
     if exists \<noteq> None then Some ([ReplyMsg (- EEXIST) NoBody], s)
     else (case devfs_free_slot 1 (drop 1 (devfs_inode_table s)) of
       None \<Rightarrow> Some ([ReplyMsg (- ENOSPC) NoBody], s)
     | Some i \<Rightarrow> do {
         let node = devfs_inode_table s ! i;
         nm \<leftarrow> c_strcpy (dn_name node) name;
         let node' = node\<lparr>dn_name := nm, dn_mode := mode, dn_uid := uid, dn_gid := gid\<rparr>;
         Some ([ReplyMsg 0 (NodeBody
                 \<lparr>ni_inode_nr = dn_inode_nr node', ni_size = 0, ni_mode = dn_mode node',
                  ni_uid = dn_uid node', ni_gid = dn_gid node'\<rparr>)],
               s\<lparr>devfs_inode_table := (devfs_inode_table s)[i := node']\<rparr>)
       })
   }"

definition devfsUnlink :: "devfs \<Rightarrow> (ipc_out list \<times> devfs) option" where
  "devfsUnlink s = Some ([ReplyMsg (- ENOTSUP) NoBody], s)"

definition devfs_sigterm_handler :: "devfs \<Rightarrow> devfs" where
  "devfs_sigterm_handler s = s\<lparr>devfs_shutdown := True\<rparr>"

text \<open>The dispatch on the command in the event loop of main.\<close>

datatype devfs_req =
    DevLookup int nat bytes
  | DevClose
  | DevReaddir int int
  | DevMknod int nat bytes u32 int int
  | DevUnlink
  | DevOther

fun devfs_step ::
    "(nat \<Rightarrow> byte) \<Rightarrow> nat \<Rightarrow> devfs_req \<Rightarrow> devfs \<Rightarrow> (ipc_out list \<times> devfs) option" where
  "devfs_step stk dno (DevLookup d n p) s = devfsLookup stk d n p s"
| "devfs_step stk dno DevClose s = devfsClose s"
| "devfs_step stk dno (DevReaddir off sz) s = devfsReaddir dno off sz s"
| "devfs_step stk dno (DevMknod d n p m u g) s = devfsMknod stk d n p m u g s"
| "devfs_step stk dno DevUnlink s = devfsUnlink s"
| "devfs_step stk dno DevOther s = Some ([ReplyMsg (- ENOTSUP) NoBody], s)"

text \<open>
  The states the event loop can reach: it starts after \<open>init_devfs\<close> and serves requests (each
  with some old stack contents) or takes a SIGTERM. The flag \<open>shutdown\<close> is read only when the
  port is empty, so requests already queued are still served after it is set.
\<close>

inductive devfs_reachable :: "devfs \<Rightarrow> bool" where
  dev_init: "devfs_reachable (snd (init_devfs devfs_zero))"
| dev_serve: "devfs_reachable s \<Longrightarrow> devfs_step stk dno r s = Some (out, s') \<Longrightarrow>
    devfs_reachable s'"
| dev_term: "devfs_reachable s \<Longrightarrow> devfs_reachable (devfs_sigterm_handler s)"


section \<open>Invariant\<close>

text \<open>
  The table is well formed: 128 nodes, node \<open>i\<close> numbered \<open>i\<close>, every name terminated inside its
  64 bytes, the root's name empty, and no two nodes in use with the same name.
\<close>

definition devfs_node_ok :: "nat \<Rightarrow> DevfsNode \<Rightarrow> bool" where
  "devfs_node_ok i nd \<longleftrightarrow>
     dn_inode_nr nd = int i \<and> length (dn_name nd) = DEVFS_NAME_LEN \<and> terminated (dn_name nd)"

definition devfs_name :: "devfs \<Rightarrow> nat \<Rightarrow> bytes" where
  "devfs_name s i = cstr (dn_name (devfs_inode_table s ! i))"

definition devfs_ok :: "devfs \<Rightarrow> bool" where
  "devfs_ok s \<longleftrightarrow>
     length (devfs_inode_table s) = DEVFS_MAX_INODE \<and>
     (\<forall>i < DEVFS_MAX_INODE. devfs_node_ok i (devfs_inode_table s ! i)) \<and>
     devfs_name s 0 = [] \<and>
     (\<forall>i < DEVFS_MAX_INODE. \<forall>j < DEVFS_MAX_INODE.
        devfs_name s i \<noteq> [] \<longrightarrow> devfs_name s i = devfs_name s j \<longrightarrow> i = j)"

lemma devfs_okD [dest]:
  assumes "devfs_ok s"
  shows "length (devfs_inode_table s) = DEVFS_MAX_INODE"
    and "i < DEVFS_MAX_INODE \<Longrightarrow> dn_inode_nr (devfs_inode_table s ! i) = int i"
    and "i < DEVFS_MAX_INODE \<Longrightarrow> length (dn_name (devfs_inode_table s ! i)) = DEVFS_NAME_LEN"
    and "i < DEVFS_MAX_INODE \<Longrightarrow> terminated (dn_name (devfs_inode_table s ! i))"
    and "devfs_name s 0 = []"
    and "i < DEVFS_MAX_INODE \<Longrightarrow> j < DEVFS_MAX_INODE \<Longrightarrow> devfs_name s i \<noteq> [] \<Longrightarrow>
         devfs_name s i = devfs_name s j \<Longrightarrow> i = j"
  using assms by (auto simp: devfs_ok_def devfs_node_ok_def)

lemma terminated_replicate [simp]: "0 < n \<Longrightarrow> terminated (replicate n 0)"
  by (simp add: terminated_def)

lemma replicate_update_same [simp]: "i < n \<Longrightarrow> (replicate n x)[i := x] = replicate n x"
  by (metis list_update_id nth_replicate)

lemma cstr_replicate [simp]: "cstr (replicate n 0) = []"
  by (cases n) (auto simp: cstr_def)

lemma devfs_ok_init: "devfs_ok (snd (init_devfs devfs_zero))"
  by (simp add: devfs_ok_def devfs_node_ok_def devfs_name_def init_devfs_def init_devfs_node_def
        devfs_zero_def)

text \<open>What the two search loops find.\<close>

lemma devfs_find_spec:
  "\<forall>nd \<in> set nds. terminated (dn_name nd) \<Longrightarrow> terminated name \<Longrightarrow>
   devfs_find name nds = Some (find (\<lambda>nd. cstr (dn_name nd) = cstr name) nds)"
  by (induction nds) (auto simp: c_streq_terminated)

lemma devfs_free_slot_Some:
  "devfs_free_slot i nds = Some k \<Longrightarrow>
   i \<le> k \<and> k - i < length nds \<and> hd (dn_name (nds ! (k - i))) = 0"
proof (induction nds arbitrary: i)
  case (Cons nd nds)
  then show ?case by (fastforce simp: nth_Cons' Suc_diff_le split: if_splits)
qed simp

lemma devfs_free_slot_None:
  "devfs_free_slot i nds = None \<longleftrightarrow> (\<forall>nd \<in> set nds. hd (dn_name nd) \<noteq> 0)"
  by (induction nds arbitrary: i) auto

lemma in_set_drop1:
  "x \<in> set (drop (Suc 0) xs) \<longleftrightarrow> (\<exists>i. 1 \<le> i \<and> i < length xs \<and> x = xs ! i)"
proof
  assume "x \<in> set (drop (Suc 0) xs)"
  then obtain k where "k < length xs - 1" "x = xs ! Suc k"
    by (auto simp: in_set_conv_nth)
  then show "\<exists>i. 1 \<le> i \<and> i < length xs \<and> x = xs ! i"
    by (intro exI [where x = "Suc k"]) simp
next
  assume "\<exists>i. 1 \<le> i \<and> i < length xs \<and> x = xs ! i"
  then obtain i where "1 \<le> i" "i < length xs" "x = xs ! i" by blast
  then have "i - 1 < length (drop (Suc 0) xs)" "x = drop (Suc 0) xs ! (i - 1)" by auto
  then show "x \<in> set (drop (Suc 0) xs)" by (metis nth_mem)
qed

lemma ball_drop1:
  "(\<forall>x \<in> set (drop (Suc 0) xs). P x) \<longleftrightarrow> (\<forall>i. 1 \<le> i \<longrightarrow> i < length xs \<longrightarrow> P (xs ! i))"
  by (metis in_set_drop1)

lemma devfs_ok_terminated_nodes:
  "devfs_ok s \<Longrightarrow> \<forall>nd \<in> set (drop (Suc 0) (devfs_inode_table s)). terminated (dn_name nd)"
  by (auto simp: in_set_drop1 devfs_ok_def devfs_node_ok_def)

lemma terminated_upd: "i < length b \<Longrightarrow> terminated (b[i := 0])"
  by (simp add: terminated_def set_update_memI)

lemma devfs_empty_iff:
  "devfs_ok s \<Longrightarrow> i < DEVFS_MAX_INODE \<Longrightarrow>
   hd (dn_name (devfs_inode_table s ! i)) = 0 \<longleftrightarrow> devfs_name s i = []"
  using cstr_eq_Nil_iff devfs_okD(4) unfolding devfs_name_def by blast


section \<open>The directory as a map\<close>

text \<open>
  What the table means: a map from the names in use to node numbers. Lookup and mknod are
  specified against it.
\<close>

definition devfs_slot_of :: "devfs \<Rightarrow> bytes \<Rightarrow> nat option" where
  "devfs_slot_of s nm = find (\<lambda>i. devfs_name s i = nm) [1..<DEVFS_MAX_INODE]"

definition devfs_dir :: "devfs \<Rightarrow> bytes \<rightharpoonup> nat" where
  "devfs_dir s nm = (if nm = [] then None else devfs_slot_of s nm)"

lemma find_map: "find P (map f xs) = map_option f (find (P \<circ> f) xs)"
  by (induction xs) auto

lemma find_Some_upt:
  "find P [a..<b] = Some i \<Longrightarrow> a \<le> i \<and> i < b \<and> P i"
  by (auto simp: find_Some_iff)

lemma drop1_conv_map: "length xs = n \<Longrightarrow> drop (Suc 0) xs = map ((!) xs) [1..<n]"
  by (rule nth_equalityI) auto

lemma devfs_find_table:
  assumes "devfs_ok s" and "terminated name"
  shows "devfs_find name (drop (Suc 0) (devfs_inode_table s)) =
    Some (map_option ((!) (devfs_inode_table s)) (devfs_slot_of s (cstr name)))"
proof -
  have "find (\<lambda>nd. cstr (dn_name nd) = cstr name) (drop (Suc 0) (devfs_inode_table s)) =
    map_option ((!) (devfs_inode_table s)) (devfs_slot_of s (cstr name))"
    using devfs_okD(1) [OF assms(1)]
    by (simp add: drop1_conv_map [where n = DEVFS_MAX_INODE] find_map devfs_slot_of_def
          devfs_name_def comp_def)
  with devfs_find_spec [OF devfs_ok_terminated_nodes [OF assms(1)] assms(2)] show ?thesis
    by simp
qed

lemma devfs_slot_of_unique:
  assumes "devfs_ok s" and "nm \<noteq> []" and "1 \<le> i" and "i < DEVFS_MAX_INODE" and "devfs_name s i = nm"
  shows "devfs_slot_of s nm = Some i"
proof (cases "devfs_slot_of s nm")
  case None
  with assms show ?thesis by (auto simp: devfs_slot_of_def find_None_iff)
next
  case (Some j)
  then have "j < DEVFS_MAX_INODE" "devfs_name s j = nm"
    by (auto simp: devfs_slot_of_def dest: find_Some_upt)
  with Some assms devfs_okD(6) [OF assms(1), of i j] show ?thesis by simp
qed

lemma readmsg_into_lookup:
  assumes "length nm \<le> DEVFS_NAME_LEN" and "0 \<notin> set nm"
  shows "\<exists>buf. readmsg_into (map stk [0..<DEVFS_NAME_LEN + 1]) (length nm) nm = Some buf
     \<and> terminated (buf[length nm := 0]) \<and> cstr (buf[length nm := 0]) = nm"
proof -
  let ?g = "map stk [0..<DEVFS_NAME_LEN + 1]"
  have "(splice 0 nm ?g)[length nm := 0] = nm @ 0 # drop (Suc (length nm)) ?g"
    using assms(1) by (simp add: splice_def list_update_append upd_conv_take_nth_drop)
  with assms show ?thesis
    by (auto simp: readmsg_into_def cstr_append_zero terminated_def)
qed

definition devfs_node_reply :: "devfs \<Rightarrow> nat \<Rightarrow> node_info" where
  "devfs_node_reply s i =
     \<lparr>ni_inode_nr = int i, ni_size = uint (dn_file_size (devfs_inode_table s ! i)),
      ni_mode = or S_IRWXUGO (and S_IFMT (dn_mode (devfs_inode_table s ! i))), ni_uid = 0, ni_gid = 0\<rparr>"

lemma devfsLookup_refines:
  assumes ok: "devfs_ok s" and nm: "length nm \<le> DEVFS_NAME_LEN" "0 \<notin> set nm"
    and dir: "0 \<le> d" "d < int DEVFS_MAX_INODE"
  shows "devfsLookup stk d (length nm) nm s =
    Some ([case devfs_slot_of s nm of
             Some i \<Rightarrow> ReplyMsg 0 (NodeBody (devfs_node_reply s i))
           | None \<Rightarrow> ReplyMsg (- ENOENT) NoBody], s)"
proof -
  obtain buf where buf: "readmsg_into (map stk [0..<DEVFS_NAME_LEN + 1]) (length nm) nm = Some buf"
    and t: "terminated (buf[length nm := 0])" and c: "cstr (buf[length nm := 0]) = nm"
    using readmsg_into_lookup [OF nm] by blast
  show ?thesis
    using nm dir buf devfs_find_table [OF ok t] c devfs_okD(2) [OF ok]
    by (auto simp: devfsLookup_def devfs_node_reply_def devfs_slot_of_def
          simp del: upt_Suc upt.simps dest!: find_Some_upt split: option.splits)
qed


section \<open>Creating a node\<close>

lemma devfs_free_slot_table:
  assumes "devfs_ok s"
  shows "devfs_free_slot 1 (drop (Suc 0) (devfs_inode_table s)) = Some k \<Longrightarrow>
      1 \<le> k \<and> k < DEVFS_MAX_INODE \<and> devfs_name s k = []"
    and "devfs_free_slot 1 (drop (Suc 0) (devfs_inode_table s)) = None \<longleftrightarrow>
      (\<forall>i. 1 \<le> i \<longrightarrow> i < DEVFS_MAX_INODE \<longrightarrow> devfs_name s i \<noteq> [])"
proof -
  note len = devfs_okD(1) [OF assms] and empty = devfs_empty_iff [OF assms]
  show "1 \<le> k \<and> k < DEVFS_MAX_INODE \<and> devfs_name s k = []"
    if "devfs_free_slot 1 (drop (Suc 0) (devfs_inode_table s)) = Some k"
    using devfs_free_slot_Some [OF that] len empty [of k] by auto
  show "devfs_free_slot 1 (drop (Suc 0) (devfs_inode_table s)) = None \<longleftrightarrow>
      (\<forall>i. 1 \<le> i \<longrightarrow> i < DEVFS_MAX_INODE \<longrightarrow> devfs_name s i \<noteq> [])"
    using len empty by (auto simp: devfs_free_slot_None ball_drop1)
qed

text \<open>Filling node \<open>k\<close>.\<close>

definition devfs_fill :: "nat \<Rightarrow> bytes \<Rightarrow> u32 \<Rightarrow> int \<Rightarrow> int \<Rightarrow> devfs \<Rightarrow> devfs" where
  "devfs_fill k nm mode uid gid s =
     s\<lparr>devfs_inode_table := (devfs_inode_table s)
        [k := (devfs_inode_table s ! k)\<lparr>dn_name := nm, dn_mode := mode, dn_uid := uid, dn_gid := gid\<rparr>]\<rparr>"

lemma devfs_fill_name:
  "devfs_ok s \<Longrightarrow> k < DEVFS_MAX_INODE \<Longrightarrow> i < DEVFS_MAX_INODE \<Longrightarrow>
   devfs_name (devfs_fill k nm mode uid gid s) i = (if i = k then cstr nm else devfs_name s i)"
  by (auto simp: devfs_name_def devfs_fill_def devfs_ok_def)

lemma devfs_fill_ok:
  assumes "devfs_ok s" and "1 \<le> k" "k < DEVFS_MAX_INODE"
    and "terminated nm" "length nm = DEVFS_NAME_LEN"
    and "\<And>i. i < DEVFS_MAX_INODE \<Longrightarrow> i \<noteq> k \<Longrightarrow> cstr nm \<noteq> [] \<Longrightarrow> devfs_name s i \<noteq> cstr nm"
  shows "devfs_ok (devfs_fill k nm mode uid gid s)"
proof -
  have nodes: "devfs_node_ok i (devfs_inode_table (devfs_fill k nm mode uid gid s) ! i)"
    if "i < DEVFS_MAX_INODE" for i
    using assms that devfs_okD(1) [OF assms(1)] devfs_okD(2-4) [OF assms(1), of i]
    by (cases "i = k") (auto simp: devfs_fill_def devfs_node_ok_def)
  have len: "length (devfs_inode_table (devfs_fill k nm mode uid gid s)) = DEVFS_MAX_INODE"
    using devfs_okD(1) [OF assms(1)] by (simp add: devfs_fill_def)
  have names: "devfs_name (devfs_fill k nm mode uid gid s) i = (if i = k then cstr nm else devfs_name s i)"
    if "i < DEVFS_MAX_INODE" for i
    using that assms(1,3) by (rule_tac devfs_fill_name)
  show ?thesis
    unfolding devfs_ok_def
  proof (intro conjI allI impI)
    fix i j
    assume "i < DEVFS_MAX_INODE" "j < DEVFS_MAX_INODE"
      "devfs_name (devfs_fill k nm mode uid gid s) i \<noteq> []"
      "devfs_name (devfs_fill k nm mode uid gid s) i = devfs_name (devfs_fill k nm mode uid gid s) j"
    then show "i = j"
      using names assms(6) [of i] assms(6) [of j] devfs_okD(6) [OF assms(1), of i j]
      by (auto split: if_splits)
  qed (use nodes len names [of 0] assms devfs_okD(5) [OF assms(1)] in auto)
qed

lemma devfsMknod_cases:
  assumes r: "devfsMknod stk d n p mode uid gid s = Some (out, s')"
  obtains (exist) nb nd where "readmsg_into (map stk [0..<256]) n p = Some nb"
        "devfs_find nb (drop (Suc 0) (devfs_inode_table s)) = Some (Some nd)"
        "out = [ReplyMsg (- EEXIST) NoBody]" "s' = s"
    | (full) nb where "readmsg_into (map stk [0..<256]) n p = Some nb"
        "devfs_find nb (drop (Suc 0) (devfs_inode_table s)) = Some None"
        "devfs_free_slot 1 (drop (Suc 0) (devfs_inode_table s)) = None"
        "out = [ReplyMsg (- ENOSPC) NoBody]" "s' = s"
    | (made) nb nm k where "readmsg_into (map stk [0..<256]) n p = Some nb"
        "devfs_find nb (drop (Suc 0) (devfs_inode_table s)) = Some None"
        "devfs_free_slot 1 (drop (Suc 0) (devfs_inode_table s)) = Some k"
        "c_strcpy (dn_name (devfs_inode_table s ! k)) nb = Some nm"
        "s' = devfs_fill k nm mode uid gid s"
        "out = [ReplyMsg 0 (NodeBody \<lparr>ni_inode_nr = dn_inode_nr (devfs_inode_table s ! k),
                  ni_size = 0, ni_mode = mode, ni_uid = uid, ni_gid = gid\<rparr>)]"
proof -
  from r obtain nb e where nb: "readmsg_into (map stk [0..<256]) n p = Some nb"
    and e: "devfs_find nb (drop (Suc 0) (devfs_inode_table s)) = Some e"
    by (auto simp: devfsMknod_def bind_eq_Some_conv)
  show thesis
  proof (cases e)
    case (Some nd)
    with r nb e have "out = [ReplyMsg (- EEXIST) NoBody]" "s' = s"
      by (simp_all add: devfsMknod_def)
    with nb e Some show thesis by (intro exist) auto
  next
    case None
    show thesis
    proof (cases "devfs_free_slot (Suc 0) (drop (Suc 0) (devfs_inode_table s))")
      case no_slot: None
      with None r nb e have "out = [ReplyMsg (- ENOSPC) NoBody]" "s' = s"
        by (simp_all add: devfsMknod_def)
      with nb e None no_slot show thesis by (intro full) auto
    next
      case (Some k)
      with None r nb e obtain nm where "c_strcpy (dn_name (devfs_inode_table s ! k)) nb = Some nm"
        "s' = devfs_fill k nm mode uid gid s"
        "out = [ReplyMsg 0 (NodeBody \<lparr>ni_inode_nr = dn_inode_nr (devfs_inode_table s ! k),
                  ni_size = 0, ni_mode = mode, ni_uid = uid, ni_gid = gid\<rparr>)]"
        by (auto simp: devfsMknod_def bind_eq_Some_conv Let_def devfs_fill_def)
      with nb e None Some show thesis by (intro made) auto
    qed
  qed
qed

lemma devfs_made_ok:
  assumes ok: "devfs_ok s"
    and f: "devfs_find nb (drop (Suc 0) (devfs_inode_table s)) = Some None"
    and k: "devfs_free_slot 1 (drop (Suc 0) (devfs_inode_table s)) = Some k"
    and nm: "c_strcpy (dn_name (devfs_inode_table s ! k)) nb = Some nm"
  shows "devfs_ok (devfs_fill k nm mode uid gid s)"
proof -
  have t: "terminated nb" using nm by (auto simp: c_strcpy_def split: if_splits)
  have none: "devfs_slot_of s (cstr nb) = None"
    using devfs_find_table [OF ok t] f by (cases "devfs_slot_of s (cstr nb)") auto
  note kk = devfs_free_slot_table(1) [OF ok k] and c = c_strcpy_cstr [OF nm]
  have "devfs_name s i \<noteq> cstr nm" if "i < DEVFS_MAX_INODE" "cstr nm \<noteq> []" for i
    using none that c(1) devfs_okD(5) [OF ok]
    by (cases "i = 0") (auto simp: devfs_slot_of_def find_None_iff)
  with kk c devfs_okD(3) [OF ok, of k] show ?thesis
    by (intro devfs_fill_ok [OF ok]) auto
qed

lemma devfsMknod_ok:
  "devfs_ok s \<Longrightarrow> devfsMknod stk d n p mode uid gid s = Some (out, s') \<Longrightarrow> devfs_ok s'"
  by (erule devfsMknod_cases) (auto intro: devfs_made_ok)


lemma devfs_step_ok:
  assumes "devfs_ok s" and "devfs_step stk dno r s = Some (out, s')"
  shows "devfs_ok s'"
proof (cases r)
  case (DevMknod d n p m u g)
  with assms show ?thesis by (auto intro: devfsMknod_ok)
next
  case (DevLookup d n p)
  with assms show ?thesis
    by (auto simp: devfsLookup_def bind_eq_Some_conv Let_def split: if_splits option.splits)
qed (use assms in \<open>auto simp: devfsClose_def devfsReaddir_def devfsUnlink_def Let_def
      bind_eq_Some_conv\<close>)

lemma devfs_reachable_ok: "devfs_reachable s \<Longrightarrow> devfs_ok s"
proof (induction rule: devfs_reachable.induct)
  case dev_init
  show ?case by (rule devfs_ok_init)
next
  case (dev_serve s stk dno r out s')
  then show ?case by (blast intro: devfs_step_ok)
next
  case (dev_term s)
  then show ?case
    by (auto simp: devfs_sigterm_handler_def devfs_ok_def devfs_name_def)
qed

lemma readmsg_into_mknod:
  assumes "length nm < 256"
  shows "readmsg_into (map stk [0..<256]) (length nm + 1) (nm @ [0]) =
    Some (nm @ 0 # drop (length nm + 1) (map stk [0..<256]))"
  using assms by (simp add: readmsg_into_def splice_def)

lemma devfs_slot_of_empty_iff:
  "devfs_slot_of s nm = None \<longleftrightarrow> (\<forall>i. 1 \<le> i \<longrightarrow> i < DEVFS_MAX_INODE \<longrightarrow> devfs_name s i \<noteq> nm)"
  by (auto simp: devfs_slot_of_def find_None_iff simp del: upt_Suc upt.simps)

text \<open>
  A mknod of a proper name: it fails exactly when the name is taken or no node is free, and
  otherwise adds the name to the directory, leaving every other name where it was.
\<close>

lemma devfsMknod_result:
  assumes ok: "devfs_ok s" and nm: "nm \<noteq> []" "0 \<notin> set nm" "length nm < DEVFS_NAME_LEN"
  shows "devfsMknod stk d (length nm + 1) (nm @ [0]) mode uid gid s =
    (if devfs_dir s nm \<noteq> None then Some ([ReplyMsg (- EEXIST) NoBody], s)
     else case devfs_free_slot 1 (drop 1 (devfs_inode_table s)) of
       None \<Rightarrow> Some ([ReplyMsg (- ENOSPC) NoBody], s)
     | Some k \<Rightarrow>
         Some ([ReplyMsg 0 (NodeBody \<lparr>ni_inode_nr = int k, ni_size = 0, ni_mode = mode,
                  ni_uid = uid, ni_gid = gid\<rparr>)],
           devfs_fill k (splice 0 (nm @ [0]) (dn_name (devfs_inode_table s ! k))) mode uid gid s))"
proof -
  let ?nb = "nm @ 0 # drop (length nm + 1) (map stk [0..<256])"
  have rd: "readmsg_into (map stk [0..<256]) (Suc (length nm)) (nm @ [0]) = Some ?nb"
    using readmsg_into_mknod [of nm stk] nm by simp
  have t: "terminated ?nb" and c: "cstr ?nb = nm"
    using nm by (auto simp: terminated_def cstr_append_zero)
  note f = devfs_find_table [OF ok t, unfolded c]
  show ?thesis
  proof (cases "devfs_slot_of s nm")
    case (Some i)
    with rd f nm show ?thesis by (simp add: devfsMknod_def devfs_dir_def)
  next
    case None
    show ?thesis
    proof (cases "devfs_free_slot (Suc 0) (drop (Suc 0) (devfs_inode_table s))")
      case (Some k)
      then have k: "k < DEVFS_MAX_INODE" using devfs_free_slot_table(1) [OF ok] by auto
      have "c_strcpy (dn_name (devfs_inode_table s ! k)) ?nb =
          Some (splice 0 (nm @ [0]) (dn_name (devfs_inode_table s ! k)))"
        using t c nm devfs_okD(3) [OF ok k] by (simp add: c_strcpy_def)
      with rd f None Some nm devfs_okD(2) [OF ok k] show ?thesis
        by (simp add: devfsMknod_def devfs_dir_def devfs_fill_def Let_def)
    qed (use rd f None nm in \<open>simp add: devfsMknod_def devfs_dir_def\<close>)
  qed
qed

lemma devfs_dir_fill:
  assumes ok: "devfs_ok s" and k: "1 \<le> k" "k < DEVFS_MAX_INODE" "devfs_name s k = []"
    and new: "devfs_dir s (cstr nm) = None" "cstr nm \<noteq> []"
    and ok': "devfs_ok (devfs_fill k nm mode uid gid s)"
  shows "devfs_dir (devfs_fill k nm mode uid gid s) = (devfs_dir s)(cstr nm \<mapsto> k)"
proof
  fix x
  let ?s' = "devfs_fill k nm mode uid gid s"
  note names = devfs_fill_name [OF ok k(2)]
  show "devfs_dir ?s' x = ((devfs_dir s)(cstr nm \<mapsto> k)) x"
  proof (cases "x = [] \<or> x = cstr nm")
    case True
    with new devfs_slot_of_unique [OF ok' new(2) k(1,2)] names [OF k(2)] show ?thesis
      by (auto simp: devfs_dir_def)
  next
    case False
    then have "devfs_slot_of ?s' x = devfs_slot_of s x"
      unfolding devfs_slot_of_def using names k(3) by (intro find_cong) auto
    with False show ?thesis by (simp add: devfs_dir_def)
  qed
qed


section \<open>Reading the directory\<close>

text \<open>What a node contributes to a listing, and a call as a scan of the node table.\<close>

definition devfs_slot :: "nat \<Rightarrow> devfs \<Rightarrow> nat \<Rightarrow> dirent option" where
  "devfs_slot dno s i =
     (if i < DEVFS_MAX_INODE \<and> devfs_name s i \<noteq> []
      then Some (devfs_dirent dno (int i) (devfs_inode_table s ! i)) else None)"

definition devfs_scan :: "nat \<Rightarrow> devfs \<Rightarrow> nat \<Rightarrow> nat \<Rightarrow> nat \<times> dirent list" where
  "devfs_scan dno s m c =
     (case devfsReaddir dno (int c) (int m) s of
        Some ([WriteDirents ds _, ReplyMsg _ (ReaddirBody c')], _) \<Rightarrow> (nat c', ds)
      | _ \<Rightarrow> (0, []))"

lemma devfs_readdir_loop_fill:
  assumes ok: "devfs_ok s"
  shows "devfs_readdir_loop dno (devfs_inode_table s) m (int c) sz acc =
    Some (dirent_fill (devfs_slot dno s) DEVFS_MAX_INODE m c sz acc)"
proof (induction "devfs_slot dno s" DEVFS_MAX_INODE m c sz acc rule: dirent_fill.induct)
  case (1 m c sz acc)
  note step = devfs_readdir_loop.simps [of dno "devfs_inode_table s" m "int c" sz acc]
    and fill = dirent_fill.simps [of "devfs_slot dno s" DEVFS_MAX_INODE m c sz acc]
  show ?case
  proof (cases "c < DEVFS_MAX_INODE")
    case c: True
    have len: "c_strlen (dn_name (devfs_inode_table s ! c)) =
        Some (length (cstr (dn_name (devfs_inode_table s ! c))))"
      using devfs_okD(4) [OF ok c] by (simp add: c_strlen_def)
    show ?thesis
    proof (cases "devfs_slot dno s c")
      case None
      with c "1.hyps"(1) devfs_empty_iff [OF ok c] show ?thesis
        by (simp add: step fill devfs_slot_def Let_def add.commute split: if_splits)
    next
      case (Some e)
      with c devfs_empty_iff [OF ok c] have ne: "hd (dn_name (devfs_inode_table s ! c)) \<noteq> 0"
        and e: "e = devfs_dirent dno (int c) (devfs_inode_table s ! c)"
        by (auto simp: devfs_slot_def split: if_splits)
      then have "ALIGN_UP (dno + length (cstr (dn_name (devfs_inode_table s ! c))) + 1) 8 = d_reclen e"
        by (simp add: devfs_dirent_def dirent_reclen_def)
      with c Some "1.hyps"(2) [OF _ Some] ne len e show ?thesis
        by (simp add: step fill Let_def add.commute)
    qed
  qed (simp add: step fill)
qed

lemma devfs_slot_root: "devfs_ok s \<Longrightarrow> devfs_slot dno s 0 = None"
  by (simp add: devfs_slot_def devfs_okD(5))

lemma devfs_scan_spec:
  assumes ok: "devfs_ok s" and c: "c \<le> DEVFS_MAX_INODE" and r: "devfs_scan dno s m c = (c', es)"
  shows "c \<le> c' \<and> c' \<le> DEVFS_MAX_INODE \<and> es = reported (devfs_slot dno s) c c' \<and>
    (c' < DEVFS_MAX_INODE \<longrightarrow> (\<exists>e. devfs_slot dno s c' = Some e \<and>
       min m 4096 < sum_list (map d_reclen es) + d_reclen e))"
proof -
  define b where "b = (if c = 0 then 1 else c)"
  define mm where "mm = int (min m 4096)"
  have m: "(if int m < DEVFS_DIRENTS_BUF_SZ then int m else DEVFS_DIRENTS_BUF_SZ) = mm"
    and b: "(if int c = 0 then 1 else int c) = int b"
    by (auto simp: b_def mm_def)
  have "b \<le> DEVFS_MAX_INODE" using c by (simp add: b_def)
  from dirent_fill_spec [OF this, of "devfs_slot dno s" mm 0 "[]"] devfs_readdir_loop_fill [OF ok, of dno mm b 0 "[]"]
  obtain c2 where loop: "devfs_readdir_loop dno (devfs_inode_table s) mm (int b) 0 [] =
        Some (int c2, dirents_size (reported (devfs_slot dno s) b c2), reported (devfs_slot dno s) b c2)"
    and le: "b \<le> c2" "c2 \<le> DEVFS_MAX_INODE"
    and st: "c2 < DEVFS_MAX_INODE \<longrightarrow> (\<exists>e. devfs_slot dno s c2 = Some e \<and>
         mm < dirents_size (reported (devfs_slot dno s) b c2) + int (d_reclen e))"
    by auto
  have "devfs_scan dno s m c = (c2, reported (devfs_slot dno s) b c2)"
    unfolding devfs_scan_def devfsReaddir_def Let_def m b loop by simp
  with r have eqs: "c' = c2" "es = reported (devfs_slot dno s) b c2" by auto
  have "reported (devfs_slot dno s) c c2 = reported (devfs_slot dno s) b c2"
  proof (cases "c = 0")
    case True
    then have "b = Suc 0" "0 < c2" using le by (auto simp: b_def)
    with True devfs_slot_root [OF ok, of dno] show ?thesis
      by (simp only: reported_step [OF \<open>0 < c2\<close>]) simp
  qed (simp add: b_def)
  moreover have "c \<le> b" by (simp add: b_def)
  ultimately show ?thesis
    using le st unfolding eqs mm_def by auto
qed

interpretation devfs_pages: paged_scan "devfs_scan dno" "devfs_slot dno" "\<lambda>s. DEVFS_MAX_INODE"
    d_reclen 4096 devfs_ok
  for dno
  by unfold_locales (use devfs_scan_spec in blast)+

lemma devfs_dirent_room:
  assumes "devfs_ok s" and "devfs_slot dno s i = Some e" and "ALIGN_UP (dno + 64) 8 \<le> n"
  shows "d_reclen e \<le> n"
proof -
  from assms(2) have i: "i < DEVFS_MAX_INODE" and e: "e = devfs_dirent dno (int i) (devfs_inode_table s ! i)"
    by (auto simp: devfs_slot_def split: if_splits)
  have "length (cstr (dn_name (devfs_inode_table s ! i))) + 1 \<le> 64"
    using terminated_length_cstr [OF devfs_okD(4) [OF assms(1) i]] devfs_okD(3) [OF assms(1) i] by simp
  then have "ALIGN_UP (dno + length (cstr (dn_name (devfs_inode_table s ! i))) + 1) 8
      \<le> ALIGN_UP (dno + 64) 8"
    unfolding ALIGN_UP_def by (intro mult_le_mono1 div_le_mono) simp
  with assms(3) e show ?thesis by (simp add: devfs_dirent_def dirent_reclen_def)
qed

section \<open>Properties\<close>

text \<open>C3. Every state the devfs event loop can reach, whatever requests it served, has a
  well-formed node table: 128 nodes numbered by position, every name terminated inside its
  64 bytes, the root unnamed, and no two nodes with the same name.\<close>

theorem devfs_reachable_wf: "devfs_reachable s \<Longrightarrow> devfs_ok s"
  by (rule devfs_reachable_ok)

theorem devfs_reachable_wf_witness: "devfs_ok (snd (init_devfs devfs_zero))"
  by (rule devfs_reachable_wf [OF dev_init])



text \<open>A concrete state: one node, named a, in slot 1.\<close>

definition devfs_one :: devfs where
  "devfs_one = devfs_fill 1 (97 # replicate 63 0) 0x21B6 0 0 (snd (init_devfs devfs_zero))"

lemma devfs_init_name: "i < DEVFS_MAX_INODE \<Longrightarrow> devfs_name (snd (init_devfs devfs_zero)) i = []"
  by (simp add: devfs_name_def init_devfs_def init_devfs_node_def devfs_zero_def)

lemma devfs_init_dir: "devfs_dir (snd (init_devfs devfs_zero)) nm = None"
  by (simp add: devfs_dir_def devfs_slot_of_def find_None_iff devfs_init_name)

lemma devfs_one_ok: "devfs_ok devfs_one"
  unfolding devfs_one_def
  by (rule devfs_fill_ok [OF devfs_ok_init])
    (auto simp: devfs_init_name cstr_def terminated_def)


text \<open>C5. Paging through a well-formed directory from offset 0, with a buffer that holds any one
  record, ends and reports every node in use exactly once, in table order.\<close>

theorem devfs_readdir_complete:
  assumes "devfs_ok s" and "ALIGN_UP (dno + 64) 8 \<le> min m 4096"
  shows "read_all (devfs_scan dno s m) 129 0 =
    Some (List.map_filter (devfs_slot dno s) [0..<DEVFS_MAX_INODE])"
  using devfs_pages.read_all_complete [OF assms(1), of dno m 0 129]
    devfs_dirent_room [OF assms(1) _ assms(2)]
  unfolding reported_def by simp

theorem devfs_readdir_complete_witness:
  "read_all (devfs_scan 19 devfs_one 96) 129 0 =
    Some (List.map_filter (devfs_slot 19 devfs_one) [0..<DEVFS_MAX_INODE])"
  by (rule devfs_readdir_complete [OF devfs_one_ok]) (simp add: ALIGN_UP_def)

text \<open>C6. The copy of a new name into its node is not checked: in a well-formed state with a node
  free, a mknod of a fresh name of 64 to 255 bytes runs over the 64-byte name of the node (the
  call has no defined result).\<close>

theorem devfs_mknod_overruns:
  assumes ok: "devfs_ok s" and nm: "0 \<notin> set nm" "DEVFS_NAME_LEN \<le> length nm" "length nm < 256"
    and room: "1 \<le> i" "i < DEVFS_MAX_INODE" "devfs_name s i = []"
  shows "devfsMknod stk d (length nm + 1) (nm @ [0]) mode uid gid s = None"
proof -
  let ?nb = "nm @ 0 # drop (length nm + 1) (map stk [0..<256])"
  have rd: "readmsg_into (map stk [0..<256]) (Suc (length nm)) (nm @ [0]) = Some ?nb"
    using readmsg_into_mknod [OF nm(3), of stk] by simp
  have t: "terminated ?nb" and c: "cstr ?nb = nm"
    using nm by (auto simp: terminated_def cstr_append_zero)
  have "length (devfs_name s j) < DEVFS_NAME_LEN" if "j < DEVFS_MAX_INODE" for j
    using terminated_length_cstr [OF devfs_okD(4) [OF ok that]] devfs_okD(3) [OF ok that]
    by (simp add: devfs_name_def)
  then have new: "devfs_slot_of s nm = None"
    using nm(2) by (fastforce simp: devfs_slot_of_empty_iff)
  obtain k where k: "devfs_free_slot (Suc 0) (drop (Suc 0) (devfs_inode_table s)) = Some k"
    using devfs_free_slot_table(2) [OF ok] room
    by (cases "devfs_free_slot 1 (drop (Suc 0) (devfs_inode_table s))") auto
  then have "k < DEVFS_MAX_INODE" using devfs_free_slot_table(1) [OF ok, of k] by simp
  then have "c_strcpy (dn_name (devfs_inode_table s ! k)) ?nb = None"
    using c nm(2) devfs_okD(3) [OF ok] by (simp add: c_strcpy_def)
  with rd k devfs_find_table [OF ok t, unfolded c] new show ?thesis
    by (simp add: devfsMknod_def Let_def)
qed

theorem devfs_mknod_overruns_witness:
  "devfsMknod (\<lambda>_. 0) 0 (length (replicate 70 (98::byte)) + 1) (replicate 70 98 @ [0]) 0x21B6 0 0
     (snd (init_devfs devfs_zero)) = None"
  by (rule devfs_mknod_overruns [OF devfs_ok_init, where i = 1]) (auto simp: devfs_init_name)

end
