(* ===== verification/Ifs.thy ===== *)
theory Ifs
  imports Ipc
begin

text \<open>
  The initial file system, src/ifs: a read-only image in memory. The state is the image, a byte
  buffer; the header and the nodes of \<open>ifs.h\<close> are read from it at their offsets (in the host's
  byte order, little-endian here, as mkifs writes them), so that an access outside the image has
  no result.
\<close>

section \<open>The image\<close>

abbreviation (input) IFS_DIRENTS_BUF_SZ :: int where "IFS_DIRENTS_BUF_SZ \<equiv> 4096"

text \<open>\<open>sizeof(struct IFSNode)\<close>, packed.\<close>

abbreviation (input) IFS_NODE_SZ :: nat where "IFS_NODE_SZ \<equiv> 60"

record IFSHeader =
  magic :: bytes
  node_table_offset :: u32
  node_cnt :: int
  ifs_size :: u32

record IFSNode =
  ifs_name :: bytes
  inode_nr :: int
  parent_inode_nr :: int
  permissions :: u32
  ifs_uid :: int
  ifs_gid :: int
  file_offset :: u32
  file_size :: u32

definition ifs_header :: "bytes \<Rightarrow> IFSHeader option" where
  "ifs_header img = do {
     nto \<leftarrow> ld32 False img 4;
     cnt \<leftarrow> ld32 False img 8;
     sz \<leftarrow> ld32 False img 12;
     Some \<lparr>magic = slice 0 4 img, node_table_offset = nto, node_cnt = sint cnt, ifs_size = sz\<rparr>
   }"

text \<open>
  \<open>&ifs_inode_table[k]\<close>, read whole. The name is given as the bytes from its start to the end of
  the image, since the string functions do not know that the field has 32 bytes.
\<close>

definition ifs_node :: "bytes \<Rightarrow> int \<Rightarrow> IFSNode option" where
  "ifs_node img k = do {
     h \<leftarrow> ifs_header img;
     let a = uint (node_table_offset h) + int IFS_NODE_SZ * k;
     if a < 0 then None else do {
       let p = nat a;
       ino \<leftarrow> ld32 False img (p + 32);
       par \<leftarrow> ld32 False img (p + 36);
       perm \<leftarrow> ld32 False img (p + 40);
       u \<leftarrow> ld32 False img (p + 44);
       g \<leftarrow> ld32 False img (p + 48);
       off \<leftarrow> ld32 False img (p + 52);
       sz \<leftarrow> ld32 False img (p + 56);
       Some \<lparr>ifs_name = drop p img, inode_nr = sint ino, parent_inode_nr = sint par,
             permissions = perm, ifs_uid = sint u, ifs_gid = sint g,
             file_offset = off, file_size = sz\<rparr>
     }
   }"


section \<open>Operations\<close>

text \<open>
  \<open>init_ifs\<close>: \<open>argc\<close> is checked, the image is mapped (\<open>mmap\<close>'s result is an argument, None when
  it fails), the magic is checked and the root is mounted (the results of \<open>createmsgport\<close> and
  \<open>kqueue\<close>). None is the exit of the process.
\<close>

definition mount_root :: "int \<Rightarrow> int \<Rightarrow> (int \<times> int) option" where
  "mount_root port kq =
     (if port < 0 then None else if kq < 0 then None else Some (port, kq))"

definition init_ifs :: "int \<Rightarrow> bytes option \<Rightarrow> int \<Rightarrow> int \<Rightarrow> bytes option" where
  "init_ifs argc mapped port kq =
     (if argc < 3 then None
      else (case mapped of
          None \<Rightarrow> None
        | Some img \<Rightarrow> do {
            h \<leftarrow> ifs_header img;
            if magic h ! 0 \<noteq> 0x4D \<or> magic h ! 1 \<noteq> 0x41 \<or> magic h ! 2 \<noteq> 0x47 \<or> magic h ! 3 \<noteq> 0x43
            then None
            else do { (portid, kqid) \<leftarrow> mount_root port kq; Some img }
          }))"

text \<open>The search loop of \<open>ifs_lookup\<close>, from index \<open>i\<close>.\<close>

function ifs_find :: "bytes \<Rightarrow> int \<Rightarrow> int \<Rightarrow> bytes \<Rightarrow> int \<Rightarrow> IFSNode option option" where
  "ifs_find img cnt dir_nr name i =
     (if i < cnt then do {
        node \<leftarrow> ifs_node img i;
        dirnode \<leftarrow> ifs_node img dir_nr;
        if parent_inode_nr node \<noteq> inode_nr dirnode then ifs_find img cnt dir_nr name (i + 1)
        else do {
          eq \<leftarrow> c_streq (ifs_name node) name;
          if eq then Some (Some node) else ifs_find img cnt dir_nr name (i + 1)
        }
      } else Some None)"
  by pat_completeness auto
termination
  by (relation "measure (\<lambda>(img, cnt, dir_nr, name, i). nat (cnt - i))") auto

declare ifs_find.simps [simp del]

definition ifs_lookup ::
    "(nat \<Rightarrow> byte) \<Rightarrow> int \<Rightarrow> nat \<Rightarrow> bytes \<Rightarrow> bytes \<Rightarrow> ipc_out list option" where
  "ifs_lookup stk dir_inode_nr name_sz payload img = do {
     buf \<leftarrow> readmsg_into (map stk [0..<256]) name_sz payload;
     let name = buf[255 := 0];
     h \<leftarrow> ifs_header img;
     found \<leftarrow> ifs_find img (node_cnt h) dir_inode_nr name 0;
     (case found of
        Some node \<Rightarrow>
          Some [ReplyMsg 0 (NodeBody
            \<lparr>ni_inode_nr = inode_nr node, ni_size = uint (file_size node),
             ni_mode = or S_IRWXUGO (and S_IFMT (permissions node)), ni_uid = 0, ni_gid = 0\<rparr>)]
      | None \<Rightarrow> Some [ReplyMsg (- ENOENT) ZeroBody])
   }"

definition ifs_close :: "ipc_out list option" where
  "ifs_close = Some [ReplyMsg 0 NoBody]"

text \<open>
  \<open>ifs_read\<close>: \<open>offset\<close> is a 64-bit file offset and \<open>count\<close> a 32-bit size. \<open>remaining\<close> is a
  \<open>size_t\<close>, so the subtraction wraps; the number of bytes is a signed 32-bit integer. \<open>wm\<close> is
  what \<open>writemsg\<close> returns for a size.
\<close>

definition ifs_read ::
    "(nat \<Rightarrow> int) \<Rightarrow> int \<Rightarrow> 64 word \<Rightarrow> u32 \<Rightarrow> bytes \<Rightarrow> ipc_out list option" where
  "ifs_read wm inode offset count img = do {
     rnode \<leftarrow> ifs_node img inode;
     let src = uint (file_offset rnode) + sint offset;
     let remaining = file_size rnode - ucast offset;
     let nbytes_read = (if count < remaining then count else remaining);
     if 1 \<le> sint nbytes_read then
       (if src < 0 \<or> int (length img) < src + uint nbytes_read then None
        else Some [WriteBytes (slice (nat src) (unat nbytes_read) img) 0,
                   ReplyMsg (wm (unat nbytes_read)) NoBody])
     else Some [ReplyMsg (sint nbytes_read) NoBody]
   }"

definition ifs_write :: "ipc_out list option" where
  "ifs_write = Some [ReplyMsg (- EPERM) NoBody]"

definition ifs_dirent :: "nat \<Rightarrow> int \<Rightarrow> IFSNode \<Rightarrow> nat \<Rightarrow> dirent" where
  "ifs_dirent dno cookie node len =
     \<lparr>d_name = take len (ifs_name node), d_ino = inode_nr node, d_cookie = cookie,
      d_reclen = ALIGN_UP (dno + len + 1) 8\<rparr>"

function ifs_readdir_loop ::
    "nat \<Rightarrow> bytes \<Rightarrow> int \<Rightarrow> int \<Rightarrow> int \<Rightarrow> int \<Rightarrow> int \<Rightarrow> dirent list \<Rightarrow> (int \<times> int \<times> dirent list) option" where
  "ifs_readdir_loop dno img cnt dir max_sz cookie sz acc =
     (if cookie < 0 \<or> cnt \<le> cookie then Some (cookie, sz, acc)
      else (case ifs_node img cookie of
          None \<Rightarrow> None
        | Some node \<Rightarrow>
            if hd (ifs_name node) \<noteq> 0 \<and> parent_inode_nr node = dir then
              (case c_strlen (ifs_name node) of
                 None \<Rightarrow> None
               | Some len \<Rightarrow>
                   let d = ifs_dirent dno cookie node len in
                   if sz + int (d_reclen d) \<le> max_sz
                   then ifs_readdir_loop dno img cnt dir max_sz (cookie + 1) (sz + int (d_reclen d))
                          (acc @ [d])
                   else Some (cookie, sz, acc))
            else ifs_readdir_loop dno img cnt dir max_sz (cookie + 1) sz acc))"
  by pat_completeness auto
termination
  by (relation "measure (\<lambda>(dno, img, cnt, dir, max_sz, cookie, sz, acc). nat (cnt - cookie))") auto

declare ifs_readdir_loop.simps [simp del]

definition ifs_readdir :: "nat \<Rightarrow> int \<Rightarrow> int \<Rightarrow> int \<Rightarrow> bytes \<Rightarrow> ipc_out list option" where
  "ifs_readdir dno dir offset req_sz img = do {
     h \<leftarrow> ifs_header img;
     let max_reply_sz = (if req_sz < IFS_DIRENTS_BUF_SZ then req_sz else IFS_DIRENTS_BUF_SZ);
     (cookie, sz, ds) \<leftarrow> ifs_readdir_loop dno img (node_cnt h) dir max_reply_sz offset 0 [];
     Some [WriteDirents ds sz, ReplyMsg sz (ReaddirBody cookie)]
   }"

text \<open>The dispatch of \<open>ifs_message_loop\<close>. The image never changes.\<close>

datatype ifs_req =
    IfsLookup int nat bytes
  | IfsClose
  | IfsRead int "64 word" u32
  | IfsWrite
  | IfsReaddir int int int
  | IfsOther

fun ifs_step :: "(nat \<Rightarrow> byte) \<Rightarrow> (nat \<Rightarrow> int) \<Rightarrow> nat \<Rightarrow> ifs_req \<Rightarrow> bytes \<Rightarrow> ipc_out list option" where
  "ifs_step stk wm dno (IfsLookup d n p) img = ifs_lookup stk d n p img"
| "ifs_step stk wm dno IfsClose img = ifs_close"
| "ifs_step stk wm dno (IfsRead i off n) img = ifs_read wm i off n img"
| "ifs_step stk wm dno IfsWrite img = ifs_write"
| "ifs_step stk wm dno (IfsReaddir d off sz) img = ifs_readdir dno d off sz img"
| "ifs_step stk wm dno IfsOther img = Some [ReplyMsg (- ENOTSUP) NoBody]"


section \<open>Well-formed images\<close>

text \<open>
  The header is readable and the count not negative, and every node of the table lies in the
  image, carries its own index as inode number, has a name terminated inside its 32 bytes and a
  file that lies in the image.
\<close>

definition ifs_node_ok :: "bytes \<Rightarrow> nat \<Rightarrow> bool" where
  "ifs_node_ok img i =
     (case ifs_node img (int i) of
        None \<Rightarrow> False
      | Some nd \<Rightarrow> inode_nr nd = int i \<and> terminated (take 32 (ifs_name nd)) \<and>
          unat (file_offset nd) + unat (file_size nd) \<le> length img)"

definition ifs_image_ok :: "bytes \<Rightarrow> bool" where
  "ifs_image_ok img =
     (case ifs_header img of
        None \<Rightarrow> False
      | Some h \<Rightarrow> 0 \<le> node_cnt h \<and> list_all (ifs_node_ok img) [0..<nat (node_cnt h)])"

definition ifs_cnt :: "bytes \<Rightarrow> nat" where
  "ifs_cnt img = nat (node_cnt (the (ifs_header img)))"

definition ifs_nd :: "bytes \<Rightarrow> nat \<Rightarrow> IFSNode" where
  "ifs_nd img i = the (ifs_node img (int i))"

lemma ifs_image_okD:
  assumes "ifs_image_ok img"
  shows "\<exists>h. ifs_header img = Some h \<and> node_cnt h = int (ifs_cnt img)"
    and "i < ifs_cnt img \<Longrightarrow> ifs_node img (int i) = Some (ifs_nd img i)"
    and "i < ifs_cnt img \<Longrightarrow> inode_nr (ifs_nd img i) = int i"
    and "i < ifs_cnt img \<Longrightarrow> terminated (ifs_name (ifs_nd img i))"
    and "i < ifs_cnt img \<Longrightarrow> length (cstr (ifs_name (ifs_nd img i))) < 32"
    and "i < ifs_cnt img \<Longrightarrow>
      unat (file_offset (ifs_nd img i)) + unat (file_size (ifs_nd img i)) \<le> length img"
proof -
  from assms obtain h where h: "ifs_header img = Some h" "0 \<le> node_cnt h"
    and nodes: "\<And>i. i < nat (node_cnt h) \<Longrightarrow> ifs_node_ok img i"
    by (auto simp: ifs_image_ok_def list_all_iff split: option.splits)
  then show "\<exists>h. ifs_header img = Some h \<and> node_cnt h = int (ifs_cnt img)"
    by (simp add: ifs_cnt_def)
  have cnt: "ifs_cnt img = nat (node_cnt h)" using h by (simp add: ifs_cnt_def)
  have ok: "ifs_node img (int i) = Some (ifs_nd img i) \<and> inode_nr (ifs_nd img i) = int i \<and>
      terminated (take 32 (ifs_name (ifs_nd img i))) \<and>
      unat (file_offset (ifs_nd img i)) + unat (file_size (ifs_nd img i)) \<le> length img"
    if "i < ifs_cnt img"
    using nodes [of i] that cnt by (auto simp: ifs_node_ok_def ifs_nd_def split: option.splits)
  show "terminated (ifs_name (ifs_nd img i))" if "i < ifs_cnt img"
    using ok [OF that] by (auto simp: terminated_def dest: in_set_takeD)
  show "length (cstr (ifs_name (ifs_nd img i))) < 32" if "i < ifs_cnt img"
  proof -
    have t: "terminated (take 32 (ifs_name (ifs_nd img i)))" using ok [OF that] by simp
    from terminated_length_cstr [OF t] show ?thesis by (simp add: cstr_take [OF t])
  qed
qed (use assms in \<open>auto simp: ifs_image_ok_def ifs_node_ok_def ifs_nd_def ifs_cnt_def list_all_iff
       split: option.splits\<close>)

section \<open>Lookup\<close>

text \<open>The node with a name below a directory, by index.\<close>

definition ifs_child :: "bytes \<Rightarrow> int \<Rightarrow> bytes \<Rightarrow> nat option" where
  "ifs_child img dir nm =
     find (\<lambda>i. parent_inode_nr (ifs_nd img i) = dir \<and> cstr (ifs_name (ifs_nd img i)) = nm)
       [0..<ifs_cnt img]"

lemma ifs_find_spec:
  assumes ok: "ifs_image_ok img" and dir: "dir < ifs_cnt img" and nm: "terminated name"
  shows "i \<le> ifs_cnt img \<Longrightarrow> ifs_find img (int (ifs_cnt img)) (int dir) name (int i) =
    Some (map_option (ifs_nd img)
      (find (\<lambda>i. parent_inode_nr (ifs_nd img i) = int dir \<and> cstr (ifs_name (ifs_nd img i)) = cstr name)
        [i..<ifs_cnt img]))"
proof (induction "ifs_cnt img - i" arbitrary: i)
  case 0
  then show ?case by (simp add: ifs_find.simps)
next
  case (Suc k)
  then have i: "i < ifs_cnt img" and IH: "k = ifs_cnt img - Suc i" "Suc i \<le> ifs_cnt img" by auto
  have "int i + 1 = int (Suc i)" by simp
  with i Suc.hyps(1) [OF IH] ifs_image_okD(2-4) [OF ok i] ifs_image_okD(2,3) [OF ok dir] nm
  show ?case
    by (simp add: ifs_find.simps [of img _ _ name "int i"] c_streq_terminated upt_conv_Cons
          add.commute)
qed

lemma readmsg_into_name:
  assumes "length nm < 256" and "0 \<notin> set nm"
  shows "\<exists>buf. readmsg_into (map stk [0..<256]) (length nm + 1) (nm @ [0]) = Some buf
     \<and> terminated (buf[255 := 0]) \<and> cstr (buf[255 := 0]) = nm"
proof -
  let ?rest = "drop (length nm + 1) (map stk [0..<256])"
  have rd: "readmsg_into (map stk [0..<256]) (length nm + 1) (nm @ [0]) = Some (nm @ 0 # ?rest)"
    using assms by (simp add: readmsg_into_def splice_def)
  have "\<exists>rest'. (nm @ 0 # ?rest)[255 := 0] = nm @ 0 # rest'"
    using assms(1) by (cases "255 - length nm") (auto simp: list_update_append)
  then have "cstr ((nm @ 0 # ?rest)[255 := 0]) = nm" "terminated ((nm @ 0 # ?rest)[255 := 0])"
    using assms(2) by (auto simp: cstr_append_zero terminated_def)
  with rd show ?thesis by blast
qed

definition ifs_node_reply :: "bytes \<Rightarrow> nat \<Rightarrow> node_info" where
  "ifs_node_reply img i =
     \<lparr>ni_inode_nr = int i, ni_size = uint (file_size (ifs_nd img i)),
      ni_mode = or S_IRWXUGO (and S_IFMT (permissions (ifs_nd img i))), ni_uid = 0, ni_gid = 0\<rparr>"

lemma ifs_lookup_result:
  assumes ok: "ifs_image_ok img" and dir: "dir < ifs_cnt img"
    and nm: "length nm < 256" "0 \<notin> set nm"
  shows "ifs_lookup stk (int dir) (length nm + 1) (nm @ [0]) img =
    Some [case ifs_child img (int dir) nm of
            Some i \<Rightarrow> ReplyMsg 0 (NodeBody (ifs_node_reply img i))
          | None \<Rightarrow> ReplyMsg (- ENOENT) ZeroBody]"
proof -
  obtain buf where buf: "readmsg_into (map stk [0..<256]) (length nm + 1) (nm @ [0]) = Some buf"
    and t: "terminated (buf[255 := 0])" and c: "cstr (buf[255 := 0]) = nm"
    using readmsg_into_name [OF nm] by blast
  obtain h where h: "ifs_header img = Some h" "node_cnt h = int (ifs_cnt img)"
    using ifs_image_okD(1) [OF ok] by blast
  have "ifs_find img (node_cnt h) (int dir) (buf[255 := 0]) 0 =
      Some (map_option (ifs_nd img) (ifs_child img (int dir) nm))"
    using ifs_find_spec [OF ok dir t, of 0] h c by (simp add: ifs_child_def)
  moreover have "i < ifs_cnt img" if "ifs_child img (int dir) nm = Some i" for i
    using that by (auto simp: ifs_child_def find_Some_iff)
  ultimately show ?thesis
    using buf h ifs_image_okD(3) [OF ok]
    by (cases "ifs_child img (int dir) nm") (auto simp: ifs_lookup_def ifs_node_reply_def)
qed


section \<open>Reading a directory\<close>

definition ifs_slot :: "nat \<Rightarrow> int \<Rightarrow> bytes \<Rightarrow> nat \<Rightarrow> dirent option" where
  "ifs_slot dno dir img i =
     (if i < ifs_cnt img \<and> cstr (ifs_name (ifs_nd img i)) \<noteq> [] \<and> parent_inode_nr (ifs_nd img i) = dir
      then Some (ifs_dirent dno (int i) (ifs_nd img i) (length (cstr (ifs_name (ifs_nd img i)))))
      else None)"

definition ifs_scan :: "nat \<Rightarrow> int \<Rightarrow> bytes \<Rightarrow> nat \<Rightarrow> nat \<Rightarrow> nat \<times> dirent list" where
  "ifs_scan dno dir img m c =
     (case ifs_readdir dno dir (int c) (int m) img of
        Some [WriteDirents ds _, ReplyMsg _ (ReaddirBody c')] \<Rightarrow> (nat c', ds)
      | _ \<Rightarrow> (0, []))"

lemma ifs_readdir_loop_fill:
  assumes ok: "ifs_image_ok img"
  shows "ifs_readdir_loop dno img (int (ifs_cnt img)) dir m (int c) sz acc =
    Some (dirent_fill (ifs_slot dno dir img) (ifs_cnt img) m c sz acc)"
proof (induction "ifs_slot dno dir img" "ifs_cnt img" m c sz acc rule: dirent_fill.induct)
  case (1 m c sz acc)
  note step = ifs_readdir_loop.simps [of dno img "int (ifs_cnt img)" dir m "int c" sz acc]
    and fill = dirent_fill.simps [of "ifs_slot dno dir img" "ifs_cnt img" m c sz acc]
  show ?case
  proof (cases "c < ifs_cnt img")
    case c: True
    note nd = ifs_image_okD(2-4) [OF ok c]
    have len: "c_strlen (ifs_name (ifs_nd img c)) = Some (length (cstr (ifs_name (ifs_nd img c))))"
      using nd(3) by (simp add: c_strlen_def)
    note ne = cstr_eq_Nil_iff [OF nd(3)]
    show ?thesis
    proof (cases "ifs_slot dno dir img c")
      case None
      with c "1.hyps"(1) ne nd show ?thesis
        by (auto simp: step fill ifs_slot_def Let_def add.commute split: if_splits)
    next
      case (Some e)
      with c ne have "hd (ifs_name (ifs_nd img c)) \<noteq> 0" "parent_inode_nr (ifs_nd img c) = dir"
        "e = ifs_dirent dno (int c) (ifs_nd img c) (length (cstr (ifs_name (ifs_nd img c))))"
        by (auto simp: ifs_slot_def split: if_splits)
      with c Some "1.hyps"(2) [OF _ Some] nd len show ?thesis
        by (simp add: step fill Let_def add.commute)
    qed
  qed (simp add: step fill)
qed

lemma ifs_scan_spec:
  assumes ok: "ifs_image_ok img" and c: "c \<le> ifs_cnt img"
    and r: "ifs_scan dno dir img m c = (c', es)"
  shows "c \<le> c' \<and> c' \<le> ifs_cnt img \<and> es = reported (ifs_slot dno dir img) c c' \<and>
    (c' < ifs_cnt img \<longrightarrow> (\<exists>e. ifs_slot dno dir img c' = Some e \<and>
       min m 4096 < sum_list (map d_reclen es) + d_reclen e))"
proof -
  define mm where "mm = int (min m 4096)"
  have m: "(if int m < IFS_DIRENTS_BUF_SZ then int m else IFS_DIRENTS_BUF_SZ) = mm"
    by (simp add: mm_def)
  obtain h where h: "ifs_header img = Some h" "node_cnt h = int (ifs_cnt img)"
    using ifs_image_okD(1) [OF ok] by blast
  from dirent_fill_spec [OF c, of "ifs_slot dno dir img" mm 0 "[]"]
    ifs_readdir_loop_fill [OF ok, of dno dir mm c 0 "[]"]
  obtain c2 where loop: "ifs_readdir_loop dno img (node_cnt h) dir mm (int c) 0 [] =
        Some (int c2, dirents_size (reported (ifs_slot dno dir img) c c2),
              reported (ifs_slot dno dir img) c c2)"
    and le: "c \<le> c2" "c2 \<le> ifs_cnt img"
    and st: "c2 < ifs_cnt img \<longrightarrow> (\<exists>e. ifs_slot dno dir img c2 = Some e \<and>
         mm < dirents_size (reported (ifs_slot dno dir img) c c2) + int (d_reclen e))"
    using h by auto
  have "ifs_scan dno dir img m c = (c2, reported (ifs_slot dno dir img) c c2)"
    unfolding ifs_scan_def ifs_readdir_def Let_def m by (simp add: h(1) loop)
  with r have eqs: "c' = c2" "es = reported (ifs_slot dno dir img) c c2" by auto
  show ?thesis
    using le st unfolding eqs mm_def by auto
qed

interpretation ifs_pages: paged_scan "ifs_scan dno dir" "ifs_slot dno dir" ifs_cnt d_reclen 4096
    ifs_image_ok
  for dno dir
  by unfold_locales (use ifs_scan_spec in blast)+

lemma ifs_dirent_room:
  assumes "ifs_image_ok img" and "ifs_slot dno dir img i = Some e" and "ALIGN_UP (dno + 32) 8 \<le> n"
  shows "d_reclen e \<le> n"
proof -
  from assms(2) have i: "i < ifs_cnt img"
    and e: "e = ifs_dirent dno (int i) (ifs_nd img i) (length (cstr (ifs_name (ifs_nd img i))))"
    by (auto simp: ifs_slot_def split: if_splits)
  have "ALIGN_UP (dno + length (cstr (ifs_name (ifs_nd img i))) + 1) 8 \<le> ALIGN_UP (dno + 32) 8"
    unfolding ALIGN_UP_def using ifs_image_okD(5) [OF assms(1) i]
    by (intro mult_le_mono1 div_le_mono) simp
  with assms(3) e show ?thesis by (simp add: ifs_dirent_def)
qed


section \<open>Reading a file\<close>

lemma ifs_read_at:
  assumes node: "ifs_node img k = Some nd"
    and rem: "unat (file_size nd - ucast offset) = r"
    and pos: "sint offset = int off" and n: "n = min (unat count) r" "n < 2147483648"
    and inside: "0 < n \<Longrightarrow> unat (file_offset nd) + off + n \<le> length img"
  shows "ifs_read wm k offset count img =
    Some (if n = 0 then [ReplyMsg 0 NoBody]
          else [WriteBytes (slice (unat (file_offset nd) + off) n img) 0, ReplyMsg (wm n) NoBody])"
proof -
  define nb where "nb = (if count < file_size nd - ucast offset then count
                         else file_size nd - ucast offset)"
  have nb: "unat nb = n" using rem n(1) by (auto simp: nb_def word_less_nat_alt)
  then have s: "sint nb = int n" using n(2) by (simp add: sint_small)
  have u: "uint nb = int n" using nb by (metis uint_nat)
  define a where "a = unat (file_offset nd) + off"
  have p: "uint (file_offset nd) + sint offset = int a"
    by (simp add: pos a_def)
  show ?thesis
    unfolding ifs_read_def Let_def node bind.bind_lunit nb_def [symmetric] p s u nb
    using inside unfolding a_def [symmetric] by auto
qed

lemma ucast_offset: "off < 4294967296 \<Longrightarrow> unat (ucast (word_of_nat off :: 64 word) :: u32) = off"
  by (simp add: unsigned_ucast_eq unsigned_of_nat take_bit_eq_mod)

lemma sint_offset: "off < 4294967296 \<Longrightarrow> sint (word_of_nat off :: 64 word) = int off"
  by (subst sint64_small) (simp_all add: unsigned_of_nat take_bit_eq_mod)

section \<open>Properties\<close>

text \<open>A concrete image: a root directory and one file, named a, of three bytes; \<open>rest\<close> is
  whatever follows the file.\<close>

definition ifs_demo :: "bytes \<Rightarrow> bytes" where
  "ifs_demo rest =
     [0x4D, 0x41, 0x47, 0x43,  16, 0, 0, 0,  2, 0, 0, 0,  139, 0, 0, 0]
     @ replicate 32 0 @ [0, 0, 0, 0,  255, 255, 255, 255,  0xFF, 0x41, 0, 0,  0, 0, 0, 0,
                         0, 0, 0, 0,  0, 0, 0, 0,  0, 0, 0, 0]
     @ [97] @ replicate 31 0 @ [1, 0, 0, 0,  0, 0, 0, 0,  0xFF, 0x81, 0, 0,  0, 0, 0, 0,
                         0, 0, 0, 0,  136, 0, 0, 0,  3, 0, 0, 0]
     @ [120, 121, 122] @ rest"

lemma length_ifs_demo [simp]: "length (ifs_demo rest) = 139 + length rest"
  by (simp add: ifs_demo_def)

lemma ifs_demo_header: "ifs_header (ifs_demo rest) =
    Some \<lparr>magic = [0x4D, 0x41, 0x47, 0x43], node_table_offset = 16, node_cnt = 2, ifs_size = 139\<rparr>"
  by (simp add: ifs_header_def ld32_def dec32_def ifs_demo_def slice_def)

lemma ifs_demo_node0: "ifs_node (ifs_demo rest) 0 =
    Some \<lparr>ifs_name = drop 16 (ifs_demo rest), inode_nr = 0, parent_inode_nr = - 1,
          permissions = 0x41FF, ifs_uid = 0, ifs_gid = 0, file_offset = 0, file_size = 0\<rparr>"
  by (simp add: ifs_node_def ifs_demo_header)
    (simp add: ifs_demo_def ld32_def dec32_def nth_append)

lemma ifs_demo_node1: "ifs_node (ifs_demo rest) 1 =
    Some \<lparr>ifs_name = drop 76 (ifs_demo rest), inode_nr = 1, parent_inode_nr = 0,
          permissions = 0x81FF, ifs_uid = 0, ifs_gid = 0, file_offset = 136, file_size = 3\<rparr>"
  by (simp add: ifs_node_def ifs_demo_header)
    (simp add: ifs_demo_def ld32_def dec32_def nth_append)

lemma ifs_demo_cnt [simp]: "ifs_cnt (ifs_demo rest) = 2"
  by (simp add: ifs_cnt_def ifs_demo_header)

lemma ifs_demo_ok: "ifs_image_ok (ifs_demo rest)"
proof -
  have "terminated (take 32 (drop 16 (ifs_demo rest)))" "terminated (take 32 (drop 76 (ifs_demo rest)))"
    by (simp_all add: ifs_demo_def terminated_def)
  then show ?thesis
    using ifs_demo_node0 [of rest] ifs_demo_node1 [of rest]
    by (simp add: ifs_image_ok_def ifs_demo_header ifs_node_ok_def upt_rec [of 0] upt_rec [of "Suc 0"])
qed

text \<open>C7. On a well-formed image a lookup in a directory finds the first node of the table whose
  parent is that directory and whose name is the one asked for, and replies with its inode
  number, size and type bits; if there is none it replies ENOENT.\<close>

theorem ifs_lookup_finds_child:
  assumes "ifs_image_ok img" and "dir < ifs_cnt img" and "length nm < 256" "0 \<notin> set nm"
  shows "ifs_lookup stk (int dir) (length nm + 1) (nm @ [0]) img =
    Some [case find (\<lambda>i. parent_inode_nr (ifs_nd img i) = int dir \<and>
                        cstr (ifs_name (ifs_nd img i)) = nm) [0..<ifs_cnt img] of
            Some i \<Rightarrow> ReplyMsg 0 (NodeBody (ifs_node_reply img i))
          | None \<Rightarrow> ReplyMsg (- ENOENT) ZeroBody]"
  using ifs_lookup_result [OF assms] by (simp add: ifs_child_def)

theorem ifs_lookup_finds_child_witness:
  "ifs_lookup (\<lambda>_. 0) (int 0) (length [97::byte] + 1) ([97] @ [0]) (ifs_demo []) =
    Some [case find (\<lambda>i. parent_inode_nr (ifs_nd (ifs_demo []) i) = int 0 \<and>
                        cstr (ifs_name (ifs_nd (ifs_demo []) i)) = [97]) [0..<ifs_cnt (ifs_demo [])] of
            Some i \<Rightarrow> ReplyMsg 0 (NodeBody (ifs_node_reply (ifs_demo []) i))
          | None \<Rightarrow> ReplyMsg (- ENOENT) ZeroBody]"
  by (rule ifs_lookup_finds_child [OF ifs_demo_ok]) simp_all

text \<open>C8. Paging through a directory of a well-formed image from offset 0, with a buffer that
  holds any one record, ends and reports exactly the named children of the directory, once each
  and in table order.\<close>

theorem ifs_readdir_complete:
  assumes "ifs_image_ok img" and "ALIGN_UP (dno + 32) 8 \<le> min m 4096"
  shows "read_all (ifs_scan dno dir img m) (ifs_cnt img + 1) 0 =
    Some (List.map_filter (ifs_slot dno dir img) [0..<ifs_cnt img])"
  using ifs_pages.read_all_complete [OF assms(1), of dno dir m 0 "ifs_cnt img + 1"]
    ifs_dirent_room [OF assms(1) _ assms(2)]
  unfolding reported_def by simp

theorem ifs_readdir_complete_witness:
  "read_all (ifs_scan 19 0 (ifs_demo []) 512) (ifs_cnt (ifs_demo []) + 1) 0 =
    Some (List.map_filter (ifs_slot 19 0 (ifs_demo [])) [0..<ifs_cnt (ifs_demo [])])"
  by (rule ifs_readdir_complete [OF ifs_demo_ok]) (simp add: ALIGN_UP_def)

text \<open>C9. A read at an offset inside the file, or at its end, sends exactly the bytes of the file
  from that offset, as many as were asked for or as remain, and nothing at the end.\<close>

theorem ifs_read_exact:
  assumes ok: "ifs_image_ok img" and k: "k < ifs_cnt img"
    and small: "unat (file_size (ifs_nd img k)) < 2147483648"
    and off: "off \<le> unat (file_size (ifs_nd img k))"
    and n: "n = min (unat count) (unat (file_size (ifs_nd img k)) - off)"
  shows "ifs_read wm (int k) (word_of_nat off) count img =
    Some (if n = 0 then [ReplyMsg 0 NoBody]
          else [WriteBytes (slice (unat (file_offset (ifs_nd img k)) + off) n img) 0,
                ReplyMsg (wm n) NoBody])"
proof (rule ifs_read_at [OF ifs_image_okD(2) [OF ok k]])
  have lt: "off < 4294967296" using off small by simp
  show "sint (word_of_nat off :: 64 word) = int off" by (rule sint_offset [OF lt])
  show "unat (file_size (ifs_nd img k) - ucast (word_of_nat off :: 64 word))
      = unat (file_size (ifs_nd img k)) - off"
    using off ucast_offset [OF lt] by (simp add: unat_sub word_le_nat_alt)
qed (use n small off ifs_image_okD(6) [OF ok k] in auto)

theorem ifs_read_exact_witness:
  "ifs_read int (int 1) (word_of_nat 1) 512 (ifs_demo []) =
    Some (if (2::nat) = 0 then [ReplyMsg 0 NoBody]
          else [WriteBytes (slice (unat (file_offset (ifs_nd (ifs_demo []) 1)) + 1) 2 (ifs_demo [])) 0,
                ReplyMsg (int 2) NoBody])"
  by (rule ifs_read_exact [OF ifs_demo_ok])
    (simp_all add: ifs_nd_def ifs_demo_node1 ifs_demo_node1 [simplified])

text \<open>C10. Past the end of the file the number of remaining bytes wraps around: a read at an offset
  beyond the size is not refused and sends bytes of the image that lie after the file.\<close>

theorem ifs_read_past_end:
  assumes node: "ifs_node img k = Some nd"
    and off: "unat (file_size nd) < off" "off < 4294967296"
    and n: "0 < unat count" "unat count < 2147483648"
      "unat count + off \<le> 4294967296 + unat (file_size nd)"
    and inside: "unat (file_offset nd) + off + unat count \<le> length img"
  shows "ifs_read wm k (word_of_nat off) count img =
    Some [WriteBytes (slice (unat (file_offset nd) + off) (unat count) img) 0,
          ReplyMsg (wm (unat count)) NoBody]"
proof -
  let ?r = "4294967296 + unat (file_size nd) - off"
  have r: "unat (file_size nd - ucast (word_of_nat off :: 64 word)) = ?r"
    using off ucast_offset [OF off(2)] by (simp add: unat_sub_if_size word_size)
  have "ifs_read wm k (word_of_nat off) count img =
    Some (if unat count = 0 then [ReplyMsg 0 NoBody]
          else [WriteBytes (slice (unat (file_offset nd) + off) (unat count) img) 0,
                ReplyMsg (wm (unat count)) NoBody])"
    by (rule ifs_read_at [OF node r sint_offset [OF off(2)]]) (use n off inside in auto)
  with n(1) show ?thesis by auto
qed

text \<open>In the image below the file a has 3 bytes; reading at offset 4 yields the byte after it.\<close>

theorem ifs_read_past_end_witness:
  "ifs_read int 1 (word_of_nat 4) 1 (ifs_demo [7, 8]) =
    Some [WriteBytes (slice (unat (file_offset (ifs_nd (ifs_demo [7, 8]) 1)) + 4)
            (unat (1::u32)) (ifs_demo [7, 8])) 0, ReplyMsg (int (unat (1::u32))) NoBody]"
  by (rule ifs_read_past_end [of _ _ "ifs_nd (ifs_demo [7, 8]) 1"])
    (simp_all add: ifs_nd_def ifs_demo_node1)

end
