(* ===== verification/Alloc.thy ===== *)
theory Alloc
  imports Prelude
begin

text \<open>
  The contract of an allocator of numbered slots: the bitmaps of extfs keep it for blocks and
  inodes, the file allocation table of fatfs for clusters. The client's side, how many slots are
  left and that slots handed out are distinct, is proved once here.
\<close>

locale slot_allocator =
  fixes ok :: "'s \<Rightarrow> bool"
    and limit :: "'s \<Rightarrow> nat"
    and used :: "'s \<Rightarrow> nat \<Rightarrow> bool"
    and owned :: "'s \<Rightarrow> nat \<Rightarrow> bool"
    and alloc :: "'s \<Rightarrow> nat option \<times> 's"
    and free :: "'s \<Rightarrow> nat \<Rightarrow> 's option"
  assumes alloc_some: "ok s \<Longrightarrow> alloc s = (Some i, s') \<Longrightarrow>
      i < limit s \<and> \<not> used s i \<and> ok s' \<and> limit s' = limit s \<and> owned s' i \<and>
      (\<forall>j < limit s. used s' j = (used s j \<or> j = i)) \<and> (\<forall>j. owned s j \<longrightarrow> owned s' j)"
    and alloc_none: "ok s \<Longrightarrow> alloc s = (None, s') \<Longrightarrow>
      ok s' \<and> limit s' = limit s \<and> (\<forall>j < limit s. used s j \<and> used s' j) \<and>
      (\<forall>j. owned s j \<longrightarrow> owned s' j)"
    and owned_used: "ok s \<Longrightarrow> owned s i \<Longrightarrow> i < limit s \<and> used s i"
    and free_some: "ok s \<Longrightarrow> owned s i \<Longrightarrow>
      \<exists>s'. free s i = Some s' \<and> ok s' \<and> limit s' = limit s \<and>
        (\<forall>j < limit s. used s' j = (used s j \<and> j \<noteq> i)) \<and>
        (\<forall>j. j \<noteq> i \<longrightarrow> owned s j \<longrightarrow> owned s' j)"
begin

definition free_slots :: "'s \<Rightarrow> nat set" where
  "free_slots s = {i. i < limit s \<and> \<not> used s i}"

lemma finite_free_slots [simp]: "finite (free_slots s)"
  by (simp add: free_slots_def)

lemma alloc_free_slots:
  assumes "ok s" and "alloc s = (Some i, s')"
  shows "i \<in> free_slots s" and "free_slots s' = free_slots s - {i}"
  using alloc_some [OF assms] by (auto simp: free_slots_def)

lemma alloc_ok: "ok s \<Longrightarrow> alloc s = (r, s') \<Longrightarrow> ok s'"
  using alloc_some [of s _ s'] alloc_none [of s s'] by (cases r) auto

lemma alloc_none_free_slots:
  "ok s \<Longrightarrow> alloc s = (None, s') \<Longrightarrow> ok s' \<and> free_slots s' = {} \<and> free_slots s = {}"
  using alloc_none [of s s'] by (auto simp: free_slots_def)

text \<open>Allocation succeeds exactly while a slot is free, and takes one.\<close>

theorem alloc_succeeds_iff:
  assumes "ok s" and "alloc s = (r, s')"
  shows "r \<noteq> None \<longleftrightarrow> free_slots s \<noteq> {}"
proof (cases r)
  case None
  with assms alloc_none_free_slots [of s s'] show ?thesis by simp
next
  case (Some i)
  with assms alloc_free_slots(1) [of s i s'] show ?thesis by auto
qed

theorem alloc_takes_one:
  "ok s \<Longrightarrow> alloc s = (Some i, s') \<Longrightarrow> card (free_slots s) = Suc (card (free_slots s'))"
  using card.remove [OF finite_free_slots, of i s] alloc_free_slots [of s i s'] by metis

text \<open>Freeing the slot just allocated restores the allocation state.\<close>

theorem alloc_then_free:
  assumes "ok s" and "alloc s = (Some i, s')"
  obtains s'' where "free s' i = Some s''" "ok s''" "\<forall>j < limit s. used s'' j = used s j"
proof -
  note a = alloc_some [OF assms]
  then obtain s'' where f: "free s' i = Some s''" "ok s''"
    "\<forall>j < limit s. used s'' j = (used s' j \<and> j \<noteq> i)"
    using free_some [of s' i] by auto
  from a f(3) have "\<forall>j < limit s. used s'' j = used s j" by auto
  with f(1,2) show ?thesis by (rule that)
qed

text \<open>A run of allocations hands out distinct free slots.\<close>

fun alloc_many :: "nat \<Rightarrow> 's \<Rightarrow> nat list \<times> 's" where
  "alloc_many 0 s = ([], s)"
| "alloc_many (Suc n) s =
     (case alloc s of (None, s') \<Rightarrow> ([], s')
      | (Some i, s') \<Rightarrow> (case alloc_many n s' of (is, s'') \<Rightarrow> (i # is, s'')))"

theorem alloc_many_distinct:
  "ok s \<Longrightarrow> alloc_many n s = (is, s') \<Longrightarrow>
     distinct is \<and> set is \<subseteq> free_slots s \<and> length is = min n (card (free_slots s)) \<and>
     ok s' \<and> free_slots s' = free_slots s - set is"
proof (induction n arbitrary: s "is" s')
  case 0
  then show ?case by simp
next
  case (Suc n)
  obtain r t where a: "alloc s = (r, t)" by fastforce
  show ?case
  proof (cases r)
    case None
    from alloc_none_free_slots [OF Suc.prems(1) a [unfolded None]] Suc.prems a None
    show ?thesis by simp
  next
    case (Some i)
    obtain js t' where m: "alloc_many n t = (js, t')" by fastforce
    have "ok t" by (rule alloc_ok [OF Suc.prems(1) a])
    note IH = Suc.IH [OF this m]
    note fs = alloc_free_slots [OF Suc.prems(1) a [unfolded Some]]
    from alloc_takes_one [OF Suc.prems(1) a [unfolded Some]] Suc.prems(2) a Some m IH fs
    show ?thesis by auto
  qed
qed

text \<open>Slots owned by the caller can be freed, in any order, and are free afterwards.\<close>

fun free_all :: "nat list \<Rightarrow> 's \<Rightarrow> 's option" where
  "free_all [] s = Some s"
| "free_all (i # is) s = (case free s i of None \<Rightarrow> None | Some s' \<Rightarrow> free_all is s')"

lemma free_free_slots:
  assumes "ok s" and "owned s i" and "free s i = Some s'"
  shows "free_slots s' = insert i (free_slots s)"
  using free_some [OF assms(1,2)] owned_used [OF assms(1,2)] assms(3)
  by (auto simp: free_slots_def)

theorem free_all_owned:
  "ok s \<Longrightarrow> distinct is \<Longrightarrow> \<forall>i \<in> set is. owned s i \<Longrightarrow>
   \<exists>s'. free_all is s = Some s' \<and> ok s' \<and> free_slots s' = free_slots s \<union> set is"
proof (induction "is" arbitrary: s)
  case (Cons i "is")
  then have "owned s i" by simp
  from free_some [OF Cons.prems(1) this] obtain s1 where
    s1: "free s i = Some s1" "ok s1" "\<forall>j. j \<noteq> i \<longrightarrow> owned s j \<longrightarrow> owned s1 j" by blast
  have "\<forall>j \<in> set is. owned s1 j" using s1(3) Cons.prems(2,3) by auto
  with Cons.IH [OF s1(2)] Cons.prems(2) obtain s' where
    "free_all is s1 = Some s'" "ok s'" "free_slots s' = free_slots s1 \<union> set is" by auto
  with s1(1) free_free_slots [OF Cons.prems(1) \<open>owned s i\<close> s1(1)] show ?case by auto
qed simp

lemma alloc_many_owned:
  "ok s \<Longrightarrow> alloc_many n s = (is, s') \<Longrightarrow> (\<forall>i \<in> set is. owned s' i) \<and> (\<forall>j. owned s j \<longrightarrow> owned s' j)"
proof (induction n arbitrary: s "is" s')
  case (Suc n)
  obtain r t where a: "alloc s = (r, t)" by fastforce
  show ?case
  proof (cases r)
    case None
    with Suc.prems a alloc_none [OF Suc.prems(1), of t] show ?thesis by simp
  next
    case (Some i)
    obtain js t' where m: "alloc_many n t = (js, t')" by fastforce
    have "ok t" by (rule alloc_ok [OF Suc.prems(1) a])
    note IH = Suc.IH [OF this m]
    note as = alloc_some [OF Suc.prems(1) a [unfolded Some]]
    from Suc.prems(2) a Some m have eq: "is = i # js" "s' = t'" by simp_all
    from IH as show ?thesis unfolding eq by simp
  qed
qed simp

text \<open>What a run of allocations took can be given back, and then the same slots are free again.\<close>

theorem alloc_many_free_all:
  assumes "ok s" and "alloc_many n s = (is, s')"
  shows "\<exists>s''. free_all is s' = Some s'' \<and> ok s'' \<and> free_slots s'' = free_slots s"
proof -
  note m = alloc_many_distinct [OF assms] and o = alloc_many_owned [OF assms]
  from m have "ok s'" "distinct is" by auto
  from free_all_owned [OF this] o obtain s'' where
    "free_all is s' = Some s''" "ok s''" "free_slots s'' = free_slots s' \<union> set is" by auto
  with m show ?thesis by (intro exI [of _ s'']) auto
qed

end

end
