(* ===== verification/ExtBitmap.thy ===== *)
theory ExtBitmap
  imports Alloc
begin

text \<open>
  bitmap.c and the byte swapping of utility.c. A bitmap is the array of 32-bit words that the
  callers see in a block buffer; \<open>words32\<close> and \<open>unwords32\<close> are the casts between the two.
\<close>

section \<open>Arrays of words in a buffer\<close>

definition words32 :: "bool \<Rightarrow> bytes \<Rightarrow> u32 list" where
  "words32 be bs = map (\<lambda>i. dec32 be (bs ! (4 * i)) (bs ! (4 * i + 1)) (bs ! (4 * i + 2))
                                   (bs ! (4 * i + 3))) [0..<length bs div 4]"

definition unwords32 :: "bool \<Rightarrow> u32 list \<Rightarrow> bytes" where
  "unwords32 be ws = concat (map (enc32 be) ws)"


section \<open>Byte swapping\<close>

definition bswap2 :: "bool \<Rightarrow> u16 \<Rightarrow> u16" where
  "bswap2 swap w =
     (if \<not> swap then w
      else or (push_bit 8 (and w 0xFF)) (and (drop_bit 8 w) 0xFF))"

definition bswap4 :: "bool \<Rightarrow> u32 \<Rightarrow> u32" where
  "bswap4 swap x =
     (if \<not> swap then x
      else or (or (or (push_bit 24 (and x 0x000000FF)) (push_bit 8 (and x 0x0000FF00)))
                  (drop_bit 8 (and x 0x00FF0000)))
              (drop_bit 24 (and x 0xFF000000)))"


section \<open>Bitmaps\<close>

text \<open>
  The inner loop of \<open>alloc_bit\<close> over the bits of one word, and the outer loop over the words.
  The index \<open>w * 32 + b\<close> is computed in 32 bits. The returned int is given as the uint32_t the
  callers store it in, so -1 is the largest word.
\<close>

function alloc_bit_in :: "u32 \<Rightarrow> u32 \<Rightarrow> u32 \<Rightarrow> nat \<Rightarrow> nat option" where
  "alloc_bit_in x max_bits base b =
     (if b < 32 \<and> base + word_of_nat b < max_bits then
        if and x (push_bit b 1) = 0 then Some b
        else alloc_bit_in x max_bits base (b + 1)
      else None)"
  by pat_completeness auto
termination by (relation "measure (\<lambda>(x, m, base, b). 32 - b)") auto

declare alloc_bit_in.simps [simp del]

function alloc_bit :: "u32 list \<Rightarrow> u32 \<Rightarrow> nat \<Rightarrow> (u32 \<times> u32 list) option" where
  "alloc_bit bitmap max_bits w =
     (if word_of_nat w * 32 < max_bits then
        if length bitmap \<le> w then None
        else if bitmap ! w = 0xFFFFFFFF then alloc_bit bitmap max_bits (w + 1)
        else (case alloc_bit_in (bitmap ! w) max_bits (word_of_nat w * 32) 0 of
                Some b \<Rightarrow> Some (word_of_nat w * 32 + word_of_nat b,
                               bitmap[w := or (bitmap ! w) (push_bit b 1)])
              | None \<Rightarrow> alloc_bit bitmap max_bits (w + 1))
      else Some (- 1, bitmap))"
  by pat_completeness auto
termination by (relation "measure (\<lambda>(bm, m, w). length bm - w)") auto

declare alloc_bit.simps [simp del]

text \<open>\<open>clear_bit\<close>; the index is an int, divided as C does (a negative index is out of range).\<close>

definition clear_bit :: "u32 list \<Rightarrow> int \<Rightarrow> (int \<times> u32 list) option" where
  "clear_bit bitmap index =
     (if index < 0 \<or> int (length bitmap) \<le> index div 32 then None
      else let w = nat (index div 32);
               mask = push_bit (nat (index mod 32)) 1
           in if and (bitmap ! w) mask = 0 then Some (- 1, bitmap)
              else Some (0, bitmap[w := and (bitmap ! w) (not mask)]))"

text \<open>The set of bits of a bitmap.\<close>

definition bit_used :: "u32 list \<Rightarrow> nat \<Rightarrow> bool" where
  "bit_used bitmap i = bit (bitmap ! (i div 32)) (i mod 32)"


section \<open>Facts about byte order and arrays of words\<close>

lemma bit_byte_lt: "bit (a :: byte) n \<Longrightarrow> n < 8"
  using bit_imp_le_length [of a n] by simp
lemma bit_byte_ge: "8 \<le> n \<Longrightarrow> \<not> bit (a :: byte) n"
  using bit_byte_lt [of a n] by auto
lemma bit_u16_lt: "bit (a :: u16) n \<Longrightarrow> n < 16"
  using bit_imp_le_length [of a n] by simp
lemma bit_u32_lt: "bit (a :: u32) n \<Longrightarrow> n < 32"
  using bit_imp_le_length [of a n] by simp

lemma dec32_or: "dec32 False a b c d =
  or (or (or (ucast a) (push_bit 8 (ucast b))) (push_bit 16 (ucast c))) (push_bit 24 (ucast d))"
proof -
  have "dec32 False a b c d = ((ucast a + push_bit 8 (ucast b)) + push_bit 16 (ucast c)) + push_bit 24 (ucast d :: u32)"
    by (simp add: dec32_def push_bit_eq_mult)
  also have "ucast a + push_bit 8 (ucast b) = or (ucast a) (push_bit 8 (ucast b) :: u32)"
    by (rule disjunctive_add) (auto simp: bit_simps dest: bit_byte_lt)
  also have "\<dots> + push_bit 16 (ucast c) = or (or (ucast a) (push_bit 8 (ucast b))) (push_bit 16 (ucast c) :: u32)"
    by (rule disjunctive_add) (auto simp: bit_simps dest: bit_byte_lt)
  also have "\<dots> + push_bit 24 (ucast d) = or (or (or (ucast a) (push_bit 8 (ucast b))) (push_bit 16 (ucast c))) (push_bit 24 (ucast d) :: u32)"
    by (rule disjunctive_add) (auto simp: bit_simps dest: bit_byte_lt)
  finally show ?thesis .
qed
lemma dec32_be: "dec32 True a b c d = dec32 False d c b a"
  by (simp add: dec32_def)
lemma masks: "(0xFF::u32) = mask 8" "(0xFF00::u32) = push_bit 8 (mask 8)" "(0xFF0000::u32) = push_bit 16 (mask 8)" "(0xFF000000::u32) = push_bit 24 (mask 8)"
   by (simp_all add: mask_eq_exp_minus_1)

lemma bswap4_bit: "bit (bswap4 True x) n =
   (n < 32 \<and> bit x (if n < 8 then n + 24 else if n < 16 then n + 8 else if n < 24 then n - 8 else n - 24))"
  unfolding bswap4_def masks by (auto simp: bit_simps add.commute dest: bit_u32_lt)

lemma bswap4_dec32: "bswap4 True (dec32 False a b c d) = dec32 False d c b a"
  by (rule bit_eqI) (auto simp: bswap4_bit dec32_or bit_simps dest: bit_byte_lt)
lemma bswap4_dec32_host [buf_simps]: "bswap4 be (dec32 be a b c d) = dec32 False a b c d"
  by (cases be) (simp_all add: dec32_be bswap4_dec32, simp add: bswap4_def)
lemma bswap4_bswap4 [simp]: "bswap4 s (bswap4 s x) = x"
 by (cases s) (rule bit_eqI, auto simp: bswap4_bit  dest: bit_u32_lt, simp_all add: bswap4_def)

lemma dec16_or: "dec16 False a b = or (ucast a) (push_bit 8 (ucast b))"
proof -
  have "dec16 False a b = ucast a + push_bit 8 (ucast b :: u16)"
    by (simp add: dec16_def push_bit_eq_mult)
  also have "\<dots> = or (ucast a) (push_bit 8 (ucast b) :: u16)"
    by (rule disjunctive_add) (auto simp: bit_simps dest: bit_byte_lt)
  finally show ?thesis .
qed

lemma bswap2_bit: "bit (bswap2 True x) n = (n < 16 \<and> bit x (if n < 8 then n + 8 else n - 8))"
proof -
  have m: "(0xFF :: u16) = mask 8" by (simp add: mask_eq_exp_minus_1)
  show ?thesis unfolding bswap2_def m by (auto simp: bit_simps add.commute dest: bit_u16_lt)
qed

lemma bswap2_dec16_host [buf_simps]: "bswap2 be (dec16 be a b) = dec16 False a b"
proof (cases be)
  case True
  have "bswap2 True (dec16 False b a) = dec16 False a b"
    by (rule bit_eqI) (auto simp: bswap2_bit dec16_or bit_simps dest: bit_byte_lt)
  with True show ?thesis by (simp add: dec16_def)
qed (simp add: bswap2_def)

lemma bswap2_bswap2 [simp]: "bswap2 s (bswap2 s x) = x"
 by (cases s) (rule bit_eqI, auto simp: bswap2_bit  dest: bit_u16_lt, simp_all add: bswap2_def)

lemma length_words32 [buf_simps, simp]: "length (words32 be bs) = length bs div 4"
  by (simp add: words32_def)

lemma nth_words32: "i < length bs div 4 \<Longrightarrow>
  words32 be bs ! i = dec32 be (bs ! (4 * i)) (bs ! (4 * i + 1)) (bs ! (4 * i + 2)) (bs ! (4 * i + 3))"
  by (simp add: words32_def)

lemma length_unwords32 [buf_simps, simp]: "length (unwords32 be ws) = 4 * length ws"
  by (induction ws) (simp_all add: unwords32_def)

lemma nth_unwords32: "k < 4 \<Longrightarrow> i < length ws \<Longrightarrow> unwords32 be ws ! (4 * i + k) = enc32 be (ws ! i) ! k"
proof (induction ws arbitrary: i)
  case (Cons w ws)
  then show ?case
    by (cases i) (auto simp: unwords32_def nth_append)
qed simp

lemma words32_unwords32 [buf_simps, simp]: "words32 be (unwords32 be ws) = ws"
proof (rule nth_equalityI)
  fix i assume "i < length (words32 be (unwords32 be ws))"
  then have i: "i < length ws" by simp
  then show "words32 be (unwords32 be ws) ! i = ws ! i"
    using nth_unwords32 [of 0 i ws be] nth_unwords32 [of 1 i ws be] nth_unwords32 [of 2 i ws be]
      nth_unwords32 [of 3 i ws be]
    by (simp add: nth_words32)
qed simp


lemma byte_of_u32: "(word_of_nat (unat (w :: u32) div 2 ^ k mod 256) :: byte) = ucast (drop_bit k w)"
proof -
  have "unat (drop_bit k w) = unat w div 2 ^ k"
    by (simp only: unat_drop_bit_eq drop_bit_eq_div [of k "unat w"])
  then show ?thesis
    by (intro word_unat_eq_iff [THEN iffD2])
      (simp add: unsigned_ucast_eq take_bit_eq_mod unsigned_of_nat del: drop_bit_eq_div)
qed

lemma enc32_bytes: "enc32 False w = [ucast w, ucast (drop_bit 8 w), ucast (drop_bit 16 w), ucast (drop_bit 24 w)]"
  using byte_of_u32 [of w 0] byte_of_u32 [of w 8] byte_of_u32 [of w 16] byte_of_u32 [of w 24]
  by (simp add: enc32_def)

lemma enc32_dec32_le: "enc32 False (dec32 False a b c d) = [a, b, c, d]"
  unfolding enc32_bytes list.inject dec32_or
  by (auto intro!: bit_word_eqI simp: bit_simps bit_byte_ge)

lemma enc32_dec32 [buf_simps, simp]: "enc32 be (dec32 be a b c d) = [a, b, c, d]"
  using enc32_dec32_le [of d c b a] enc32_dec32_le [of a b c d]
  by (cases be) (auto simp: dec32_be enc32_def Let_def)

lemma unwords32_words32 [buf_simps, simp]:
  assumes "length bs mod 4 = 0"
  shows "unwords32 be (words32 be bs) = bs"
proof (rule nth_equalityI)
  show l: "length (unwords32 be (words32 be bs)) = length bs"
    using assms by simp presburger
  fix j assume "j < length (unwords32 be (words32 be bs))"
  then have j: "j < length bs" using l by simp
  define i k where "i = j div 4" and "k = j mod 4"
  then have jk: "j = 4 * i + k" "k < 4" by simp_all
  with j have i: "i < length bs div 4" using assms by presburger
  have "unwords32 be (words32 be bs) ! j = enc32 be (words32 be bs ! i) ! k"
    using nth_unwords32 [OF jk(2), of i "words32 be bs" be] i jk(1) by simp
  also have "\<dots> = bs ! j"
    using jk(2) by (auto simp: nth_words32 [OF i] jk(1) numeral_eq_Suc less_Suc_eq)
  finally show "unwords32 be (words32 be bs) ! j = bs ! j" .
qed


section \<open>What the bitmap operations do\<close>

lemma mask_bit_zero: "and (x :: u32) (2 ^ b) = 0 \<longleftrightarrow> \<not> bit x b"
  by (rule and_exp_eq_0_iff_not_bit)

lemma unat_base: 
  assumes "32 * w + 32 \<le> (4294967296 :: nat)" "b < 32"
  shows "unat (word_of_nat w * 32 + word_of_nat b :: u32) = 32 * w + b"
proof -
  have "word_of_nat w * 32 + word_of_nat b = (word_of_nat (32 * w + b) :: u32)" by simp
  then show ?thesis using assms unat_word_of_nat32 [of "32 * w + b"] by presburger
qed

lemma alloc_bit_in_spec:
  assumes w: "32 * w + 32 \<le> 4294967296"
  shows "b0 \<le> 32 \<Longrightarrow> (case alloc_bit_in x m (word_of_nat w * 32) b0 of
     Some b \<Rightarrow> b0 \<le> b \<and> b < 32 \<and> 32 * w + b < unat m \<and> \<not> bit x b \<and> (\<forall>j. b0 \<le> j \<and> j < b \<longrightarrow> bit x j)
   | None \<Rightarrow> (\<forall>j. b0 \<le> j \<and> j < 32 \<and> 32 * w + j < unat m \<longrightarrow> bit x j))"
proof (induction x m "word_of_nat w * 32 :: u32" b0 rule: alloc_bit_in.induct)
  case (1 x m b)
  note step = alloc_bit_in.simps [of x m "word_of_nat w * 32" b]
  show ?case
  proof (cases "b < 32 \<and> word_of_nat w * 32 + word_of_nat b < m")
    case False
    then show ?thesis
      using "1.prems" unat_base [OF w, of b] by (auto simp: step word_less_nat_alt)
  next
    case True
    then have c: "b < 32" "32 * w + b < unat m" using unat_base [OF w, of b] by (auto simp: word_less_nat_alt)
    show ?thesis
    proof (cases "bit x b")
      case False
      with True c show ?thesis by (auto simp: step mask_bit_zero)
    next
      case bt: True
      have eq: "alloc_bit_in x m (word_of_nat w * 32) b = alloc_bit_in x m (word_of_nat w * 32) (b + 1)"
        using True bt by (subst step) (simp add: mask_bit_zero)
      have ge: "b \<le> j \<Longrightarrow> b + 1 \<le> j \<or> j = b" for j by auto
      have "case alloc_bit_in x m (word_of_nat w * 32) (b + 1) of
     Some c \<Rightarrow> b + 1 \<le> c \<and> c < 32 \<and> 32 * w + c < unat m \<and> \<not> bit x c \<and> (\<forall>j. b + 1 \<le> j \<and> j < c \<longrightarrow> bit x j)
   | None \<Rightarrow> (\<forall>j. b + 1 \<le> j \<and> j < 32 \<and> 32 * w + j < unat m \<longrightarrow> bit x j)"
        by (rule "1.hyps" [OF True]) (use c bt in \<open>simp_all add: mask_bit_zero\<close>)
      then show ?thesis unfolding eq using bt ge by (auto split: option.splits) 
    qed
  qed
qed


lemma split32: "b < 32 \<Longrightarrow> i = 32 * w + b \<longleftrightarrow> i div 32 = w \<and> i mod 32 = (b :: nat)"
  by (metis add.commute div_mult_mod_eq div_mult_self4 div_less mod_mult_self4 mod_less mult.commute
      add_0 zero_neq_numeral)

lemma bit_used_update:
  assumes "w < length bm" and "b < 32"
  shows "bit_used (bm[w := or (bm ! w) (2 ^ b)]) i \<longleftrightarrow> bit_used bm i \<or> i = 32 * w + b"
  using assms by (auto simp: bit_used_def nth_list_update bit_simps split32)

lemma bit_used_clear:
  assumes "w < length bm" and "b < 32"
  shows "bit_used (bm[w := and (bm ! w) (not (2 ^ b))]) i \<longleftrightarrow> bit_used bm i \<and> i \<noteq> 32 * w + b"
  using assms by (auto simp: bit_used_def nth_list_update bit_simps split32 dest: bit_u32_lt)

lemma full_word: "i div 32 = w \<Longrightarrow> bm ! w = 0xFFFFFFFF \<Longrightarrow> bit_used bm i"
proof -
  assume "i div 32 = w" and "bm ! w = 0xFFFFFFFF"
  moreover have "(0xFFFFFFFF :: u32) = mask 32" by (simp add: mask_eq_exp_minus_1)
  ultimately show ?thesis unfolding bit_used_def by (simp only: bit_mask_iff) simp
qed

definition alloc_bit_post :: "u32 list \<Rightarrow> u32 \<Rightarrow> nat \<Rightarrow> u32 \<Rightarrow> u32 list \<Rightarrow> bool" where
  "alloc_bit_post bm m w r bm' \<longleftrightarrow>
     (r = - 1 \<and> bm' = bm \<and> (\<forall>i. 32 * w \<le> i \<and> i < unat m \<longrightarrow> bit_used bm i)) \<or>
     (\<exists>i. r = word_of_nat i \<and> 32 * w \<le> i \<and> i < unat m \<and> \<not> bit_used bm i \<and>
        (\<forall>j. 32 * w \<le> j \<and> j < i \<longrightarrow> bit_used bm j) \<and>
        length bm' = length bm \<and> (\<forall>j. bit_used bm' j \<longleftrightarrow> bit_used bm j \<or> j = i))"

lemma alloc_bit_post_skip:
  assumes "alloc_bit_post bm m (w + 1) r bm'" and "\<And>i. i div 32 = w \<Longrightarrow> i < unat m \<Longrightarrow> bit_used bm i"
  shows "alloc_bit_post bm m w r bm'"
proof -
  have w: "bit_used bm i" if "32 * w \<le> i" "i < unat m" "\<not> 32 * (w + 1) \<le> i" for i
    using that by (intro assms(2)) (simp_all add: div_nat_eqI)
  from assms(1) consider "r = - 1" "bm' = bm" "\<And>i. 32 * (w + 1) \<le> i \<Longrightarrow> i < unat m \<Longrightarrow> bit_used bm i"
    | i where "r = word_of_nat i" "32 * (w + 1) \<le> i" "i < unat m" "\<not> bit_used bm i"
        "\<And>j. 32 * (w + 1) \<le> j \<Longrightarrow> j < i \<Longrightarrow> bit_used bm j"
        "length bm' = length bm" "\<forall>j. bit_used bm' j \<longleftrightarrow> bit_used bm j \<or> j = i"
    unfolding alloc_bit_post_def by blast
  then show ?thesis
  proof cases
    case 1
    with w show ?thesis unfolding alloc_bit_post_def by blast
  next
    case (2 i)
    have "bit_used bm j" if "32 * w \<le> j" "j < i" for j
      using that 2(3) 2(5) [of j] w [of j] by linarith
    with 2 show ?thesis unfolding alloc_bit_post_def by (intro disjI2 exI [of _ i]) auto
  qed
qed

lemma alloc_bit_spec:
  assumes "32 * length bm < 4294967296" and "unat m \<le> 32 * length bm" and "w \<le> length bm"
  shows "\<exists>r bm'. alloc_bit bm m w = Some (r, bm') \<and> alloc_bit_post bm m w r bm'"
  using assms
proof (induction bm m w rule: alloc_bit.induct)
  case (1 bm m w)
  note step = alloc_bit.simps [of bm m w]
  have u: "unat (word_of_nat w * 32 :: u32) = 32 * w"
    using "1.prems" unat_word_of_nat32 [of "32 * w"] by (simp add: mult.commute)
  show ?case
  proof (cases "word_of_nat w * 32 < m")
    case False
    then show ?thesis using u by (auto simp: step alloc_bit_post_def word_less_nat_alt)
  next
    case True
    with u "1.prems" have w: "w < length bm" "32 * w + 32 \<le> 4294967296"
      by (auto simp: word_less_nat_alt)
    note spec = alloc_bit_in_spec [OF w(2), where ?b0.0 = 0 and x = "bm ! w" and m = m]
    show ?thesis
    proof (cases "bm ! w \<noteq> 0xFFFFFFFF \<and> alloc_bit_in (bm ! w) m (word_of_nat w * 32) 0 \<noteq> None")
      case False
      then have "alloc_bit bm m w = alloc_bit bm m (w + 1)"
        using True w by (auto simp: step)
      moreover have "\<exists>r bm'. alloc_bit bm m (w + 1) = Some (r, bm') \<and> alloc_bit_post bm m (w + 1) r bm'"
        using False True w "1.prems" "1.IH" by (cases "bm ! w = 0xFFFFFFFF") auto
      moreover have "bit_used bm i" if "i div 32 = w" "i < unat m" for i
        using False spec that full_word [OF that(1)] div_mult_mod_eq [of i 32]
        by (cases "bm ! w = 0xFFFFFFFF") (auto simp: bit_used_def mult.commute)
      ultimately show ?thesis using alloc_bit_post_skip by metis
    next
      case T: True
      then obtain b where b: "alloc_bit_in (bm ! w) m (word_of_nat w * 32) 0 = Some b" by auto
      let ?bm = "bm[w := or (bm ! w) (2 ^ b)]"
      have "alloc_bit bm m w = Some (word_of_nat (32 * w + b), ?bm)"
        using True T b w by (simp add: step mult.commute)
      moreover from spec b have bb: "b < 32" "32 * w + b < unat m" "\<not> bit (bm ! w) b"
        "\<And>j. j < b \<Longrightarrow> bit (bm ! w) j" by auto
      moreover have "bit_used bm j" if "32 * w \<le> j" "j < 32 * w + b" for j
      proof -
        have "j div 32 = w" using that bb(1) by (simp add: div_nat_eqI)
        moreover have "j mod 32 < b" using that \<open>j div 32 = w\<close> div_mult_mod_eq [of j 32] by linarith
        ultimately show ?thesis using bb(4) by (simp add: bit_used_def)
      qed
      moreover have "\<not> bit_used bm (32 * w + b)" using bb by (simp add: bit_used_def)
      ultimately show ?thesis
        using w bit_used_update [OF w(1) bb(1)] unfolding alloc_bit_post_def
        by (intro exI [of _ "word_of_nat (32 * w + b)"] exI [of _ ?bm] conjI disjI2 exI [of _ "32 * w + b"]) auto
    qed
  qed
qed

lemma clear_bit_set:
  assumes "i < 32 * length bm" and "bit_used bm i"
  shows "clear_bit bm (int i) =
    Some (0, bm[i div 32 := and (bm ! (i div 32)) (not (push_bit (i mod 32) 1))])"
proof -
  have "int i div 32 = int (i div 32)" "int i mod 32 = int (i mod 32)" by (simp_all add: zdiv_int zmod_int)
  moreover have "i div 32 < length bm" using assms(1) by (simp add: div_less_iff_less_mult mult.commute)
  ultimately show ?thesis
    using assms(2) by (simp add: clear_bit_def Let_def mask_bit_zero bit_used_def)
qed

lemma clear_bit_clear:
  assumes "i < 32 * length bm" and "\<not> bit_used bm i"
  shows "clear_bit bm (int i) = Some (- 1, bm)"
proof -
  have "int i div 32 = int (i div 32)" "int i mod 32 = int (i mod 32)" by (simp_all add: zdiv_int zmod_int)
  moreover have "i div 32 < length bm" using assms(1) by (simp add: div_less_iff_less_mult mult.commute)
  ultimately show ?thesis
    using assms(2) by (simp add: clear_bit_def Let_def mask_bit_zero bit_used_def)
qed

lemma clear_bit_used:
  assumes "i < 32 * length bm" and "clear_bit bm (int i) = Some (0, bm')"
  shows "length bm' = length bm" and "bit_used bm' j \<longleftrightarrow> bit_used bm j \<and> j \<noteq> i"
proof -
  have u: "bit_used bm i" using clear_bit_clear [OF assms(1)] assms(2) by (cases "bit_used bm i") auto
  have w: "i div 32 < length bm" using assms(1) by (simp add: div_less_iff_less_mult mult.commute)
  from clear_bit_set [OF assms(1) u] assms(2)
  have bm': "bm' = bm[i div 32 := and (bm ! (i div 32)) (not (2 ^ (i mod 32)))]" by simp
  then show "length bm' = length bm" by simp
  show "bit_used bm' j \<longleftrightarrow> bit_used bm j \<and> j \<noteq> i"
    unfolding bm' using bit_used_clear [OF w, of "i mod 32" j] by simp
qed

text \<open>Two bitmaps of one length with the same bits are equal.\<close>

lemma bitmap_eqI:
  assumes "length a = length b" and "\<And>i. bit_used a i = bit_used b i"
  shows "a = b"
proof (rule nth_equalityI [OF assms(1)])
  fix w assume "w < length a"
  show "a ! w = b ! w"
  proof (rule bit_word_eqI)
    fix n assume n: "n < LENGTH(32)"
    then have "(32 * w + n) div 32 = w" "(32 * w + n) mod 32 = n" by simp_all
    with assms(2) [of "32 * w + n"] show "bit (a ! w) n = bit (b ! w) n"
      by (simp add: bit_used_def)
  qed
qed


section \<open>Bitmaps are slot allocators\<close>

definition bitmap_ok :: "u32 \<Rightarrow> u32 list \<Rightarrow> bool" where
  "bitmap_ok m bm \<longleftrightarrow> unat m \<le> 32 * length bm \<and> 32 * length bm < 2147483648"

definition bitmap_alloc :: "u32 \<Rightarrow> u32 list \<Rightarrow> nat option \<times> u32 list" where
  "bitmap_alloc m bm =
     (case alloc_bit bm m 0 of
        None \<Rightarrow> (None, bm)
      | Some (r, bm') \<Rightarrow> (if r = - 1 then None else Some (unat r), bm'))"

definition bitmap_free :: "u32 list \<Rightarrow> nat \<Rightarrow> u32 list option" where
  "bitmap_free bm i =
     (case clear_bit bm (int i) of Some (r, bm') \<Rightarrow> if r = 0 then Some bm' else None | None \<Rightarrow> None)"

lemma small_word_not_minus_one: "n < 2147483648 \<Longrightarrow> (word_of_nat n :: u32) \<noteq> - 1"
proof
  assume "n < 2147483648" and "(word_of_nat n :: u32) = - 1"
  then have "n = unat (- 1 :: u32)" using unat_word_of_nat32 [of n] by simp
  then have "n = 4294967295" by (simp add: unsigned_minus_1_eq_mask mask_eq_exp_minus_1)
  with \<open>n < 2147483648\<close> show False by simp
qed

lemma bitmap_alloc_cases:
  assumes "bitmap_ok m bm"
  obtains (full) "bitmap_alloc m bm = (None, bm)" "\<forall>i < unat m. bit_used bm i"
      "alloc_bit bm m 0 = Some (- 1, bm)"
  | (found) i bm' where "bitmap_alloc m bm = (Some i, bm')" "alloc_bit bm m 0 = Some (word_of_nat i, bm')"
      "i < unat m" "\<not> bit_used bm i" "\<forall>j < i. bit_used bm j" "length bm' = length bm"
      "\<forall>j. bit_used bm' j \<longleftrightarrow> bit_used bm j \<or> j = i"
proof -
  from assms have "32 * length bm < 4294967296" "unat m \<le> 32 * length bm" "32 * length bm < 2147483648"
    by (simp_all add: bitmap_ok_def)
  note small = this
  then obtain r bm' where r: "alloc_bit bm m 0 = Some (r, bm')" and post: "alloc_bit_post bm m 0 r bm'"
    using alloc_bit_spec [of bm m 0] by auto
  from post consider "r = - 1" "bm' = bm" "\<forall>i < unat m. bit_used bm i"
    | i where "r = word_of_nat i" "i < unat m" "\<not> bit_used bm i" "\<forall>j < i. bit_used bm j"
        "length bm' = length bm" "\<forall>j. bit_used bm' j \<longleftrightarrow> bit_used bm j \<or> j = i"
    unfolding alloc_bit_post_def by auto
  then show ?thesis
  proof cases
    case 1
    with r show ?thesis by (intro full) (simp_all add: bitmap_alloc_def)
  next
    case (2 i)
    with small have "i < 2147483648" by simp
    with 2 r show ?thesis
      using small_word_not_minus_one [of i] unat_word_of_nat32 [of i]
      by (intro found [of i bm']) (simp_all add: bitmap_alloc_def)
  qed
qed

text \<open>Every bit that is set and below the limit may be cleared.\<close>

definition bitmap_owned :: "u32 \<Rightarrow> u32 list \<Rightarrow> nat \<Rightarrow> bool" where
  "bitmap_owned m bm i \<longleftrightarrow> i < unat m \<and> bit_used bm i"

interpretation bits: slot_allocator "bitmap_ok m" "\<lambda>_. unat m" bit_used "bitmap_owned m"
    "bitmap_alloc m" bitmap_free
  for m :: u32
proof (unfold_locales, goal_cases)
  case (1 s i s')
  from 1(1) show ?case
    by (cases rule: bitmap_alloc_cases) (use 1 in \<open>auto simp: bitmap_ok_def bitmap_owned_def\<close>)
next
  case (2 s s')
  from 2(1) show ?case
    by (cases rule: bitmap_alloc_cases) (use 2 in auto)
next
  case (3 s i)
  then show ?case by (simp add: bitmap_owned_def)
next
  case (4 s i)
  then have i: "i < 32 * length s" and u: "bit_used s i"
    by (simp_all add: bitmap_ok_def bitmap_owned_def)
  obtain bm' where c: "clear_bit s (int i) = Some (0, bm')" using clear_bit_set [OF i u] by simp
  with clear_bit_used [OF i c] 4(1) show ?case
    by (auto simp: bitmap_free_def bitmap_ok_def bitmap_owned_def)
qed


section \<open>Properties\<close>

text \<open>C16. On a bitmap that covers the limit, \<open>alloc_bit\<close> from the first word returns the least free
  bit below the limit and sets that bit and no other; when there is none it returns -1 and leaves
  the bitmap alone.\<close>

theorem alloc_bit_least_free:
  assumes "bitmap_ok m bm"
  shows "(\<exists>i bm'. alloc_bit bm m 0 = Some (word_of_nat i, bm') \<and> i < unat m \<and> \<not> bit_used bm i \<and>
            (\<forall>j < i. bit_used bm j) \<and> length bm' = length bm \<and>
            (\<forall>j. bit_used bm' j = (bit_used bm j \<or> j = i))) \<or>
         (alloc_bit bm m 0 = Some (- 1, bm) \<and> (\<forall>i < unat m. bit_used bm i))"
  by (rule bitmap_alloc_cases [OF assms]) blast+

theorem alloc_bit_least_free_witness:
  "(\<exists>i bm'. alloc_bit [0xFFFFFFFF, 0x17] 40 0 = Some (word_of_nat i, bm') \<and> i < unat (40 :: u32) \<and>
      \<not> bit_used [0xFFFFFFFF, 0x17] i \<and>
      (\<forall>j < i. bit_used [0xFFFFFFFF, 0x17] j) \<and> length bm' = length [0xFFFFFFFF :: u32, 0x17] \<and>
      (\<forall>j. bit_used bm' j = (bit_used [0xFFFFFFFF, 0x17] j \<or> j = i))) \<or>
   (alloc_bit [0xFFFFFFFF, 0x17] 40 0 = Some (- 1, [0xFFFFFFFF, 0x17]) \<and>
      (\<forall>i < unat (40 :: u32). bit_used [0xFFFFFFFF, 0x17] i))"
  by (rule alloc_bit_least_free) (simp add: bitmap_ok_def)

text \<open>C17. Clearing the bit that \<open>alloc_bit\<close> returned succeeds and gives back the very bitmap it
  was allocated from.\<close>

theorem alloc_clear_roundtrip:
  assumes ok: "bitmap_ok m bm" and a: "alloc_bit bm m 0 = Some (r, bm')" and "r \<noteq> - 1"
  shows "clear_bit bm' (int (unat r)) = Some (0, bm)"
proof (rule bitmap_alloc_cases [OF ok])
  assume "alloc_bit bm m 0 = Some (- 1, bm)"
  with a \<open>r \<noteq> - 1\<close> show ?thesis by simp
next
  fix i bm'' assume i: "alloc_bit bm m 0 = Some (word_of_nat i, bm'')" "i < unat m"
    "\<not> bit_used bm i" "length bm'' = length bm" "\<forall>j. bit_used bm'' j \<longleftrightarrow> bit_used bm j \<or> j = i"
  with a have eq: "bm'' = bm'" and r: "unat r = i"
    using unat_word_of_nat32 [of i] unat_u32_lt [of m] by auto
  from i ok have lt: "i < 32 * length bm'" by (simp add: bitmap_ok_def eq)
  obtain b where c: "clear_bit bm' (int i) = Some (0, b)"
    using clear_bit_set [OF lt] i(5) eq by auto
  have "b = bm"
    using clear_bit_used [OF lt c] i(3-5) eq by (intro bitmap_eqI) auto
  with c r show ?thesis by simp
qed

lemma alloc_bit_demo: "alloc_bit [0x17] 8 0 = Some (3, [0x1F])" "alloc_bit [0x1F] 8 0 = Some (5, [0x3F])"
  by code_simp+

theorem alloc_clear_roundtrip_witness: "clear_bit [0x3F] (int (unat (5 :: u32))) = Some (0, [0x1F])"
  by (rule alloc_clear_roundtrip [of 8]) (simp_all add: bitmap_ok_def alloc_bit_demo)

fun alloc_bits :: "u32 \<Rightarrow> nat \<Rightarrow> u32 list \<Rightarrow> nat list \<times> u32 list" where
  "alloc_bits m 0 bm = ([], bm)"
| "alloc_bits m (Suc n) bm =
     (case bitmap_alloc m bm of
        (None, bm') \<Rightarrow> ([], bm')
      | (Some i, bm') \<Rightarrow> (case alloc_bits m n bm' of (is, bm'') \<Rightarrow> (i # is, bm'')))"

lemma alloc_bits_many: "alloc_bits m n bm = bits.alloc_many m n bm"
  by (induction m n bm rule: alloc_bits.induct) (auto split: prod.splits option.splits)

text \<open>C18. A run of \<open>n\<close> calls of \<open>alloc_bit\<close> on one bitmap returns pairwise distinct bits that were
  free, as many as were asked for while that many were free, and afterwards exactly those bits
  are taken.\<close>

theorem alloc_bits_distinct:
  assumes "bitmap_ok m bm" and "alloc_bits m n bm = (is, bm')"
  shows "distinct is \<and> set is \<subseteq> {i. i < unat m \<and> \<not> bit_used bm i} \<and>
    length is = min n (card {i. i < unat m \<and> \<not> bit_used bm i}) \<and> bitmap_ok m bm' \<and>
    {i. i < unat m \<and> \<not> bit_used bm' i} = {i. i < unat m \<and> \<not> bit_used bm i} - set is"
  using bits.alloc_many_distinct [OF assms(1) assms(2) [unfolded alloc_bits_many]]
  by (simp add: bits.free_slots_def)

theorem alloc_bits_distinct_witness:
  "distinct [3 :: nat, 5] \<and> set [3, 5] \<subseteq> {i. i < unat (8 :: u32) \<and> \<not> bit_used [0x17] i} \<and>
    length [3 :: nat, 5] = min (Suc (Suc 0)) (card {i. i < unat (8 :: u32) \<and> \<not> bit_used [0x17] i}) \<and>
    bitmap_ok 8 [0x3F] \<and>
    {i. i < unat (8 :: u32) \<and> \<not> bit_used [0x3F] i} =
      {i. i < unat (8 :: u32) \<and> \<not> bit_used [0x17] i} - set [3, 5]"
  by (rule alloc_bits_distinct) (simp_all add: bitmap_ok_def bitmap_alloc_def alloc_bit_demo)

end
