(* ===== verification/Packed.thy ===== *)
theory Packed
  imports Prelude
begin

text \<open>
  Reading the packed structures of the on-disk formats of extfs and fatfs from a buffer, in the
  byte order of the CPU.
\<close>

section \<open>Packed structures\<close>

text \<open>Reading a packed structure field by field from the front of a buffer.\<close>

definition p16 :: "bool \<Rightarrow> bytes \<Rightarrow> (u16 \<times> bytes) option" where
  "p16 be bs = map_option (\<lambda>w. (w, drop 2 bs)) (ld16 be bs 0)"

definition p32 :: "bool \<Rightarrow> bytes \<Rightarrow> (u32 \<times> bytes) option" where
  "p32 be bs = map_option (\<lambda>w. (w, drop 4 bs)) (ld32 be bs 0)"

definition pbytes :: "nat \<Rightarrow> bytes \<Rightarrow> (bytes \<times> bytes) option" where
  "pbytes n bs = (if n \<le> length bs then Some (take n bs, drop n bs) else None)"

fun p32s :: "bool \<Rightarrow> nat \<Rightarrow> bytes \<Rightarrow> (u32 list \<times> bytes) option" where
  "p32s be 0 bs = Some ([], bs)"
| "p32s be (Suc n) bs = do { (w, bs) \<leftarrow> p32 be bs; (ws, bs) \<leftarrow> p32s be n bs; Some (w # ws, bs) }"

lemma p16_enc [buf_simps, simp]: "p16 be (enc16 be w @ bs) = Some (w, bs)"
  by (simp add: p16_def ld16_def nth_append)

lemma p32_enc [buf_simps, simp]: "p32 be (enc32 be w @ bs) = Some (w, bs)"
  using dec_enc32 [of be w]
  by (simp add: p32_def ld32_def nth_append numeral_2_eq_2 del: dec_enc32)

lemma pbytes_append [buf_simps, simp]: "length xs = n \<Longrightarrow> pbytes n (xs @ bs) = Some (xs, bs)"
  by (simp add: pbytes_def)

lemma p32s_enc [buf_simps, simp]:
  "length ws = n \<Longrightarrow> p32s be n (concat (map (enc32 be) ws) @ bs) = Some (ws, bs)"
  by (induction n arbitrary: ws) (auto simp: length_Suc_conv)

end
