(* ===== verification/ExtTypes.thy ===== *)
theory ExtTypes
  imports ExtBitmap Packed
begin

text \<open>
  The data of extfs, from ext2.h and globals.c: the on-disk structures with their packed layout,
  the cached inode, the interface of the block cache and the handler's global state.
\<close>

section \<open>Structures on disk\<close>

text \<open>\<open>struct group_desc\<close> (32 bytes).\<close>

record group_desc =
  g_block_bitmap :: u32
  g_inode_bitmap :: u32
  g_inode_table :: u32
  g_free_blocks_count :: u16
  g_free_inodes_count :: u16
  g_used_dirs_count :: u16
  g_pad :: u16
  g_reserved :: bytes

definition group_desc_size :: nat where
  "group_desc_size = 32"

definition group_desc_bytes :: "bool \<Rightarrow> group_desc \<Rightarrow> bytes" where
  "group_desc_bytes be g =
     enc32 be (g_block_bitmap g) @ enc32 be (g_inode_bitmap g) @ enc32 be (g_inode_table g) @
     enc16 be (g_free_blocks_count g) @ enc16 be (g_free_inodes_count g) @
     enc16 be (g_used_dirs_count g) @ enc16 be (g_pad g) @ g_reserved g"

definition group_desc_read :: "bool \<Rightarrow> bytes \<Rightarrow> (group_desc \<times> bytes) option" where
  "group_desc_read be bs = do {
     (bb, bs) \<leftarrow> p32 be bs; (ib, bs) \<leftarrow> p32 be bs; (it, bs) \<leftarrow> p32 be bs;
     (fb, bs) \<leftarrow> p16 be bs; (fi, bs) \<leftarrow> p16 be bs; (ud, bs) \<leftarrow> p16 be bs; (pd, bs) \<leftarrow> p16 be bs;
     (rs, bs) \<leftarrow> pbytes 12 bs;
     Some (\<lparr>g_block_bitmap = bb, g_inode_bitmap = ib, g_inode_table = it,
            g_free_blocks_count = fb, g_free_inodes_count = fi, g_used_dirs_count = ud,
            g_pad = pd, g_reserved = rs\<rparr>, bs)
   }"

text \<open>\<open>struct ondisk_inode\<close> (128 bytes, with the reserved words the source compiles in).\<close>

record ondisk_inode =
  i_mode :: u16
  i_uid :: u16
  i_size :: u32
  i_atime :: u32
  i_ctime :: u32
  i_mtime :: u32
  i_dtime :: u32
  i_gid :: u16
  i_links_count :: u16
  i_blocks :: u32
  i_flags :: u32
  l_i_reserved1 :: u32
  i_block :: "u32 list"
  i_generation :: u32
  i_file_acl :: u32
  i_dir_acl :: u32
  i_faddr :: u32
  l_i_reserved_osd2 :: bytes

definition ondisk_inode_size :: nat where
  "ondisk_inode_size = 128"

definition ondisk_inode_bytes :: "bool \<Rightarrow> ondisk_inode \<Rightarrow> bytes" where
  "ondisk_inode_bytes be n =
     enc16 be (i_mode n) @ enc16 be (i_uid n) @ enc32 be (i_size n) @ enc32 be (i_atime n) @
     enc32 be (i_ctime n) @ enc32 be (i_mtime n) @ enc32 be (i_dtime n) @ enc16 be (i_gid n) @
     enc16 be (i_links_count n) @ enc32 be (i_blocks n) @ enc32 be (i_flags n) @
     enc32 be (l_i_reserved1 n) @ concat (map (enc32 be) (i_block n)) @
     enc32 be (i_generation n) @ enc32 be (i_file_acl n) @ enc32 be (i_dir_acl n) @
     enc32 be (i_faddr n) @ l_i_reserved_osd2 n"

definition ondisk_inode_read :: "bool \<Rightarrow> bytes \<Rightarrow> ondisk_inode option" where
  "ondisk_inode_read be bs = do {
     (md, bs) \<leftarrow> p16 be bs; (ui, bs) \<leftarrow> p16 be bs; (sz, bs) \<leftarrow> p32 be bs; (ati, bs) \<leftarrow> p32 be bs;
     (cti, bs) \<leftarrow> p32 be bs; (mti, bs) \<leftarrow> p32 be bs; (dti, bs) \<leftarrow> p32 be bs; (gi, bs) \<leftarrow> p16 be bs;
     (lc, bs) \<leftarrow> p16 be bs; (nb, bs) \<leftarrow> p32 be bs; (fl, bs) \<leftarrow> p32 be bs; (r1, bs) \<leftarrow> p32 be bs;
     (bl, bs) \<leftarrow> p32s be 15 bs; (ge, bs) \<leftarrow> p32 be bs; (fa, bs) \<leftarrow> p32 be bs;
     (da, bs) \<leftarrow> p32 be bs; (fd, bs) \<leftarrow> p32 be bs; (r2, bs) \<leftarrow> pbytes 12 bs;
     Some \<lparr>i_mode = md, i_uid = ui, i_size = sz, i_atime = ati, i_ctime = cti, i_mtime = mti,
           i_dtime = dti, i_gid = gi, i_links_count = lc, i_blocks = nb, i_flags = fl,
           l_i_reserved1 = r1, i_block = bl, i_generation = ge, i_file_acl = fa, i_dir_acl = da,
           i_faddr = fd, l_i_reserved_osd2 = r2\<rparr>
   }"

text \<open>\<open>struct inode\<close>; the list links are kept as lists of cache slots in the state.\<close>

record inode =
  odi :: ondisk_inode
  i_ino :: u32
  i_count :: int
  i_update :: u32
  i_dirty :: bool

abbreviation (input) ATIME :: u32 where "ATIME \<equiv> 1"
abbreviation (input) CTIME :: u32 where "CTIME \<equiv> 2"
abbreviation (input) MTIME :: u32 where "MTIME \<equiv> 4"

abbreviation (input) NO_BLOCK :: u32 where "NO_BLOCK \<equiv> 0"
abbreviation (input) NO_ENTRY :: u32 where "NO_ENTRY \<equiv> 0"
abbreviation (input) NO_INODE :: u32 where "NO_INODE \<equiv> 0"
abbreviation (input) NO_GROUP :: u32 where "NO_GROUP \<equiv> - 1"
abbreviation (input) EXT2_NDIR_BLOCKS :: nat where "EXT2_NDIR_BLOCKS \<equiv> 12"
abbreviation (input) EXT2_N_BLOCKS :: nat where "EXT2_N_BLOCKS \<equiv> 15"
abbreviation (input) EXT2_ROOT_INO :: u32 where "EXT2_ROOT_INO \<equiv> 2"
abbreviation (input) EXT2_NAME_MAX :: nat where "EXT2_NAME_MAX \<equiv> 255"
abbreviation (input) EXT2_INDEX_FL :: u32 where "EXT2_INDEX_FL \<equiv> 0x1000"
abbreviation (input) NR_INODES :: nat where "NR_INODES \<equiv> 64"
abbreviation (input) INODE_HASH_SIZE :: nat where "INODE_HASH_SIZE \<equiv> 128"

text \<open>
  \<open>struct superblock\<close>. The bytes from offset 208 on, which no code looks at, are kept as
  \<open>s_tail\<close>.
\<close>

record superblock =
  s_inodes_count :: u32
  s_blocks_count :: u32
  s_r_blocks_count :: u32
  s_free_blocks_count :: u32
  s_free_inodes_count :: u32
  s_first_data_block :: u32
  s_log_block_size :: u32
  s_log_frag_size :: u32
  s_blocks_per_group :: u32
  s_frags_per_group :: u32
  s_inodes_per_group :: u32
  s_mtime :: u32
  s_wtime :: u32
  s_mnt_count :: u16
  s_max_mnt_count :: u16
  s_magic :: u16
  s_state :: u16
  s_errors :: u16
  s_minor_rev_level :: u16
  s_lastcheck :: u32
  s_checkinterval :: u32
  s_creator_os :: u32
  s_rev_level :: u32
  s_def_resuid :: u16
  s_def_resgid :: u16
  s_first_ino :: u32
  s_inode_size :: u16
  s_block_group_nr :: u16
  s_feature_compat :: u32
  s_feature_incompat :: u32
  s_feature_ro_compat :: u32
  s_uuid :: bytes
  s_volume_name :: bytes
  s_last_mounted :: bytes
  s_algorithm_usage_bitmap :: u32
  s_prealloc_blocks :: byte
  s_prealloc_dir_blocks :: byte
  s_padding1 :: u16
  s_tail :: bytes


section \<open>The block cache\<close>

text \<open>
  The block cache is a library outside the repository: its state \<open>'c\<close> and its calls are
  parameters. A \<open>struct buf *\<close> is named by the number of the block it was got for. \<open>bc_get\<close> and
  \<open>bc_get_readahead\<close> say whether the pointer is not NULL; \<open>bc_data\<close> is the array \<open>bp->data\<close> and
  \<open>bc_store\<close> an assignment into it.
\<close>

datatype blk_mode = BLK_READ | BLK_CLEAR

record 'c block_cache =
  bc_get :: "u32 \<Rightarrow> blk_mode \<Rightarrow> 'c \<Rightarrow> bool \<times> 'c"
  bc_get_readahead :: "u32 \<Rightarrow> 'c \<Rightarrow> bool \<times> 'c"
  bc_data :: "'c \<Rightarrow> u32 \<Rightarrow> bytes"
  bc_store :: "u32 \<Rightarrow> bytes \<Rightarrow> 'c \<Rightarrow> 'c"
  bc_markdirty :: "u32 \<Rightarrow> 'c \<Rightarrow> 'c"
  bc_put :: "u32 \<Rightarrow> 'c \<Rightarrow> 'c"
  bc_invalidate :: "u32 \<Rightarrow> 'c \<Rightarrow> 'c"

text \<open>
  What the code relies on. \<open>kept c b\<close> is what block \<open>b\<close> holds once its buffer has been given
  back, and \<open>marked c\<close> are the buffers in hand that were marked dirty: a change of a buffer that
  was not marked dirty may be lost when it is put.
\<close>

definition block_cache_contract ::
    "'c block_cache \<Rightarrow> nat \<Rightarrow> ('c \<Rightarrow> u32 \<Rightarrow> bytes) \<Rightarrow> ('c \<Rightarrow> u32 set) \<Rightarrow> bool" where
  "block_cache_contract bc bs kept marked \<longleftrightarrow>
     (\<forall>c b. length (bc_data bc c b) = bs) \<and>
     (\<forall>c b. fst (bc_get bc b BLK_READ c) \<and>
        bc_data bc (snd (bc_get bc b BLK_READ c)) = bc_data bc c \<and>
        kept (snd (bc_get bc b BLK_READ c)) = kept c \<and>
        marked (snd (bc_get bc b BLK_READ c)) = marked c) \<and>
     (\<forall>c b. fst (bc_get_readahead bc b c) \<and>
        bc_data bc (snd (bc_get_readahead bc b c)) = bc_data bc c \<and>
        kept (snd (bc_get_readahead bc b c)) = kept c \<and>
        marked (snd (bc_get_readahead bc b c)) = marked c) \<and>
     (\<forall>c b. fst (bc_get bc b BLK_CLEAR c) \<and>
        bc_data bc (snd (bc_get bc b BLK_CLEAR c)) = (bc_data bc c)(b := replicate bs 0) \<and>
        kept (snd (bc_get bc b BLK_CLEAR c)) = kept c \<and>
        marked (snd (bc_get bc b BLK_CLEAR c)) = marked c) \<and>
     (\<forall>c b d. length d = bs \<longrightarrow> bc_data bc (bc_store bc b d c) = (bc_data bc c)(b := d) \<and>
        kept (bc_store bc b d c) = kept c \<and> marked (bc_store bc b d c) = marked c) \<and>
     (\<forall>c b. bc_data bc (bc_markdirty bc b c) = bc_data bc c \<and>
        kept (bc_markdirty bc b c) = kept c \<and>
        marked (bc_markdirty bc b c) = insert b (marked c)) \<and>
     (\<forall>c b. marked (bc_put bc b c) = marked c - {b} \<and>
        (b \<in> marked c \<or> bc_data bc c b = kept c b \<longrightarrow>
           bc_data bc (bc_put bc b c) = bc_data bc c \<and>
           kept (bc_put bc b c) = (kept c)(b := bc_data bc c b))) \<and>
     (\<forall>c b. marked (bc_invalidate bc b c) = marked c - {b} \<and>
        (\<forall>b'. b' \<noteq> b \<longrightarrow> bc_data bc (bc_invalidate bc b c) b' = bc_data bc c b' \<and>
                         kept (bc_invalidate bc b c) b' = kept c b') \<and>
        bc_data bc (bc_invalidate bc b c) b = kept (bc_invalidate bc b c) b)"


section \<open>The state of the handler\<close>

record 'c ext_state =
  be_cpu :: bool
  read_only :: bool
  blocks :: 'c
  superblock :: superblock
  ondisk_superblock :: superblock
  group_descs :: "group_desc list"
  ondisk_group_descs :: "group_desc list"
  sb_inodes_per_block :: u32
  sb_inode_table_blocks_per_group :: u32
  sb_group_desc_block_count :: u32
  sb_desc_per_block :: u32
  sb_groups_count :: u32
  sb_blocksize_bits :: byte
  sb_block_size :: u16
  sb_sectors_in_block :: u16
  sb_max_size :: u32
  sb_dirs_counter :: u32
  sb_gdt_position :: "64 word"
  sb_addr_in_block :: u32
  sb_addr_in_block2 :: u32
  sb_doub_ind_s :: u32
  sb_triple_ind_s :: u32
  sb_out_range_s :: u32
  sb_first_ino :: u32
  sb_inode_size :: u32
  sb_group_descriptors_dirty :: bool
  unused_inode_list :: "nat list"
  hash_inodes :: "nat list list"
  inode_cache :: "inode list"
  ext_shutdown :: bool

text \<open>The globals before \<open>init\<close> runs.\<close>

definition zero_superblock :: superblock where
  "zero_superblock = \<lparr>
      s_inodes_count = 0, s_blocks_count = 0, s_r_blocks_count = 0, s_free_blocks_count = 0,
      s_free_inodes_count = 0, s_first_data_block = 0, s_log_block_size = 0,
      s_log_frag_size = 0, s_blocks_per_group = 0, s_frags_per_group = 0,
      s_inodes_per_group = 0, s_mtime = 0, s_wtime = 0, s_mnt_count = 0, s_max_mnt_count = 0,
      s_magic = 0, s_state = 0, s_errors = 0, s_minor_rev_level = 0, s_lastcheck = 0,
      s_checkinterval = 0, s_creator_os = 0, s_rev_level = 0, s_def_resuid = 0,
      s_def_resgid = 0, s_first_ino = 0, s_inode_size = 0, s_block_group_nr = 0,
      s_feature_compat = 0, s_feature_incompat = 0, s_feature_ro_compat = 0,
      s_uuid = replicate 16 0, s_volume_name = replicate 16 0,
      s_last_mounted = replicate 64 0, s_algorithm_usage_bitmap = 0, s_prealloc_blocks = 0,
      s_prealloc_dir_blocks = 0, s_padding1 = 0, s_tail = replicate 816 0\<rparr>"

definition ext_globals :: "'c \<Rightarrow> 'c ext_state" where
  "ext_globals c = \<lparr>
      be_cpu = False, read_only = False, blocks = c, superblock = zero_superblock,
      ondisk_superblock = zero_superblock, group_descs = [], ondisk_group_descs = [],
      sb_inodes_per_block = 0, sb_inode_table_blocks_per_group = 0,
      sb_group_desc_block_count = 0, sb_desc_per_block = 0, sb_groups_count = 0,
      sb_blocksize_bits = 0, sb_block_size = 0, sb_sectors_in_block = 0, sb_max_size = 0,
      sb_dirs_counter = 0, sb_gdt_position = 0, sb_addr_in_block = 0, sb_addr_in_block2 = 0,
      sb_doub_ind_s = 0, sb_triple_ind_s = 0, sb_out_range_s = 0, sb_first_ino = 0,
      sb_inode_size = 0, sb_group_descriptors_dirty = False, unused_inode_list = [],
      hash_inodes = [], inode_cache = [], ext_shutdown = False\<rparr>"

abbreviation block_size :: "'c ext_state \<Rightarrow> nat" where
  "block_size s \<equiv> unat (sb_block_size s)"

text \<open>\<open>get_group_desc\<close>: NULL, here None inside, when the index is out of range.\<close>

definition get_group_desc :: "u32 \<Rightarrow> 'c ext_state \<Rightarrow> group_desc option" where
  "get_group_desc bnum s =
     (if sb_groups_count s \<le> bnum then None
      else if length (group_descs s) \<le> unat bnum then None
      else Some (group_descs s ! unat bnum))"

definition set_group_desc :: "u32 \<Rightarrow> group_desc \<Rightarrow> 'c ext_state \<Rightarrow> 'c ext_state" where
  "set_group_desc bnum gd s = s\<lparr>group_descs := (group_descs s)[unat bnum := gd]\<rparr>"

definition group_descriptors_markdirty :: "'c ext_state \<Rightarrow> 'c ext_state" where
  "group_descriptors_markdirty s = s\<lparr>sb_group_descriptors_dirty := True\<rparr>"

definition group_descriptors_markclean :: "'c ext_state \<Rightarrow> 'c ext_state" where
  "group_descriptors_markclean s = s\<lparr>sb_group_descriptors_dirty := False\<rparr>"

end
