(* ===== verification/ExtBlock.thy ===== *)
theory ExtBlock
  imports ExtTypes
begin

text \<open>
  block.c: allocating and freeing file system blocks in the group bitmaps, and the map from file
  positions to blocks through direct, single, double and triple indirect blocks. An inode pointer
  is the slot of the inode in the cache; a buffer pointer is the number of its block.
\<close>

section \<open>Access to buffers and cached inodes\<close>

text \<open>A NULL buffer makes every caller panic, fail an assertion or dereference it: no result.\<close>

definition get_block :: "'c block_cache \<Rightarrow> u32 \<Rightarrow> blk_mode \<Rightarrow> 'c ext_state \<Rightarrow> 'c ext_state option" where
  "get_block bc b mode s =
     (case bc_get bc b mode (blocks s) of
        (True, c) \<Rightarrow> Some (s\<lparr>blocks := c\<rparr>) | (False, c) \<Rightarrow> None)"

definition block_data :: "'c block_cache \<Rightarrow> u32 \<Rightarrow> 'c ext_state \<Rightarrow> bytes" where
  "block_data bc b s = bc_data bc (blocks s) b"

definition set_block_data :: "'c block_cache \<Rightarrow> u32 \<Rightarrow> bytes \<Rightarrow> 'c ext_state \<Rightarrow> 'c ext_state" where
  "set_block_data bc b d s = s\<lparr>blocks := bc_store bc b d (blocks s)\<rparr>"

definition block_markdirty :: "'c block_cache \<Rightarrow> u32 \<Rightarrow> 'c ext_state \<Rightarrow> 'c ext_state" where
  "block_markdirty bc b s = s\<lparr>blocks := bc_markdirty bc b (blocks s)\<rparr>"

definition put_block :: "'c block_cache \<Rightarrow> u32 \<Rightarrow> 'c ext_state \<Rightarrow> 'c ext_state" where
  "put_block bc b s = s\<lparr>blocks := bc_put bc b (blocks s)\<rparr>"

definition invalidate_block :: "'c block_cache \<Rightarrow> u32 \<Rightarrow> 'c ext_state \<Rightarrow> 'c ext_state" where
  "invalidate_block bc b s = s\<lparr>blocks := bc_invalidate bc b (blocks s)\<rparr>"

definition the_inode :: "nat \<Rightarrow> 'c ext_state \<Rightarrow> inode" where
  "the_inode i s = inode_cache s ! i"

definition upd_inode :: "nat \<Rightarrow> (inode \<Rightarrow> inode) \<Rightarrow> 'c ext_state \<Rightarrow> 'c ext_state" where
  "upd_inode i f s = s\<lparr>inode_cache := (inode_cache s)[i := f (inode_cache s ! i)]\<rparr>"

definition upd_odi :: "nat \<Rightarrow> (ondisk_inode \<Rightarrow> ondisk_inode) \<Rightarrow> 'c ext_state \<Rightarrow> 'c ext_state" where
  "upd_odi i f s = upd_inode i (\<lambda>n. n\<lparr>odi := f (odi n)\<rparr>) s"

definition inode_markdirty :: "nat \<Rightarrow> 'c ext_state \<Rightarrow> 'c ext_state" where
  "inode_markdirty i s = upd_inode i (\<lambda>n. n\<lparr>i_dirty := True\<rparr>) s"

definition inode_markclean :: "nat \<Rightarrow> 'c ext_state \<Rightarrow> 'c ext_state" where
  "inode_markclean i s = upd_inode i (\<lambda>n. n\<lparr>i_dirty := False\<rparr>) s"


section \<open>Allocating and freeing blocks\<close>

definition check_block_number :: "group_desc \<Rightarrow> u32 \<Rightarrow> 'c ext_state \<Rightarrow> unit option" where
  "check_block_number gd block s =
     (if block = g_inode_bitmap gd \<or> block = g_block_bitmap gd \<or>
         g_inode_table gd \<le> block \<and> block < g_inode_table gd + sb_inode_table_blocks_per_group s
      then None
      else if s_blocks_count (superblock s) \<le> block then None
      else Some ())"

text \<open>The loop of \<open>alloc_block\<close> over the groups, from \<open>i\<close>.\<close>

function alloc_block_loop ::
    "'c block_cache \<Rightarrow> nat \<Rightarrow> nat \<Rightarrow> 'c ext_state \<Rightarrow> (u32 \<times> 'c ext_state) option" where
  "alloc_block_loop bc n i s =
     (if n < i then Some (NO_BLOCK, s)
      else if n = 0 then None
      else do {
        let group = word_of_nat (i mod n);
        gd \<leftarrow> get_group_desc group s;
        if g_free_blocks_count gd = 0 then alloc_block_loop bc n (i + 1) s
        else do {
          let bp = g_block_bitmap gd;
          s \<leftarrow> get_block bc bp BLK_READ s;
          let data = block_data bc bp s;
          (bit, bitmap) \<leftarrow> alloc_bit (words32 (be_cpu s) data) (s_blocks_per_group (superblock s)) 0;
          if bit \<noteq> - 1 then do {
            data \<leftarrow> store (unwords32 (be_cpu s) bitmap) 0 data;
            let s = set_block_data bc bp data s;
            let block = s_first_data_block (superblock s) +
                        group * s_blocks_per_group (superblock s) + bit;
            check_block_number gd block s;
            let s = put_block bc bp (block_markdirty bc bp s);
            let s = set_group_desc group
                      (gd\<lparr>g_free_blocks_count := g_free_blocks_count gd - 1\<rparr>) s;
            let s = s\<lparr>superblock := (superblock s)
                      \<lparr>s_free_blocks_count := s_free_blocks_count (superblock s) - 1\<rparr>\<rparr>;
            Some (block, group_descriptors_markdirty s)
          }
          else if i \<noteq> 0 then None
          else alloc_block_loop bc n (i + 1) s
        }
      })"
  by pat_completeness auto
termination by (relation "measure (\<lambda>(bc, n, i, s). Suc n - i)") auto

declare alloc_block_loop.simps [simp del]

text \<open>
  \<open>alloc_block\<close>: the goal only decides whether a division is by zero, since the loop starts again
  from the first group. \<open>rnd\<close> is what \<open>rand\<close> returns.
\<close>

definition alloc_block ::
    "'c block_cache \<Rightarrow> nat \<Rightarrow> nat \<Rightarrow> u32 \<Rightarrow> 'c ext_state \<Rightarrow> (u32 \<times> 'c ext_state) option" where
  "alloc_block bc rnd i goal s =
     (let sp = superblock s in
      if s_free_blocks_count sp = 0 then Some (NO_BLOCK, s)
      else do {
        goal \<leftarrow> (if goal = NO_BLOCK then
                   (if s_inodes_per_group sp = 0 then None
                    else Some (s_blocks_per_group sp * ((i_ino (the_inode i s) - 1) div s_inodes_per_group sp)
                               + s_first_data_block sp))
                 else Some goal);
        goal \<leftarrow> (if s_blocks_count sp \<le> goal \<or> goal < s_first_data_block sp \<and> goal \<noteq> NO_BLOCK then
                   (if s_blocks_count sp = 0 then None else Some (word_of_nat rnd mod s_blocks_count sp))
                 else Some goal);
        if s_blocks_per_group sp = 0 then None
        else do {
          let group = (goal - s_first_data_block sp) div s_blocks_per_group sp;
          let word = ((goal - s_first_data_block sp) mod s_blocks_per_group sp) div 32;
          alloc_block_loop bc (unat (sb_groups_count s)) 0 s
        }
      })"

definition free_block :: "'c block_cache \<Rightarrow> u32 \<Rightarrow> 'c ext_state \<Rightarrow> 'c ext_state option" where
  "free_block bc block s =
     (let sp = superblock s in
      if s_blocks_count sp \<le> block \<or> block < s_first_data_block sp then None
      else if s_blocks_per_group sp = 0 then None
      else do {
        let group = (block - s_first_data_block sp) div s_blocks_per_group sp;
        let bit = (block - s_first_data_block sp) mod s_blocks_per_group sp;
        gd \<leftarrow> get_group_desc group s;
        check_block_number gd block s;
        let bp = g_block_bitmap gd;
        s \<leftarrow> get_block bc bp BLK_READ s;
        let data = block_data bc bp s;
        (r, bitmap) \<leftarrow> clear_bit (words32 (be_cpu s) data) (sint bit);
        if r \<noteq> 0 then None
        else do {
          data \<leftarrow> store (unwords32 (be_cpu s) bitmap) 0 data;
          let s = set_block_data bc bp data s;
          let s = put_block bc bp (block_markdirty bc bp s);
          let s = set_group_desc group
                    (gd\<lparr>g_free_blocks_count := g_free_blocks_count gd + 1\<rparr>) s;
          let s = s\<lparr>superblock := (superblock s)
                    \<lparr>s_free_blocks_count := s_free_blocks_count (superblock s) + 1\<rparr>\<rparr>;
          Some (invalidate_block bc block (group_descriptors_markdirty s))
        }
      })"


section \<open>Positions in the indirection tree\<close>

text \<open>
  \<open>calc_block_indirection_offsets\<close>: the depth, or an error, and the entries of the array \<open>offs\<close>
  it sets, one per level.
\<close>

definition calc_block_indirection_offsets :: "u32 \<Rightarrow> 'c ext_state \<Rightarrow> (int \<times> u32 list) option" where
  "calc_block_indirection_offsets position s =
     (if sb_block_size s = 0 then None
      else let block_pos = position div ucast (sb_block_size s);
               aib = sb_addr_in_block s; aib2 = sb_addr_in_block2 s
           in
      if sb_out_range_s s \<le> block_pos then Some (- EINVAL, [])
      else if block_pos < word_of_nat EXT2_NDIR_BLOCKS then Some (0, [block_pos])
      else if block_pos < sb_doub_ind_s s then Some (1, [12, block_pos - word_of_nat EXT2_NDIR_BLOCKS])
      else if block_pos < sb_triple_ind_s s then
        (if aib = 0 then None
         else Some (2, [13, (block_pos - sb_doub_ind_s s) div aib,
                        (block_pos - sb_doub_ind_s s) mod aib]))
      else
        (if aib = 0 \<or> aib2 = 0 then None
         else Some (3, [14, (block_pos - sb_triple_ind_s s) div aib2,
                        ((block_pos - sb_triple_ind_s s) mod aib2) div aib,
                        ((block_pos - sb_triple_ind_s s) mod aib2) mod aib])))"

definition toplevel_slot :: "nat \<Rightarrow> nat option" where
  "toplevel_slot depth =
     (if depth = 1 then Some 12 else if depth = 2 then Some 13 else if depth = 3 then Some 14
      else None)"

definition get_toplevel_indirect_block_entry :: "nat \<Rightarrow> nat \<Rightarrow> 'c ext_state \<Rightarrow> u32 option" where
  "get_toplevel_indirect_block_entry i depth s =
     map_option (\<lambda>k. i_block (odi (the_inode i s)) ! k) (toplevel_slot depth)"

definition set_i_block :: "nat \<Rightarrow> nat \<Rightarrow> u32 \<Rightarrow> 'c ext_state \<Rightarrow> 'c ext_state" where
  "set_i_block i k block s = upd_odi i (\<lambda>n. n\<lparr>i_block := (i_block n)[k := block]\<rparr>) s"

definition set_toplevel_indirect_block_entry ::
    "nat \<Rightarrow> nat \<Rightarrow> u32 \<Rightarrow> 'c ext_state \<Rightarrow> 'c ext_state option" where
  "set_toplevel_indirect_block_entry i depth block s =
     map_option (\<lambda>k. set_i_block i k block s) (toplevel_slot depth)"

text \<open>\<open>i_blocks\<close> counts 512-byte sectors.\<close>

definition add_i_blocks :: "nat \<Rightarrow> 'c ext_state \<Rightarrow> 'c ext_state" where
  "add_i_blocks i s =
     upd_odi i (\<lambda>n. n\<lparr>i_blocks := i_blocks n + ucast (sb_sectors_in_block s)\<rparr>) s"

definition sub_i_blocks :: "nat \<Rightarrow> 'c ext_state \<Rightarrow> 'c ext_state" where
  "sub_i_blocks i s =
     upd_odi i (\<lambda>n. n\<lparr>i_blocks := i_blocks n - ucast (sb_sectors_in_block s)\<rparr>) s"

definition read_indirect_block_entry ::
    "'c block_cache \<Rightarrow> u32 \<Rightarrow> u32 \<Rightarrow> 'c ext_state \<Rightarrow> u32 option" where
  "read_indirect_block_entry bc bp index s =
     map_option (bswap4 (be_cpu s)) (ld32 (be_cpu s) (block_data bc bp s) (4 * unat index))"

definition write_indirect_block_entry ::
    "'c block_cache \<Rightarrow> u32 \<Rightarrow> u32 \<Rightarrow> u32 \<Rightarrow> 'c ext_state \<Rightarrow> 'c ext_state option" where
  "write_indirect_block_entry bc bp index block s =
     map_option (\<lambda>d. set_block_data bc bp d s)
       (store (enc32 (be_cpu s) (bswap4 (be_cpu s) block)) (4 * unat index) (block_data bc bp s))"

text \<open>The loop of \<open>is_empty_indirect_block\<close> over \<open>n\<close> entries from \<open>i\<close>.\<close>

fun is_empty_indirect_from :: "bool \<Rightarrow> bytes \<Rightarrow> nat \<Rightarrow> nat \<Rightarrow> bool option" where
  "is_empty_indirect_from be data i 0 = Some True"
| "is_empty_indirect_from be data i (Suc n) =
     (case ld32 be data (4 * i) of
        None \<Rightarrow> None
      | Some w \<Rightarrow> if w \<noteq> NO_BLOCK then Some False else is_empty_indirect_from be data (Suc i) n)"

definition is_empty_indirect_block :: "'c block_cache \<Rightarrow> u32 \<Rightarrow> 'c ext_state \<Rightarrow> bool option" where
  "is_empty_indirect_block bc bp s =
     is_empty_indirect_from (be_cpu s) (block_data bc bp s) 0 (unat (sb_addr_in_block s))"

definition zero_block :: "'c block_cache \<Rightarrow> u32 \<Rightarrow> 'c ext_state \<Rightarrow> 'c ext_state option" where
  "zero_block bc bp s = do {
     d \<leftarrow> store (replicate (block_size s) 0) 0 (block_data bc bp s);
     Some (block_markdirty bc bp (set_block_data bc bp d s))
   }"


section \<open>The block map of an inode\<close>

text \<open>The loop of \<open>read_map_entry\<close>: follow the offsets while the block is not a hole.\<close>

fun read_map_walk ::
    "'c block_cache \<Rightarrow> u32 list \<Rightarrow> u32 \<Rightarrow> 'c ext_state \<Rightarrow> (u32 \<times> 'c ext_state) option" where
  "read_map_walk bc [] block s = Some (block, s)"
| "read_map_walk bc (off # offs) block s =
     (if block = NO_BLOCK then Some (block, s)
      else do {
        s \<leftarrow> get_block bc block BLK_READ s;
        next \<leftarrow> read_indirect_block_entry bc block off s;
        read_map_walk bc offs next (put_block bc block s)
      })"

definition read_map_entry ::
    "'c block_cache \<Rightarrow> nat \<Rightarrow> 64 word \<Rightarrow> 'c ext_state \<Rightarrow> (u32 \<times> 'c ext_state) option" where
  "read_map_entry bc i position s = do {
     (depth, offs) \<leftarrow> calc_block_indirection_offsets (ucast position) s;
     if depth < 0 then Some (NO_BLOCK, s)
     else if depth = 0 then Some (i_block (odi (the_inode i s)) ! unat (offs ! 0), s)
     else do {
       block \<leftarrow> get_toplevel_indirect_block_entry i (nat depth) s;
       read_map_walk bc (tl offs) block s
     }
   }"

text \<open>A fresh, cleared indirect block.\<close>

definition clear_new_block :: "'c block_cache \<Rightarrow> u32 \<Rightarrow> 'c ext_state \<Rightarrow> 'c ext_state option" where
  "clear_new_block bc block s = do {
     s \<leftarrow> get_block bc block BLK_CLEAR s;
     Some (put_block bc block (block_markdirty bc block s))
   }"

text \<open>
  The descent of \<open>enter_map_entry\<close> over the levels above the last; on ENOSPC the buffer held is
  not put back, as in the code.
\<close>

fun enter_map_walk ::
    "'c block_cache \<Rightarrow> nat \<Rightarrow> nat \<Rightarrow> u32 list \<Rightarrow> u32 \<Rightarrow> 'c ext_state \<Rightarrow> (int \<times> u32 \<times> 'c ext_state) option" where
  "enter_map_walk bc rnd i [] block s = Some (0, block, s)"
| "enter_map_walk bc rnd i (off # offs) bp s = do {
     s \<leftarrow> get_block bc bp BLK_READ s;
     block \<leftarrow> read_indirect_block_entry bc bp off s;
     if block = NO_BLOCK then do {
       (block, s) \<leftarrow> alloc_block bc rnd i NO_BLOCK s;
       if block = NO_BLOCK then Some (- ENOSPC, block, s)
       else do {
         s \<leftarrow> clear_new_block bc block s;
         s \<leftarrow> write_indirect_block_entry bc bp off block s;
         let s = add_i_blocks i (block_markdirty bc bp s);
         enter_map_walk bc rnd i offs block (put_block bc bp s)
       }
     }
     else enter_map_walk bc rnd i offs block (put_block bc bp s)
   }"

definition enter_map_entry ::
    "'c block_cache \<Rightarrow> nat \<Rightarrow> nat \<Rightarrow> u32 \<Rightarrow> u32 \<Rightarrow> 'c ext_state \<Rightarrow> (int \<times> 'c ext_state) option" where
  "enter_map_entry bc rnd i position new_block s = do {
     (depth, offs) \<leftarrow> calc_block_indirection_offsets position s;
     if depth < 0 then Some (- EINVAL, s)
     else do {
       let s = inode_markdirty i s;
       if depth = 0 then Some (0, add_i_blocks i (set_i_block i (unat (offs ! 0)) new_block s))
       else do {
         block \<leftarrow> get_toplevel_indirect_block_entry i (nat depth) s;
         (sc, block, s) \<leftarrow>
           (if block = NO_BLOCK then do {
              (block, s) \<leftarrow> alloc_block bc rnd i NO_BLOCK s;
              if block = NO_BLOCK then Some (- ENOSPC, block, s)
              else do {
                s \<leftarrow> clear_new_block bc block s;
                s \<leftarrow> set_toplevel_indirect_block_entry i (nat depth) block s;
                Some (0, block, add_i_blocks i s)
              }
            } else Some (0, block, s));
         if sc \<noteq> 0 then Some (sc, s)
         else do {
           (sc, bp, s) \<leftarrow> enter_map_walk bc rnd i (butlast (tl offs)) block s;
           if sc \<noteq> 0 then Some (sc, s)
           else do {
             s \<leftarrow> get_block bc bp BLK_READ s;
             s \<leftarrow> write_indirect_block_entry bc bp (last offs) new_block s;
             Some (0, add_i_blocks i (put_block bc bp (block_markdirty bc bp s)))
           }
         }
       }
     }
   }"

text \<open>
  \<open>get_indirect_blocks\<close> fills the caller's array \<open>block\<close>; its first statement writes \<open>block[9]\<close>.
\<close>

function get_indirect_loop ::
    "'c block_cache \<Rightarrow> nat \<Rightarrow> nat \<Rightarrow> u32 list \<Rightarrow> nat \<Rightarrow> u32 list \<Rightarrow> 'c ext_state \<Rightarrow>
     (nat \<times> u32 list \<times> 'c ext_state) option" where
  "get_indirect_loop bc i depth offs actual block s =
     (if depth \<le> actual then Some (actual, block, s)
      else do {
        (b, s) \<leftarrow>
          (if actual = 0 then do {
             b \<leftarrow> get_toplevel_indirect_block_entry i depth s;
             Some (b, s)
           } else do {
             s \<leftarrow> get_block bc (block ! actual) BLK_READ s;
             b \<leftarrow> read_indirect_block_entry bc (block ! actual) (offs ! actual) s;
             Some (b, put_block bc (block ! actual) s)
           });
        let block = block[actual + 1 := b];
        if b = NO_BLOCK then Some (actual, block, s)
        else get_indirect_loop bc i depth offs (actual + 1) block s
      })"
  by pat_completeness auto
termination by (relation "measure (\<lambda>(bc, i, depth, offs, actual, block, s). depth - actual)") auto

declare get_indirect_loop.simps [simp del]

definition get_indirect_blocks ::
    "'c block_cache \<Rightarrow> nat \<Rightarrow> nat \<Rightarrow> u32 list \<Rightarrow> u32 list \<Rightarrow> 'c ext_state \<Rightarrow>
     (nat \<times> u32 list \<times> 'c ext_state) option" where
  "get_indirect_blocks bc i depth offs block s =
     (if length block \<le> 9 then None
      else get_indirect_loop bc i depth offs 0 (block[9 := 0]) s)"

text \<open>The ascent of \<open>delete_map_entry\<close>, from level \<open>t\<close>.\<close>

fun delete_map_ascend ::
    "'c block_cache \<Rightarrow> nat \<Rightarrow> u32 list \<Rightarrow> u32 list \<Rightarrow> nat \<Rightarrow> bool \<Rightarrow> 'c ext_state \<Rightarrow>
     (bool \<times> 'c ext_state) option" where
  "delete_map_ascend bc i offs ind 0 last_empty s = Some (last_empty, s)"
| "delete_map_ascend bc i offs ind (Suc t) last_empty s = do {
     let bp = ind ! Suc t;
     s \<leftarrow> get_block bc bp BLK_READ s;
     s \<leftarrow> (if last_empty then do {
            s \<leftarrow> write_indirect_block_entry bc bp (offs ! Suc t) NO_BLOCK s;
            s \<leftarrow> free_block bc (ind ! Suc (Suc t)) (block_markdirty bc bp s);
            Some (sub_i_blocks i s)
          } else Some s);
     empty \<leftarrow> is_empty_indirect_block bc bp s;
     delete_map_ascend bc i offs ind t empty (put_block bc bp s)
   }"

text \<open>\<open>ind0\<close> is the uninitialised local array \<open>indirect_blocks[4]\<close>.\<close>

definition delete_map_entry ::
    "'c block_cache \<Rightarrow> u32 list \<Rightarrow> nat \<Rightarrow> u32 \<Rightarrow> 'c ext_state \<Rightarrow> (int \<times> 'c ext_state) option" where
  "delete_map_entry bc ind0 i position s = do {
     (depth, offs) \<leftarrow> calc_block_indirection_offsets position s;
     if depth < 0 then Some (- EINVAL, s)
     else do {
       let s = inode_markdirty i s;
       if depth = 0 then Some (0, sub_i_blocks i (set_i_block i (unat (offs ! 0)) NO_BLOCK s))
       else do {
         (actual, ind, s) \<leftarrow> get_indirect_blocks bc i (nat depth) offs ind0 s;
         if actual = 0 then Some (0, s)
         else do {
           s \<leftarrow> (if actual = nat depth then do {
                  s \<leftarrow> get_block bc (ind ! nat depth) BLK_READ s;
                  s \<leftarrow> write_indirect_block_entry bc (ind ! nat depth) (offs ! nat depth) NO_BLOCK s;
                  let s = put_block bc (ind ! nat depth) (block_markdirty bc (ind ! nat depth) s);
                  Some (sub_i_blocks i s)
                } else Some s);
           (last_empty, s) \<leftarrow> delete_map_ascend bc i offs ind actual False s;
           if last_empty then do {
             s \<leftarrow> set_toplevel_indirect_block_entry i (nat depth) NO_BLOCK s;
             s \<leftarrow> free_block bc (ind ! 1) s;
             Some (0, sub_i_blocks i s)
           } else Some (0, s)
         }
       }
     }
   }"

text \<open>\<open>new_block\<close>; the result None inside is the NULL pointer.\<close>

definition new_block ::
    "'c block_cache \<Rightarrow> nat \<Rightarrow> nat \<Rightarrow> u32 \<Rightarrow> 'c ext_state \<Rightarrow> (u32 option \<times> 'c ext_state) option" where
  "new_block bc rnd i position s = do {
     (block, s) \<leftarrow> read_map_entry bc i (scast position) s;
     (r, s) \<leftarrow>
       (if block = NO_BLOCK then do {
          (block, s) \<leftarrow> alloc_block bc rnd i NO_BLOCK s;
          if block = NO_BLOCK then Some (None, s)
          else do {
            (sc, s) \<leftarrow> enter_map_entry bc rnd i position block s;
            if sc \<noteq> 0 then do { s \<leftarrow> free_block bc block s; Some (None, s) }
            else Some (Some block, s)
          }
        } else Some (Some block, s));
     (case r of
        None \<Rightarrow> Some (None, s)
      | Some block \<Rightarrow> do { s \<leftarrow> get_block bc block BLK_CLEAR s; Some (Some block, s) })
   }"

end
