(* ===== verification/ExtInodeCache.thy ===== *)
theory ExtInodeCache
  imports ExtBlock
begin

text \<open>
  The inode bitmap of inode.c and the inode cache of inode_cache.c. \<open>now\<close> is what \<open>time\<close> returns
  and \<open>rnd\<close> what \<open>rand\<close> returns during the request. The two kinds of list of the cache, the hash
  chains and the list of unused slots, are HOL lists of slots.
\<close>

definition S_ISDIR :: "u32 \<Rightarrow> bool" where
  "S_ISDIR mode \<longleftrightarrow> and mode 0xF000 = 0x4000"

definition S_ISREG :: "u32 \<Rightarrow> bool" where
  "S_ISREG mode \<longleftrightarrow> and mode 0xF000 = 0x8000"


section \<open>The inode bitmap\<close>

definition alloc_inode_bit ::
    "'c block_cache \<Rightarrow> u32 \<Rightarrow> bool \<Rightarrow> 'c ext_state \<Rightarrow> (u32 \<times> 'c ext_state) option" where
  "alloc_inode_bit bc grp is_dir s = do {
     gd \<leftarrow> get_group_desc grp s;
     if g_free_inodes_count gd = 0 then None
     else do {
       let bp = g_inode_bitmap gd;
       s \<leftarrow> get_block bc bp BLK_READ s;
       let data = block_data bc bp s;
       (bit, bitmap) \<leftarrow> alloc_bit (words32 (be_cpu s) data) (s_inodes_per_group (superblock s)) 0;
       if bit = - 1 then None
       else do {
         data \<leftarrow> store (unwords32 (be_cpu s) bitmap) 0 data;
         let s = set_block_data bc bp data s;
         let ino_nr = grp * s_inodes_per_group (superblock s) + bit + 1;
         if s_inodes_count (superblock s) < ino_nr then None
         else if ino_nr < sb_first_ino s then None
         else do {
           let s = put_block bc bp (block_markdirty bc bp s);
           let gd = gd\<lparr>g_free_inodes_count := g_free_inodes_count gd - 1\<rparr>;
           let s = s\<lparr>superblock := (superblock s)
                     \<lparr>s_free_inodes_count := s_free_inodes_count (superblock s) - 1\<rparr>\<rparr>;
           let (gd, s) = (if is_dir
                          then (gd\<lparr>g_used_dirs_count := g_used_dirs_count gd + 1\<rparr>,
                                s\<lparr>sb_dirs_counter := sb_dirs_counter s + 1\<rparr>)
                          else (gd, s));
           Some (ino_nr, group_descriptors_markdirty (set_group_desc grp gd s))
         }
       }
     }
   }"

text \<open>\<open>free_inode_bit\<close>: the bit it computes is not the one it clears.\<close>

definition free_inode_bit ::
    "'c block_cache \<Rightarrow> u32 \<Rightarrow> bool \<Rightarrow> 'c ext_state \<Rightarrow> 'c ext_state option" where
  "free_inode_bit bc ino_nr is_dir s =
     (if s_inodes_count (superblock s) < ino_nr \<or> ino_nr < sb_first_ino s then None
      else if s_inodes_per_group (superblock s) = 0 then None
      else do {
        let grp = (ino_nr - 1) div s_inodes_per_group (superblock s);
        let bit = (ino_nr - 1) mod s_inodes_per_group (superblock s);
        gd \<leftarrow> get_group_desc grp s;
        let bp = g_inode_bitmap gd;
        s \<leftarrow> get_block bc bp BLK_READ s;
        let data = block_data bc bp s;
        (r, bitmap) \<leftarrow> clear_bit (words32 (be_cpu s) data) (sint ino_nr);
        if r \<noteq> 0 then None
        else do {
          data \<leftarrow> store (unwords32 (be_cpu s) bitmap) 0 data;
          let s = put_block bc bp (block_markdirty bc bp (set_block_data bc bp data s));
          let gd = gd\<lparr>g_free_inodes_count := g_free_inodes_count gd + 1\<rparr>;
          let s = s\<lparr>superblock := (superblock s)
                    \<lparr>s_free_inodes_count := s_free_inodes_count (superblock s) + 1\<rparr>\<rparr>;
          let (gd, s) = (if is_dir
                         then (gd\<lparr>g_used_dirs_count := g_used_dirs_count gd - 1\<rparr>,
                               s\<lparr>sb_dirs_counter := sb_dirs_counter s - 1\<rparr>)
                         else (gd, s));
          Some (group_descriptors_markdirty (set_group_desc grp gd s))
        }
      })"

definition free_inode :: "'c block_cache \<Rightarrow> nat \<Rightarrow> 'c ext_state \<Rightarrow> 'c ext_state option" where
  "free_inode bc i s =
     (let b = i_ino (the_inode i s) in
      if b \<le> NO_ENTRY \<or> s_inodes_count (superblock s) < b then Some s
      else do {
        s \<leftarrow> free_inode_bit bc b (S_ISDIR (ucast (i_mode (odi (the_inode i s))))) s;
        Some (upd_odi i (\<lambda>n. n\<lparr>i_mode := 0\<rparr>) s)
      })"

text \<open>The search for the group of a new directory, over the offsets from \<open>t\<close>.\<close>

function find_dir_group_loop ::
    "u32 \<Rightarrow> int \<Rightarrow> nat \<Rightarrow> (u32 \<times> group_desc) option \<Rightarrow> 'c ext_state \<Rightarrow> u32 option" where
  "find_dir_group_loop parent_group avg t best s =
     (if unat (sb_groups_count s) \<le> t
      then Some (case best of None \<Rightarrow> NO_GROUP | Some (g, gd) \<Rightarrow> g)
      else do {
        let grp = (parent_group + word_of_nat t) mod sb_groups_count s;
        gd \<leftarrow> get_group_desc grp s;
        if g_free_inodes_count gd = 0 \<or> uint (g_free_inodes_count gd) < avg
        then find_dir_group_loop parent_group avg (t + 1) best s
        else find_dir_group_loop parent_group avg (t + 1)
          (case best of
             None \<Rightarrow> Some (grp, gd)
           | Some (g, best_gd) \<Rightarrow>
               if g_free_blocks_count best_gd < g_free_blocks_count gd then Some (grp, gd)
               else best) s
      })"
  by pat_completeness auto
termination
  by (relation "measure (\<lambda>(p, avg, t, best, s). unat (sb_groups_count s) - t)") auto

declare find_dir_group_loop.simps [simp del]

definition find_free_inode_dir_group :: "nat \<Rightarrow> u32 \<Rightarrow> 'c ext_state \<Rightarrow> u32 option" where
  "find_free_inode_dir_group rnd parent_ino s =
     (if sb_groups_count s = 0 then None
      else do {
        let avg = sint (s_free_inodes_count (superblock s) div sb_groups_count s);
        parent_group \<leftarrow>
          (if parent_ino = EXT2_ROOT_INO then Some (word_of_nat rnd mod sb_groups_count s)
           else if s_inodes_per_group (superblock s) = 0 then None
           else Some ((parent_ino - 1) div s_inodes_per_group (superblock s)));
        find_dir_group_loop parent_group avg 0 None s
      })"

text \<open>
  The search for the group of a new file. The loops look at the parent's descriptor, which is what
  the code does. \<open>t\<close> is doubled in 32 bits; once it is 0 the loop does not end.
\<close>

function find_file_group_quad :: "group_desc \<Rightarrow> nat \<Rightarrow> u32 \<Rightarrow> u32 \<Rightarrow> (u32 option) option" where
  "find_file_group_quad gd t grp n =
     (if unat n \<le> t then Some None
      else if t = 0 then None
      else let grp = (grp + word_of_nat t) mod n in
        if g_free_inodes_count gd \<noteq> 0 \<and> g_free_blocks_count gd \<noteq> 0 then Some (Some grp)
        else find_file_group_quad gd (if 2 * t < 4294967296 then 2 * t else 0) grp n)"
  by pat_completeness auto
termination
  by (relation "measure (\<lambda>(gd, t, g, n). if t = 0 then 0 else Suc (4294967296 - t))") auto

declare find_file_group_quad.simps [simp del]

fun find_file_group_linear :: "group_desc \<Rightarrow> nat \<Rightarrow> u32 \<Rightarrow> u32 \<Rightarrow> u32" where
  "find_file_group_linear gd 0 grp n = NO_GROUP"
| "find_file_group_linear gd (Suc k) grp n =
     (let grp = (grp + 1) mod n in
      if g_free_inodes_count gd \<noteq> 0 then grp else find_file_group_linear gd k grp n)"

definition find_free_inode_file_group :: "u32 \<Rightarrow> 'c ext_state \<Rightarrow> u32 option" where
  "find_free_inode_file_group parent_ino s =
     (if s_inodes_per_group (superblock s) = 0 \<or> sb_groups_count s = 0 then None
      else do {
        let n = sb_groups_count s;
        let parent_group = (parent_ino - 1) div s_inodes_per_group (superblock s);
        let grp = (parent_group + parent_ino) mod n;
        gd \<leftarrow> get_group_desc parent_group s;
        if g_free_inodes_count gd \<noteq> 0 \<and> g_free_blocks_count gd \<noteq> 0 then Some parent_group
        else do {
          r \<leftarrow> find_file_group_quad gd 1 grp n;
          (case r of
             Some g \<Rightarrow> Some g
           | None \<Rightarrow> Some (find_file_group_linear gd (unat n) parent_group n))
        }
      })"


section \<open>Inodes on disk\<close>

definition inode_copy :: "bool \<Rightarrow> ondisk_inode \<Rightarrow> ondisk_inode \<Rightarrow> ondisk_inode" where
  "inode_copy be dst src = dst\<lparr>
     i_mode := bswap2 be (i_mode src), i_uid := bswap2 be (i_uid src),
     i_size := bswap4 be (i_size src), i_atime := bswap4 be (i_atime src),
     i_ctime := bswap4 be (i_ctime src), i_mtime := bswap4 be (i_mtime src),
     i_dtime := bswap4 be (i_dtime src), i_gid := bswap2 be (i_gid src),
     i_links_count := bswap2 be (i_links_count src), i_blocks := bswap4 be (i_blocks src),
     i_flags := bswap4 be (i_flags src),
     i_block := map (\<lambda>k. bswap4 be (i_block src ! k)) [0..<EXT2_N_BLOCKS],
     i_generation := bswap4 be (i_generation src), i_file_acl := bswap4 be (i_file_acl src),
     i_dir_acl := bswap4 be (i_dir_acl src), i_faddr := bswap4 be (i_faddr src)\<rparr>"

text \<open>The block and the offset in it of an inode of the table of its group.\<close>

definition inode_location :: "u32 \<Rightarrow> 'c ext_state \<Rightarrow> (u32 \<times> nat) option" where
  "inode_location ino s =
     (if s_inodes_per_group (superblock s) = 0 then None
      else do {
        gd \<leftarrow> get_group_desc ((ino - 1) div s_inodes_per_group (superblock s)) s;
        let offset = ((ino - 1) mod s_inodes_per_group (superblock s)) * sb_inode_size s;
        Some (g_inode_table gd + drop_bit (unat (sb_blocksize_bits s)) offset,
              unat (and offset (ucast (sb_block_size s) - 1)))
      })"

definition update_times :: "u32 \<Rightarrow> nat \<Rightarrow> 'c ext_state \<Rightarrow> 'c ext_state" where
  "update_times now i s =
     (if read_only s then s
      else let u = i_update (the_inode i s) in
        upd_inode i (\<lambda>n. n\<lparr>i_update := 0\<rparr>)
          (upd_odi i (\<lambda>d. d\<lparr>i_atime := (if and u ATIME \<noteq> 0 then now else i_atime d),
                            i_ctime := (if and u CTIME \<noteq> 0 then now else i_ctime d),
                            i_mtime := (if and u MTIME \<noteq> 0 then now else i_mtime d)\<rparr>) s))"

definition read_inode :: "'c block_cache \<Rightarrow> nat \<Rightarrow> 'c ext_state \<Rightarrow> 'c ext_state option" where
  "read_inode bc i s = do {
     (b, offset) \<leftarrow> inode_location (i_ino (the_inode i s)) s;
     s \<leftarrow> get_block bc b BLK_READ s;
     disk \<leftarrow> ondisk_inode_read (be_cpu s) (drop offset (block_data bc b s));
     let s = upd_odi i (\<lambda>d. inode_copy (be_cpu s) d disk) s;
     Some (put_block bc b s)
   }"

definition write_inode ::
    "'c block_cache \<Rightarrow> u32 \<Rightarrow> nat \<Rightarrow> 'c ext_state \<Rightarrow> 'c ext_state option" where
  "write_inode bc now i s = do {
     (b, offset) \<leftarrow> inode_location (i_ino (the_inode i s)) s;
     s \<leftarrow> get_block bc b BLK_READ s;
     disk \<leftarrow> ondisk_inode_read (be_cpu s) (drop offset (block_data bc b s));
     let s = (if i_update (the_inode i s) \<noteq> 0 then update_times now i s else s);
     data \<leftarrow> store (ondisk_inode_bytes (be_cpu s) (inode_copy (be_cpu s) disk (odi (the_inode i s))))
                  offset (block_data bc b s);
     let s = set_block_data bc b data s;
     let s = (if read_only s then s else block_markdirty bc b s);
     Some (inode_markclean i (put_block bc b s))
   }"


section \<open>The cache\<close>

definition zero_inode :: inode where
  "zero_inode =
     \<lparr>odi = \<lparr>i_mode = 0, i_uid = 0, i_size = 0, i_atime = 0, i_ctime = 0, i_mtime = 0, i_dtime = 0,
        i_gid = 0, i_links_count = 0, i_blocks = 0, i_flags = 0, l_i_reserved1 = 0,
        i_block = replicate EXT2_N_BLOCKS 0, i_generation = 0, i_file_acl = 0, i_dir_acl = 0,
        i_faddr = 0, l_i_reserved_osd2 = replicate 12 0\<rparr>,
      i_ino = NO_ENTRY, i_count = 0, i_update = 0, i_dirty = False\<rparr>"

definition init_inode_cache :: "'c ext_state \<Rightarrow> int \<times> 'c ext_state" where
  "init_inode_cache s =
     (0, s\<lparr>inode_cache := replicate NR_INODES zero_inode, unused_inode_list := [0..<NR_INODES],
          hash_inodes := replicate INODE_HASH_SIZE []\<rparr>)"

definition hash_slot :: "u32 \<Rightarrow> nat" where
  "hash_slot ino = unat ino mod INODE_HASH_SIZE"

definition addhash_inode :: "nat \<Rightarrow> 'c ext_state \<Rightarrow> 'c ext_state" where
  "addhash_inode i s =
     (let h = hash_slot (i_ino (the_inode i s))
      in s\<lparr>hash_inodes := (hash_inodes s)[h := i # hash_inodes s ! h]\<rparr>)"

definition unhash_inode :: "nat \<Rightarrow> 'c ext_state \<Rightarrow> 'c ext_state" where
  "unhash_inode i s =
     (let h = hash_slot (i_ino (the_inode i s))
      in s\<lparr>hash_inodes := (hash_inodes s)[h := remove1 i (hash_inodes s ! h)]\<rparr>)"

text \<open>
  \<open>find_inode\<close>: the walk along a hash chain. The index is \<open>(int) ino_nr % 128\<close>, which is negative
  for a number of 2^31 or more.
\<close>

definition find_inode :: "u32 \<Rightarrow> 'c ext_state \<Rightarrow> nat option option" where
  "find_inode ino_nr s =
     (if sint ino_nr < 0 \<and> hash_slot ino_nr \<noteq> 0 then None
      else Some (find (\<lambda>i. i_ino (the_inode i s) = ino_nr) (hash_inodes s ! hash_slot ino_nr)))"

definition get_inode ::
    "'c block_cache \<Rightarrow> u32 \<Rightarrow> 'c ext_state \<Rightarrow> (nat option \<times> 'c ext_state) option" where
  "get_inode bc ino_nr s = do {
     found \<leftarrow> find_inode ino_nr s;
     (case found of
        Some i \<Rightarrow>
          (let s = (if i_count (the_inode i s) = 0
                    then s\<lparr>unused_inode_list := remove1 i (unused_inode_list s)\<rparr> else s)
           in Some (Some i, upd_inode i (\<lambda>n. n\<lparr>i_count := i_count n + 1\<rparr>) s))
      | None \<Rightarrow>
          (case unused_inode_list s of
             [] \<Rightarrow> Some (None, s)
           | i # unused \<Rightarrow> do {
               let s = (if i_ino (the_inode i s) \<noteq> NO_ENTRY then unhash_inode i s else s);
               let s = s\<lparr>unused_inode_list := unused\<rparr>;
               let s = upd_inode i (\<lambda>n. n\<lparr>i_ino := ino_nr, i_count := 1\<rparr>) s;
               s \<leftarrow> read_inode bc i s;
               let s = upd_inode i (\<lambda>n. n\<lparr>i_update := 0\<rparr>) s;
               Some (Some i, addhash_inode i s)
             }))
   }"

text \<open>\<open>truncate_inode\<close> is not implemented: it returns ENOSYS and changes nothing.\<close>

definition truncate_inode :: "nat \<Rightarrow> int \<Rightarrow> 'c ext_state \<Rightarrow> int \<times> 'c ext_state" where
  "truncate_inode i sz s = (- ENOSYS, s)"

definition put_inode ::
    "'c block_cache \<Rightarrow> u32 \<Rightarrow> nat \<Rightarrow> 'c ext_state \<Rightarrow> 'c ext_state option" where
  "put_inode bc now i s =
     (if i_count (the_inode i s) < 1 then None
      else let s = upd_inode i (\<lambda>n. n\<lparr>i_count := i_count n - 1\<rparr>) s in
      if i_count (the_inode i s) = 0 then do {
        s \<leftarrow> (if i_links_count (odi (the_inode i s)) = 0
              then free_inode bc i (inode_markdirty i (snd (truncate_inode i 0 s)))
              else Some s);
        s \<leftarrow> (if i_dirty (the_inode i s) then write_inode bc now i s else Some s);
        if i_links_count (odi (the_inode i s)) = 0 then do {
          let s = unhash_inode i s;
          let s = upd_inode i (\<lambda>n. n\<lparr>i_ino := NO_ENTRY\<rparr>) s;
          Some (s\<lparr>unused_inode_list := i # unused_inode_list s\<rparr>)
        } else Some (s\<lparr>unused_inode_list := unused_inode_list s @ [i]\<rparr>)
      }
      else if i_dirty (the_inode i s) then write_inode bc now i s
      else Some s)"

end
