(* ===== verification/ExtDir.thy ===== *)
theory ExtDir
  imports ExtInodeCache Ipc
begin

text \<open>
  The directory code: dir.c, dir_lookup.c, dir_enter.c, dir_delete.c and dir_isempty.c. A
  directory block is an array of bytes in which records follow one another; a pointer into it is
  the offset of the record. The fields of a record are loaded in host order and swapped where the
  code swaps them. The walks follow the record lengths found in the block, so they are partial:
  a length of 0 makes them run forever, which is the result None, as is an access outside the block.
\<close>

section \<open>Records of a directory block\<close>

definition de_ino :: "bool \<Rightarrow> bytes \<Rightarrow> nat \<Rightarrow> u32 option" where
  "de_ino be d p = ld32 be d p"

definition de_rec_len :: "bool \<Rightarrow> bytes \<Rightarrow> nat \<Rightarrow> u16 option" where
  "de_rec_len be d p = ld16 be d (p + 4)"

definition de_name_len :: "bytes \<Rightarrow> nat \<Rightarrow> byte option" where
  "de_name_len d p = ld8 d (p + 6)"

definition de_name :: "bytes \<Rightarrow> nat \<Rightarrow> bytes" where
  "de_name d p = drop (p + 8) d"

text \<open>\<open>NEXT_DISC_DIR_DESC\<close>: the length is used as it was loaded, without a swap.\<close>

definition next_disc_dir_desc :: "bool \<Rightarrow> bytes \<Rightarrow> nat \<Rightarrow> nat option" where
  "next_disc_dir_desc be d p = map_option (\<lambda>rl. p + unat rl) (de_rec_len be d p)"

definition DIR_ENTRY_ACTUAL_SIZE :: "byte \<Rightarrow> nat" where
  "DIR_ENTRY_ACTUAL_SIZE name_len =
     (let sz = 8 + unat name_len in sz + (if sz mod 4 = 0 then 0 else 4 - sz mod 4))"

text \<open>\<open>strcmp_nz\<close>: a counted name against a C string.\<close>

fun strcmp_nz_loop :: "bytes \<Rightarrow> bytes \<Rightarrow> nat \<Rightarrow> int option" where
  "strcmp_nz_loop s1 [] n = None"
| "strcmp_nz_loop s1 (c2 # s2) n =
     (if c2 = 0 then Some (- 1)
      else (case s1 of
          [] \<Rightarrow> None
        | c1 # s1' \<Rightarrow>
            if c1 \<noteq> c2 then Some (- 1)
            else if 0 < n - 1 then strcmp_nz_loop s1' s2 (n - 1)
            else (case s2 of [] \<Rightarrow> None | c # _ \<Rightarrow> if c \<noteq> 0 then Some (- 1) else Some 0)))"

definition strcmp_nz :: "bytes \<Rightarrow> bytes \<Rightarrow> nat \<Rightarrow> int option" where
  "strcmp_nz s1 s2 len = (if 0 < len then strcmp_nz_loop s1 s2 len else Some 0)"

text \<open>Does the record at \<open>p\<close> carry this name?\<close>

definition de_name_is :: "bytes \<Rightarrow> nat \<Rightarrow> bytes \<Rightarrow> bool option" where
  "de_name_is d p name = do {
     len \<leftarrow> de_name_len d p;
     r \<leftarrow> strcmp_nz (de_name d p) name (unat len);
     Some (r = 0)
   }"


section \<open>File positions\<close>

text \<open>
  \<open>off_t\<close> has 32 bits and is signed; it is compared with the unsigned size. Going past the
  largest offset has no result.
\<close>

definition off_lt :: "int \<Rightarrow> u32 \<Rightarrow> bool" where
  "off_lt pos sz \<longleftrightarrow> (word_of_int pos :: u32) < sz"

definition off_add :: "int \<Rightarrow> nat \<Rightarrow> int option" where
  "off_add pos n = (if 2147483648 \<le> pos + int n then None else Some (pos + int n))"

definition get_dir_block ::
    "'c block_cache \<Rightarrow> nat \<Rightarrow> int \<Rightarrow> 'c ext_state \<Rightarrow> (u32 option \<times> 'c ext_state) option" where
  "get_dir_block bc i position s = do {
     (b, s) \<leftarrow> read_map_entry bc i (word_of_int position) s;
     if b = NO_BLOCK then Some (None, s)
     else do { s \<leftarrow> get_block bc b BLK_READ s; Some (Some b, s) }
   }"

text \<open>A hole in a directory is a panic in every loop over its blocks.\<close>

definition get_dir_block_or_panic ::
    "'c block_cache \<Rightarrow> nat \<Rightarrow> int \<Rightarrow> 'c ext_state \<Rightarrow> (u32 \<times> 'c ext_state) option" where
  "get_dir_block_or_panic bc i position s = do {
     (r, s) \<leftarrow> get_dir_block bc i position s;
     b \<leftarrow> r;
     Some (b, s)
   }"


section \<open>Looking a name up\<close>

text \<open>\<open>lookup_dir_block\<close> from offset \<open>p\<close>; the result None inside is -ENOENT.\<close>

partial_function (option) lookup_dir_block ::
    "bool \<Rightarrow> nat \<Rightarrow> bytes \<Rightarrow> bytes \<Rightarrow> nat \<Rightarrow> u32 option option" where
  "lookup_dir_block be bs d name p =
     (if p < bs then do {
        ino \<leftarrow> de_ino be d p;
        hit \<leftarrow> (if ino \<noteq> NO_ENTRY then de_name_is d p name else Some False);
        if hit then Some (Some (bswap4 be ino))
        else do { p' \<leftarrow> next_disc_dir_desc be d p; lookup_dir_block be bs d name p' }
      } else Some None)"

partial_function (option) lookup_dir_loop ::
    "'c block_cache \<Rightarrow> nat \<Rightarrow> bytes \<Rightarrow> int \<Rightarrow> 'c ext_state \<Rightarrow> (int \<times> u32 \<times> 'c ext_state) option" where
  "lookup_dir_loop bc i name pos s =
     (if off_lt pos (i_size (odi (the_inode i s))) then do {
        (bp, s) \<leftarrow> get_dir_block_or_panic bc i pos s;
        r \<leftarrow> lookup_dir_block (be_cpu s) (block_size s) (block_data bc bp s) name 0;
        (case r of
           Some ino \<Rightarrow> Some (0, ino, put_block bc bp s)
         | None \<Rightarrow> do {
             pos' \<leftarrow> off_add pos (block_size s);
             lookup_dir_loop bc i name pos' (put_block bc bp s)
           })
      } else Some (- ENOENT, 0, s))"

text \<open>The status, and the inode number when it is 0.\<close>

definition lookup_dir ::
    "'c block_cache \<Rightarrow> nat \<Rightarrow> bytes \<Rightarrow> 'c ext_state \<Rightarrow> (int \<times> u32 \<times> 'c ext_state) option" where
  "lookup_dir bc i name s = do {
     len \<leftarrow> c_strlen name;
     if EXT2_NAME_MAX < len then Some (- ENAMETOOLONG, 0, s)
     else lookup_dir_loop bc i name 0 s
   }"


section \<open>Entering a name\<close>

text \<open>\<open>shrink_dir_entry\<close> on the bytes of the block: the offset of the freed record.\<close>

definition shrink_dir_entry :: "bool \<Rightarrow> nat \<Rightarrow> bytes \<Rightarrow> (nat \<times> bytes) option" where
  "shrink_dir_entry be p d = do {
     rl \<leftarrow> de_rec_len be d p;
     len \<leftarrow> de_name_len d p;
     let actual = DIR_ENTRY_ACTUAL_SIZE len;
     let new_slot_size = word_of_nat (unat (bswap2 be rl)) - word_of_nat actual;
     d \<leftarrow> store (enc16 be (bswap2 be (word_of_nat actual))) (p + 4) d;
     q \<leftarrow> next_disc_dir_desc be d p;
     d \<leftarrow> store (enc16 be (bswap2 be new_slot_size)) (q + 4) d;
     d \<leftarrow> store (enc32 be NO_ENTRY) q d;
     Some (q, d)
   }"

text \<open>
  \<open>find_dirent_free_space\<close> from offset \<open>p\<close>: the offset of a free record and the changed bytes, or
  None inside for -ENOSPC. The space left after shrinking is computed in \<open>size_t\<close>.
\<close>

partial_function (option) find_dirent_free_space ::
    "bool \<Rightarrow> nat \<Rightarrow> nat \<Rightarrow> bytes \<Rightarrow> nat \<Rightarrow> (nat \<times> bool \<times> bytes) option option" where
  "find_dirent_free_space be bs required d p =
     (if p < bs then do {
        ino \<leftarrow> de_ino be d p;
        rl \<leftarrow> de_rec_len be d p;
        if ino = NO_ENTRY \<and> required \<le> unat (bswap2 be rl) then Some (Some (p, False, d))
        else do {
          len \<leftarrow> de_name_len d p;
          let available = (word_of_nat (unat (bswap2 be rl)) :: u32) - word_of_nat (DIR_ENTRY_ACTUAL_SIZE len);
          if required \<le> unat available then do {
            (q, d) \<leftarrow> shrink_dir_entry be p d;
            Some (Some (q, True, d))
          }
          else do {
            p' \<leftarrow> next_disc_dir_desc be d p;
            find_dirent_free_space be bs required d p'
          }
        }
      } else Some None)"

definition EXT2_FT :: "u32 \<Rightarrow> byte" where
  "EXT2_FT mode =
     (let t = and mode S_IFMT in
      if t = S_IFREG then 1 else if t = S_IFDIR then 2 else if t = S_IFLNK then 7
      else if t = S_IFBLK then 4 else if t = S_IFCHR then 3 else if t = S_IFIFO then 5 else 0)"

definition set_dirent_file_type :: "'c ext_state \<Rightarrow> nat \<Rightarrow> u32 \<Rightarrow> bytes \<Rightarrow> bytes option" where
  "set_dirent_file_type s p mode d =
     (if and (s_feature_incompat (superblock s)) 2 \<noteq> 0 then store [EXT2_FT mode] (p + 7) d
      else Some d)"

text \<open>The loop that copies the name; it stops at the stored length and at the terminator.\<close>

definition copied_name :: "bytes \<Rightarrow> byte \<Rightarrow> bytes option" where
  "copied_name name len =
     (let n = min EXT2_NAME_MAX (unat len) in
      if terminated (take n name) \<or> n \<le> length name then Some (take n (cstr name)) else None)"

definition extend_directory ::
    "'c block_cache \<Rightarrow> nat \<Rightarrow> nat \<Rightarrow> 'c ext_state \<Rightarrow> ((nat \<times> u32) option \<times> 'c ext_state) option" where
  "extend_directory bc rnd i s = do {
     (r, s) \<leftarrow> new_block bc rnd i (i_size (odi (the_inode i s))) s;
     (case r of
        None \<Rightarrow> Some (None, s)
      | Some bp \<Rightarrow> do {
          let be = be_cpu s;
          d \<leftarrow> store (enc16 be (bswap2 be (sb_block_size s))) 4 (block_data bc bp s);
          rl \<leftarrow> de_rec_len be d 0;
          d \<leftarrow> store [word_of_nat (unat (bswap2 be rl)) - 8] 6 d;
          Some (Some (0, bp), set_block_data bc bp d s)
        })
   }"

text \<open>\<open>enter_dirent\<close>; \<open>dp\<close> is None for the NULL pointer.\<close>

definition enter_dirent ::
    "'c block_cache \<Rightarrow> u32 \<Rightarrow> nat \<Rightarrow> nat \<Rightarrow> u32 \<Rightarrow> nat option \<Rightarrow> u32 \<Rightarrow> bytes \<Rightarrow> nat \<Rightarrow> u32 \<Rightarrow>
     'c ext_state \<Rightarrow> (int \<times> 'c ext_state) option" where
  "enter_dirent bc now rnd i bp dp ino_nr name name_len mode s = do {
     (place, s) \<leftarrow>
       (case dp of
          None \<Rightarrow> extend_directory bc rnd i s
        | Some p \<Rightarrow> Some (Some (p, bp), s));
     (case place of
        None \<Rightarrow> Some (- ENOMEM, s)
      | Some (p, bp) \<Rightarrow> do {
          let be = be_cpu s;
          d \<leftarrow> store (enc32 be (bswap4 be ino_nr)) p (block_data bc bp s);
          d \<leftarrow> store [word_of_nat name_len] (p + 6) d;
          d \<leftarrow> set_dirent_file_type s p mode d;
          nm \<leftarrow> copied_name name (word_of_nat name_len);
          d \<leftarrow> store nm (p + 8) d;
          let s = put_block bc bp (block_markdirty bc bp (set_block_data bc bp d s));
          rl \<leftarrow> de_rec_len be d p;
          let s = (if dp = None
                   then upd_odi i (\<lambda>n. n\<lparr>i_size := i_size n + ucast (bswap2 be rl)\<rparr>) s else s);
          let s = inode_markdirty i (upd_inode i (\<lambda>n. n\<lparr>i_update := or (i_update n) (or CTIME MTIME)\<rparr>) s);
          s \<leftarrow> write_inode bc now i s;
          Some (0, s)
        })
   }"

partial_function (option) dirent_enter_loop ::
    "'c block_cache \<Rightarrow> u32 \<Rightarrow> nat \<Rightarrow> nat \<Rightarrow> nat \<Rightarrow> u32 \<Rightarrow> bytes \<Rightarrow> nat \<Rightarrow> u32 \<Rightarrow> int \<Rightarrow>
     'c ext_state \<Rightarrow> (int \<times> 'c ext_state) option" where
  "dirent_enter_loop bc now rnd i required ino_nr name name_len mode pos s =
     (if off_lt pos (i_size (odi (the_inode i s))) then do {
        (bp, s) \<leftarrow> get_dir_block_or_panic bc i pos s;
        r \<leftarrow> find_dirent_free_space (be_cpu s) (block_size s) required (block_data bc bp s) 0;
        (case r of
           Some (p, shrunk, d) \<Rightarrow>
             (let s = (if shrunk then block_markdirty bc bp (set_block_data bc bp d s) else s)
              in enter_dirent bc now rnd i bp (Some p) ino_nr name name_len mode s)
         | None \<Rightarrow> do {
             pos' \<leftarrow> off_add pos (block_size s);
             dirent_enter_loop bc now rnd i required ino_nr name name_len mode pos' (put_block bc bp s)
           })
      } else Some (- ENOENT, s))"

definition dirent_enter ::
    "'c block_cache \<Rightarrow> u32 \<Rightarrow> nat \<Rightarrow> nat \<Rightarrow> bytes \<Rightarrow> u32 \<Rightarrow> u32 \<Rightarrow> 'c ext_state \<Rightarrow>
     (int \<times> 'c ext_state) option" where
  "dirent_enter bc now rnd i name ino_nr mode s = do {
     name_len \<leftarrow> c_strlen name;
     if EXT2_NAME_MAX < name_len then Some (- ENAMETOOLONG, s)
     else do {
       let required = 8 + name_len;
       let required = required + (if required mod 4 = 0 then 0 else 4 - required mod 4);
       dirent_enter_loop bc now rnd i required ino_nr name name_len mode 0 s
     }
   }"


section \<open>Deleting a name\<close>

text \<open>The record with the name and the one before it; None inside for -ENOENT.\<close>

partial_function (option) find_dir_entry ::
    "bool \<Rightarrow> nat \<Rightarrow> bytes \<Rightarrow> bytes \<Rightarrow> nat option \<Rightarrow> nat \<Rightarrow> (nat \<times> nat option) option option" where
  "find_dir_entry be bs d name prev p =
     (if p < bs then do {
        ino \<leftarrow> de_ino be d p;
        hit \<leftarrow> (if ino \<noteq> NO_ENTRY then de_name_is d p name else Some False);
        if hit then Some (Some (p, prev))
        else do { p' \<leftarrow> next_disc_dir_desc be d p; find_dir_entry be bs d name (Some p) p' }
      } else Some None)"

text \<open>The change of the bytes that \<open>delete_dir_entry\<close> makes: the inode number is saved in the last
  bytes of the name, cleared, and the record is merged into the one before it.\<close>

definition delete_dir_bytes :: "bool \<Rightarrow> nat \<Rightarrow> nat option \<Rightarrow> bytes \<Rightarrow> bytes option" where
  "delete_dir_bytes be p prev d = do {
     len \<leftarrow> de_name_len d p;
     ino \<leftarrow> de_ino be d p;
     d \<leftarrow> (if 4 \<le> unat len then store (enc32 be ino) (p + 8 + (unat len - 4)) d else Some d);
     d \<leftarrow> store (enc32 be NO_ENTRY) p d;
     (case prev of
        None \<Rightarrow> Some d
      | Some q \<Rightarrow> do {
          rq \<leftarrow> de_rec_len be d q;
          rp \<leftarrow> de_rec_len be d p;
          store (enc16 be (bswap2 be (bswap2 be rq + bswap2 be rp))) (q + 4) d
        })
   }"

definition delete_dir_entry ::
    "'c block_cache \<Rightarrow> u32 \<Rightarrow> nat \<Rightarrow> nat \<Rightarrow> nat option \<Rightarrow> u32 \<Rightarrow> 'c ext_state \<Rightarrow> 'c ext_state option" where
  "delete_dir_entry bc now i p prev bp s = do {
     d \<leftarrow> delete_dir_bytes (be_cpu s) p prev (block_data bc bp s);
     let s = block_markdirty bc bp (set_block_data bc bp d s);
     let s = upd_odi i (\<lambda>n. n\<lparr>i_flags := and (i_flags n) (not EXT2_INDEX_FL)\<rparr>) s;
     let s = inode_markdirty i (upd_inode i (\<lambda>n. n\<lparr>i_update := or (i_update n) (or CTIME MTIME)\<rparr>) s);
     write_inode bc now i s
   }"

definition search_block_and_delete ::
    "'c block_cache \<Rightarrow> u32 \<Rightarrow> nat \<Rightarrow> u32 \<Rightarrow> bytes \<Rightarrow> 'c ext_state \<Rightarrow> (int \<times> 'c ext_state) option" where
  "search_block_and_delete bc now i bp name s = do {
     r \<leftarrow> find_dir_entry (be_cpu s) (block_size s) (block_data bc bp s) name None 0;
     (case r of
        None \<Rightarrow> Some (- ENOENT, s)
      | Some (p, prev) \<Rightarrow> do {
          s \<leftarrow> delete_dir_entry bc now i p prev bp s;
          Some (0, s)
        })
   }"

partial_function (option) dirent_delete_loop ::
    "'c block_cache \<Rightarrow> u32 \<Rightarrow> nat \<Rightarrow> bytes \<Rightarrow> int \<Rightarrow> 'c ext_state \<Rightarrow> (int \<times> 'c ext_state) option" where
  "dirent_delete_loop bc now i name pos s =
     (if off_lt pos (i_size (odi (the_inode i s))) then do {
        (bp, s) \<leftarrow> get_dir_block_or_panic bc i pos s;
        (r, s) \<leftarrow> search_block_and_delete bc now i bp name s;
        if r = 0 then Some (0, put_block bc bp s)
        else do {
          pos' \<leftarrow> off_add pos (block_size s);
          dirent_delete_loop bc now i name pos' (put_block bc bp s)
        }
      } else Some (- ENOENT, s))"

definition dirent_delete ::
    "'c block_cache \<Rightarrow> u32 \<Rightarrow> nat \<Rightarrow> bytes \<Rightarrow> 'c ext_state \<Rightarrow> (int \<times> 'c ext_state) option" where
  "dirent_delete bc now i name s = do {
     len \<leftarrow> c_strlen name;
     if EXT2_NAME_MAX < len then Some (- ENAMETOOLONG, s)
     else dirent_delete_loop bc now i name 0 s
   }"


section \<open>Empty directories\<close>

partial_function (option) is_dir_block_empty :: "bool \<Rightarrow> nat \<Rightarrow> bytes \<Rightarrow> nat \<Rightarrow> bool option" where
  "is_dir_block_empty be bs d p =
     (if p < bs then do {
        ino \<leftarrow> de_ino be d p;
        other \<leftarrow> (if ino \<noteq> NO_ENTRY then do {
                     dot \<leftarrow> de_name_is d p [46, 0];
                     if dot then Some False
                     else do { dotdot \<leftarrow> de_name_is d p [46, 46, 0]; Some (\<not> dotdot) }
                   } else Some False);
        if other then Some False
        else do { p' \<leftarrow> next_disc_dir_desc be d p; is_dir_block_empty be bs d p' }
      } else Some True)"

partial_function (option) is_dir_empty_loop ::
    "'c block_cache \<Rightarrow> nat \<Rightarrow> int \<Rightarrow> 'c ext_state \<Rightarrow> (bool \<times> 'c ext_state) option" where
  "is_dir_empty_loop bc i pos s =
     (if off_lt pos (i_size (odi (the_inode i s))) then do {
        (bp, s) \<leftarrow> get_dir_block_or_panic bc i pos s;
        empty \<leftarrow> is_dir_block_empty (be_cpu s) (block_size s) (block_data bc bp s) 0;
        if \<not> empty then Some (False, put_block bc bp s)
        else do {
          pos' \<leftarrow> off_add pos (block_size s);
          is_dir_empty_loop bc i pos' (put_block bc bp s)
        }
      } else Some (True, s))"

definition is_dir_empty :: "'c block_cache \<Rightarrow> nat \<Rightarrow> 'c ext_state \<Rightarrow> (bool \<times> 'c ext_state) option" where
  "is_dir_empty bc i s = is_dir_empty_loop bc i 0 s"


section \<open>Reading a directory\<close>

text \<open>C division, which rounds towards zero, of an offset by the block size.\<close>

definition block_base :: "int \<Rightarrow> nat \<Rightarrow> int" where
  "block_base pos bs =
     (if 0 \<le> pos then pos div int bs * int bs else - ((- pos) div int bs * int bs))"

text \<open>\<open>seek_to_valid_dirent\<close>; \<open>scan\<close> is \<open>scan_pos - base_pos\<close> and \<open>target\<close> is \<open>pos - base_pos\<close>.\<close>

partial_function (option) seek_dirent ::
    "bool \<Rightarrow> nat \<Rightarrow> bytes \<Rightarrow> int \<Rightarrow> int \<Rightarrow> nat \<Rightarrow> nat option option" where
  "seek_dirent be bs d target scan p = do {
     rl \<leftarrow> de_rec_len be d p;
     let le = int (unat (bswap2 be rl));
     if scan + le \<le> target \<and> p + unat rl < bs
     then (if le = 0 then None else seek_dirent be bs d target (scan + le) (p + unat rl))
     else Some (if int bs \<le> scan then None else Some p)
   }"

text \<open>
  \<open>dirent_buf_add\<close>: the records are kept as a list and \<open>position\<close> is the number of bytes they take.
  The cookie of every record is 0.
\<close>

record dirent_buf =
  db_data :: "dirent list"
  db_size :: nat
  db_position :: nat

definition dirent_buf_init :: "nat \<Rightarrow> dirent_buf" where
  "dirent_buf_init sz = \<lparr>db_data = [], db_size = sz, db_position = 0\<rparr>"

definition dirent_buf_add ::
    "nat \<Rightarrow> dirent_buf \<Rightarrow> u32 \<Rightarrow> bytes \<Rightarrow> nat \<Rightarrow> (nat \<times> dirent_buf) option" where
  "dirent_buf_add dno db ino_nr name namelen =
     (let reclen = ALIGN_UP (dno + namelen + 1) 8 in
      if db_position db + reclen \<le> db_size db then
        (if length name < namelen then None
         else Some (reclen, db\<lparr>
                db_data := db_data db @ [\<lparr>d_name = take namelen name, d_ino = uint ino_nr,
                                          d_cookie = 0, d_reclen = reclen\<rparr>],
                db_position := db_position db + reclen\<rparr>))
      else Some (0, db))"

partial_function (option) fill_dirent_buf ::
    "bool \<Rightarrow> nat \<Rightarrow> nat \<Rightarrow> bytes \<Rightarrow> nat \<Rightarrow> dirent_buf \<Rightarrow> (bool \<times> nat \<times> dirent_buf) option" where
  "fill_dirent_buf be dno bs d p db =
     (if p < bs then do {
        ino \<leftarrow> de_ino be d p;
        (full, db) \<leftarrow>
          (if ino \<noteq> 0 then do {
             len \<leftarrow> de_name_len d p;
             (r, db) \<leftarrow> dirent_buf_add dno db (bswap4 be ino) (de_name d p) (unat len);
             Some (r = 0, db)
           } else Some (False, db));
        if full then Some (True, p, db)
        else do { p' \<leftarrow> next_disc_dir_desc be d p; fill_dirent_buf be dno bs d p' db }
      } else Some (False, p, db))"

partial_function (option) get_dirents_loop ::
    "'c block_cache \<Rightarrow> nat \<Rightarrow> nat \<Rightarrow> bool \<Rightarrow> int \<Rightarrow> dirent_buf \<Rightarrow> 'c ext_state \<Rightarrow>
     (int \<times> dirent_buf \<times> 'c ext_state) option" where
  "get_dirents_loop bc dno i full pos db s =
     (if \<not> full \<and> off_lt pos (i_size (odi (the_inode i s))) then do {
        (bp, s) \<leftarrow> get_dir_block_or_panic bc i pos s;
        let base = block_base pos (block_size s);
        r \<leftarrow> seek_dirent (be_cpu s) (block_size s) (block_data bc bp s) (pos - base) 0 0;
        (case r of
           None \<Rightarrow> do {
             pos' \<leftarrow> off_add base (block_size s);
             get_dirents_loop bc dno i False pos' db (put_block bc bp s)
           }
         | Some p \<Rightarrow> do {
             (full, p, db) \<leftarrow>
               fill_dirent_buf (be_cpu s) dno (block_size s) (block_data bc bp s) p db;
             pos' \<leftarrow> off_add base p;
             get_dirents_loop bc dno i full pos' db (put_block bc bp s)
           })
      } else Some (pos, db, s))"

text \<open>The returned size, or an error, the new cookie and the records.\<close>

definition get_dirents ::
    "'c block_cache \<Rightarrow> nat \<Rightarrow> nat \<Rightarrow> 64 word \<Rightarrow> nat \<Rightarrow> 'c ext_state \<Rightarrow>
     (int \<times> 64 word \<times> dirent list \<times> 'c ext_state) option" where
  "get_dirents bc dno i cookie sz s =
     (let pos = sint (ucast cookie :: u32) in
      if unat (ucast cookie :: u32) mod 4 \<noteq> 0 then Some (- ENOENT, cookie, [], s)
      else do {
        (pos, db, s) \<leftarrow> get_dirents_loop bc dno i False pos (dirent_buf_init sz) s;
        let s = inode_markdirty i (upd_inode i (\<lambda>n. n\<lparr>i_update := or (i_update n) ATIME\<rparr>) s);
        Some (int (db_position db), word_of_int pos, db_data db, s)
      })"

end
