(* ===== verification/ExtFile.thy ===== *)
theory ExtFile
  imports ExtDir
begin

text \<open>
  Reading and writing files: read.c and write.c. The bytes sent with \<open>writemsg\<close> are the outputs;
  what \<open>writemsg\<close> returns for an offset and a length, and what \<open>readmsg\<close> returns and delivers, are
  the arguments \<open>wm\<close> and \<open>rm\<close>. File positions are 64-bit offsets, sizes are 32-bit words.
\<close>

text \<open>\<open>position % sb_block_size\<close>, which has the sign of the position, as an unsigned int.\<close>

definition offset_in_block :: "int \<Rightarrow> nat \<Rightarrow> u32" where
  "offset_in_block pos bs = word_of_int (if 0 \<le> pos then pos mod int bs else - ((- pos) mod int bs))"


section \<open>Reading\<close>

function read_nonexistent_block ::
    "(nat \<Rightarrow> nat \<Rightarrow> int) \<Rightarrow> nat \<Rightarrow> nat \<Rightarrow> ipc_out list \<Rightarrow> int \<times> ipc_out list" where
  "read_nonexistent_block wm msg_off remaining out =
     (if remaining = 0 then (0, out)
      else let n = (if remaining < 4096 then remaining else 4096);
               out = out @ [WriteBytes (replicate n 0) msg_off]
           in if wm msg_off n \<noteq> int n then (- EIO, out)
              else read_nonexistent_block wm (msg_off + n) (remaining - n) out)"
  by pat_completeness auto
termination
  by (relation "measure (\<lambda>(wm, m, remaining, out). remaining)") (auto split: if_splits)

declare read_nonexistent_block.simps [simp del]

definition read_chunk ::
    "'c block_cache \<Rightarrow> (nat \<Rightarrow> nat \<Rightarrow> int) \<Rightarrow> nat \<Rightarrow> int \<Rightarrow> u32 \<Rightarrow> u32 \<Rightarrow> u32 \<Rightarrow> 'c ext_state \<Rightarrow>
     (int \<times> ipc_out list \<times> 'c ext_state) option" where
  "read_chunk bc wm i position off chunk_size msg_off s = do {
     (block, s) \<leftarrow> read_map_entry bc i (word_of_int position) s;
     if block = NO_BLOCK then
       (case read_nonexistent_block wm (unat msg_off) (unat chunk_size) [] of
          (sc, out) \<Rightarrow> Some (sc, out, s))
     else
       (case bc_get_readahead bc block (blocks s) of
          (False, c) \<Rightarrow> None
        | (True, c) \<Rightarrow>
            let s = s\<lparr>blocks := c\<rparr>; d = block_data bc block s in
            if length d < unat off + unat chunk_size then None
            else let out = [WriteBytes (slice (unat off) (unat chunk_size) d) (unat msg_off)];
                     sc = wm (unat msg_off) (unat chunk_size);
                     s = put_block bc block s
                 in Some (if (word_of_int sc :: u32) \<noteq> chunk_size then - EIO else 0, out, s))
   }"

text \<open>The loop of \<open>read_file\<close>: the status, the bytes transferred and the messages.\<close>

partial_function (option) read_file_loop ::
    "'c block_cache \<Rightarrow> (nat \<Rightarrow> nat \<Rightarrow> int) \<Rightarrow> nat \<Rightarrow> int \<Rightarrow> u32 \<Rightarrow> u32 \<Rightarrow> int \<Rightarrow> ipc_out list \<Rightarrow>
     'c ext_state \<Rightarrow> (int \<times> u32 \<times> ipc_out list \<times> 'c ext_state) option" where
  "read_file_loop bc wm i file_size nrbytes total_xfered position out s =
     (if total_xfered < nrbytes then
        if sb_block_size s = 0 then None
        else let off = offset_in_block position (block_size s);
                 chunk = ucast (sb_block_size s) - off;
                 chunk = (if nrbytes < chunk then nrbytes else chunk)
             in
        if file_size \<le> position then Some (0, total_xfered, out, s)
        else let bytes_left = file_size - position;
                 chunk = (if bytes_left < uint chunk then word_of_int bytes_left else chunk)
             in do {
          (res, o1, s) \<leftarrow> read_chunk bc wm i position off chunk total_xfered s;
          if res \<noteq> 0 then Some (res, total_xfered, out @ o1, s)
          else read_file_loop bc wm i file_size nrbytes (total_xfered + chunk) (position + uint chunk) (out @ o1) s
        }
      else Some (0, total_xfered, out, s))"

definition read_file ::
    "'c block_cache \<Rightarrow> (nat \<Rightarrow> nat \<Rightarrow> int) \<Rightarrow> u32 \<Rightarrow> u32 \<Rightarrow> int \<Rightarrow> 'c ext_state \<Rightarrow>
     (int \<times> ipc_out list \<times> 'c ext_state) option" where
  "read_file bc wm ino_nr nrbytes position s = do {
     found \<leftarrow> find_inode ino_nr s;
     (case found of
        None \<Rightarrow> Some (- EINVAL, [], s)
      | Some i \<Rightarrow> do {
          let file_size = uint (i_size (odi (the_inode i s)));
          (res, total_xfered, out, s) \<leftarrow> read_file_loop bc wm i file_size nrbytes 0 position [] s;
          if res \<noteq> 0 then Some (res, out, s)
          else let s = inode_markdirty i (upd_inode i (\<lambda>n. n\<lparr>i_update := or (i_update n) ATIME\<rparr>) s)
               in Some (sint total_xfered, out, s)
        })
   }"


section \<open>Writing\<close>

definition write_chunk ::
    "'c block_cache \<Rightarrow> (nat \<Rightarrow> nat \<Rightarrow> int \<times> bytes) \<Rightarrow> nat \<Rightarrow> nat \<Rightarrow> int \<Rightarrow> u32 \<Rightarrow> u32 \<Rightarrow> u32 \<Rightarrow>
     'c ext_state \<Rightarrow> (int \<times> 'c ext_state) option" where
  "write_chunk bc rm rnd i position off chunk_size msg_off s = do {
     (block, s) \<leftarrow> read_map_entry bc i (word_of_int position) s;
     (r, s) \<leftarrow>
       (if block = NO_BLOCK then new_block bc rnd i (word_of_int position) s
        else do {
          s \<leftarrow> get_block bc block
                 (if chunk_size = ucast (sb_block_size s) then BLK_CLEAR
                  else if off = 0 \<and> uint (i_size (odi (the_inode i s))) \<le> position then BLK_CLEAR
                  else BLK_READ) s;
          Some (Some block, s)
        });
     (case r of
        None \<Rightarrow> Some (- EIO, s)
      | Some buf \<Rightarrow>
          (case rm (unat msg_off) (unat chunk_size) of
             (sc, payload) \<Rightarrow> do {
               d \<leftarrow> store (take (unat chunk_size) payload) (unat off) (block_data bc buf s);
               let s = put_block bc buf (block_markdirty bc buf (set_block_data bc buf d s));
               Some (if (word_of_int sc :: u32) \<noteq> chunk_size then - EIO else 0, s)
             }))
   }"

partial_function (option) write_file_loop ::
    "'c block_cache \<Rightarrow> (nat \<Rightarrow> nat \<Rightarrow> int \<times> bytes) \<Rightarrow> nat \<Rightarrow> nat \<Rightarrow> u32 \<Rightarrow> u32 \<Rightarrow> int \<Rightarrow>
     'c ext_state \<Rightarrow> (int \<times> u32 \<times> int \<times> 'c ext_state) option" where
  "write_file_loop bc rm rnd i nbytes total_xfered position s =
     (if nbytes \<noteq> 0 then
        if sb_block_size s = 0 then None
        else let off = offset_in_block position (block_size s);
                 chunk = ucast (sb_block_size s) - off;
                 chunk = (if nbytes < chunk then nbytes else chunk)
             in do {
          (sc, s) \<leftarrow> write_chunk bc rm rnd i position off chunk total_xfered s;
          if sc \<noteq> 0 then Some (sc, total_xfered, position, s)
          else write_file_loop bc rm rnd i (nbytes - chunk) (total_xfered + chunk) (position + uint chunk) s
        }
      else Some (0, total_xfered, position, s))"

definition write_file ::
    "'c block_cache \<Rightarrow> (nat \<Rightarrow> nat \<Rightarrow> int \<times> bytes) \<Rightarrow> u32 \<Rightarrow> nat \<Rightarrow> u32 \<Rightarrow> u32 \<Rightarrow> int \<Rightarrow> 'c ext_state \<Rightarrow>
     (int \<times> 'c ext_state) option" where
  "write_file bc rm now rnd ino_nr nbytes position s = do {
     found \<leftarrow> find_inode ino_nr s;
     (case found of
        None \<Rightarrow> Some (- EINVAL, s)
      | Some i \<Rightarrow>
          (let file_size = uint (i_size (odi (the_inode i s))) in
           if sint (sb_max_size s - nbytes) < position then Some (- EFBIG, s)
           else do {
             (sc, total_xfered, position, s) \<leftarrow> write_file_loop bc rm rnd i nbytes 0 position s;
             let mode = ucast (i_mode (odi (the_inode i s)));
             let s = (if (S_ISREG mode \<or> S_ISDIR mode) \<and> file_size < position
                      then upd_odi i (\<lambda>n. n\<lparr>i_size := word_of_int position\<rparr>) s else s);
             if sc \<noteq> 0 then Some (sc, s)
             else do {
               let s = inode_markdirty i
                         (upd_inode i (\<lambda>n. n\<lparr>i_update := or (i_update n) (or CTIME MTIME)\<rparr>) s);
               s \<leftarrow> write_inode bc now i s;
               Some (sint total_xfered, s)
             }
           }))
   }"

end
