(* ===== verification/ExtSuper.thy ===== *)
theory ExtSuper
  imports ExtTypes
begin

text \<open>
  superblock.c and group_descriptors.c: reading the superblock and the group descriptors from the
  device into the state, and writing them back. What \<open>read\<close> delivers from a position of the
  device is an argument (fewer bytes than asked for on a short read or an error); writes are
  returned as a list of positions and bytes.
\<close>

section \<open>The superblock on disk\<close>

definition superblock_bytes :: "bool \<Rightarrow> superblock \<Rightarrow> bytes" where
  "superblock_bytes be sp =
     enc32 be (s_inodes_count sp) @ enc32 be (s_blocks_count sp) @
     enc32 be (s_r_blocks_count sp) @ enc32 be (s_free_blocks_count sp) @
     enc32 be (s_free_inodes_count sp) @ enc32 be (s_first_data_block sp) @
     enc32 be (s_log_block_size sp) @ enc32 be (s_log_frag_size sp) @
     enc32 be (s_blocks_per_group sp) @ enc32 be (s_frags_per_group sp) @
     enc32 be (s_inodes_per_group sp) @ enc32 be (s_mtime sp) @ enc32 be (s_wtime sp) @
     enc16 be (s_mnt_count sp) @ enc16 be (s_max_mnt_count sp) @ enc16 be (s_magic sp) @
     enc16 be (s_state sp) @ enc16 be (s_errors sp) @ enc16 be (s_minor_rev_level sp) @
     enc32 be (s_lastcheck sp) @ enc32 be (s_checkinterval sp) @ enc32 be (s_creator_os sp) @
     enc32 be (s_rev_level sp) @ enc16 be (s_def_resuid sp) @ enc16 be (s_def_resgid sp) @
     enc32 be (s_first_ino sp) @ enc16 be (s_inode_size sp) @ enc16 be (s_block_group_nr sp) @
     enc32 be (s_feature_compat sp) @ enc32 be (s_feature_incompat sp) @
     enc32 be (s_feature_ro_compat sp) @ s_uuid sp @ s_volume_name sp @ s_last_mounted sp @
     enc32 be (s_algorithm_usage_bitmap sp) @ [s_prealloc_blocks sp] @
     [s_prealloc_dir_blocks sp] @ enc16 be (s_padding1 sp) @ s_tail sp"

definition superblock_read :: "bool \<Rightarrow> bytes \<Rightarrow> superblock option" where
  "superblock_read be bs = do {
     (v_inodes_count, bs) \<leftarrow> p32 be bs; (v_blocks_count, bs) \<leftarrow> p32 be bs;
     (v_r_blocks_count, bs) \<leftarrow> p32 be bs;
     (v_free_blocks_count, bs) \<leftarrow> p32 be bs;
     (v_free_inodes_count, bs) \<leftarrow> p32 be bs;
     (v_first_data_block, bs) \<leftarrow> p32 be bs;
     (v_log_block_size, bs) \<leftarrow> p32 be bs;
     (v_log_frag_size, bs) \<leftarrow> p32 be bs;
     (v_blocks_per_group, bs) \<leftarrow> p32 be bs;
     (v_frags_per_group, bs) \<leftarrow> p32 be bs;
     (v_inodes_per_group, bs) \<leftarrow> p32 be bs; (v_mtime, bs) \<leftarrow> p32 be bs;
     (v_wtime, bs) \<leftarrow> p32 be bs; (v_mnt_count, bs) \<leftarrow> p16 be bs;
     (v_max_mnt_count, bs) \<leftarrow> p16 be bs; (v_magic, bs) \<leftarrow> p16 be bs;
     (v_state, bs) \<leftarrow> p16 be bs; (v_errors, bs) \<leftarrow> p16 be bs;
     (v_minor_rev_level, bs) \<leftarrow> p16 be bs; (v_lastcheck, bs) \<leftarrow> p32 be bs;
     (v_checkinterval, bs) \<leftarrow> p32 be bs; (v_creator_os, bs) \<leftarrow> p32 be bs;
     (v_rev_level, bs) \<leftarrow> p32 be bs; (v_def_resuid, bs) \<leftarrow> p16 be bs;
     (v_def_resgid, bs) \<leftarrow> p16 be bs; (v_first_ino, bs) \<leftarrow> p32 be bs;
     (v_inode_size, bs) \<leftarrow> p16 be bs; (v_block_group_nr, bs) \<leftarrow> p16 be bs;
     (v_feature_compat, bs) \<leftarrow> p32 be bs;
     (v_feature_incompat, bs) \<leftarrow> p32 be bs;
     (v_feature_ro_compat, bs) \<leftarrow> p32 be bs; (v_uuid, bs) \<leftarrow> pbytes 16 bs;
     (v_volume_name, bs) \<leftarrow> pbytes 16 bs;
     (v_last_mounted, bs) \<leftarrow> pbytes 64 bs;
     (v_algorithm_usage_bitmap, bs) \<leftarrow> p32 be bs;
     (v_prealloc_blocks, bs) \<leftarrow> pbytes 1 bs;
     (v_prealloc_dir_blocks, bs) \<leftarrow> pbytes 1 bs;
     (v_padding1, bs) \<leftarrow> p16 be bs; (v_tail, bs) \<leftarrow> pbytes 816 bs;
     Some \<lparr>
       s_inodes_count = v_inodes_count, s_blocks_count = v_blocks_count,
       s_r_blocks_count = v_r_blocks_count, s_free_blocks_count = v_free_blocks_count,
       s_free_inodes_count = v_free_inodes_count, s_first_data_block = v_first_data_block,
       s_log_block_size = v_log_block_size, s_log_frag_size = v_log_frag_size,
       s_blocks_per_group = v_blocks_per_group, s_frags_per_group = v_frags_per_group,
       s_inodes_per_group = v_inodes_per_group, s_mtime = v_mtime, s_wtime = v_wtime,
       s_mnt_count = v_mnt_count, s_max_mnt_count = v_max_mnt_count, s_magic = v_magic,
       s_state = v_state, s_errors = v_errors, s_minor_rev_level = v_minor_rev_level,
       s_lastcheck = v_lastcheck, s_checkinterval = v_checkinterval,
       s_creator_os = v_creator_os, s_rev_level = v_rev_level, s_def_resuid = v_def_resuid,
       s_def_resgid = v_def_resgid, s_first_ino = v_first_ino, s_inode_size = v_inode_size,
       s_block_group_nr = v_block_group_nr, s_feature_compat = v_feature_compat,
       s_feature_incompat = v_feature_incompat, s_feature_ro_compat = v_feature_ro_compat,
       s_uuid = v_uuid, s_volume_name = v_volume_name, s_last_mounted = v_last_mounted,
       s_algorithm_usage_bitmap = v_algorithm_usage_bitmap,
       s_prealloc_blocks = hd v_prealloc_blocks,
       s_prealloc_dir_blocks = hd v_prealloc_dir_blocks, s_padding1 = v_padding1,
       s_tail = v_tail\<rparr>
   }"

definition super_copy :: "bool \<Rightarrow> superblock \<Rightarrow> superblock \<Rightarrow> superblock" where
  "super_copy be dest src = dest\<lparr>
     s_inodes_count := bswap4 be (s_inodes_count src),
     s_blocks_count := bswap4 be (s_blocks_count src),
     s_r_blocks_count := bswap4 be (s_r_blocks_count src),
     s_free_blocks_count := bswap4 be (s_free_blocks_count src),
     s_free_inodes_count := bswap4 be (s_free_inodes_count src),
     s_first_data_block := bswap4 be (s_first_data_block src),
     s_log_block_size := bswap4 be (s_log_block_size src),
     s_log_frag_size := bswap4 be (s_log_frag_size src),
     s_blocks_per_group := bswap4 be (s_blocks_per_group src),
     s_frags_per_group := bswap4 be (s_frags_per_group src),
     s_inodes_per_group := bswap4 be (s_inodes_per_group src),
     s_mtime := bswap4 be (s_mtime src), s_wtime := bswap4 be (s_wtime src),
     s_mnt_count := bswap2 be (s_mnt_count src),
     s_max_mnt_count := bswap2 be (s_max_mnt_count src), s_magic := bswap2 be (s_magic src),
     s_state := bswap2 be (s_state src), s_errors := bswap2 be (s_errors src),
     s_minor_rev_level := bswap2 be (s_minor_rev_level src),
     s_lastcheck := bswap4 be (s_lastcheck src),
     s_checkinterval := bswap4 be (s_checkinterval src),
     s_creator_os := bswap4 be (s_creator_os src), s_rev_level := bswap4 be (s_rev_level src),
     s_def_resuid := bswap2 be (s_def_resuid src),
     s_def_resgid := bswap2 be (s_def_resgid src), s_first_ino := bswap4 be (s_first_ino src),
     s_inode_size := bswap2 be (s_inode_size src),
     s_block_group_nr := bswap2 be (s_block_group_nr src),
     s_feature_compat := bswap4 be (s_feature_compat src),
     s_feature_incompat := bswap4 be (s_feature_incompat src),
     s_feature_ro_compat := bswap4 be (s_feature_ro_compat src),
     s_algorithm_usage_bitmap := bswap4 be (s_algorithm_usage_bitmap src),
     s_padding1 := bswap2 be (s_padding1 src), s_uuid := s_uuid src,
     s_volume_name := s_volume_name src, s_last_mounted := s_last_mounted src,
     s_prealloc_blocks := s_prealloc_blocks src,
     s_prealloc_dir_blocks := s_prealloc_dir_blocks src\<rparr>"


section \<open>Group descriptors\<close>

definition gd_copy :: "bool \<Rightarrow> group_desc \<Rightarrow> group_desc \<Rightarrow> group_desc" where
  "gd_copy be dest src = dest\<lparr>
     g_block_bitmap := bswap4 be (g_block_bitmap src),
     g_inode_bitmap := bswap4 be (g_inode_bitmap src),
     g_inode_table := bswap4 be (g_inode_table src),
     g_free_blocks_count := bswap2 be (g_free_blocks_count src),
     g_free_inodes_count := bswap2 be (g_free_inodes_count src),
     g_used_dirs_count := bswap2 be (g_used_dirs_count src)\<rparr>"

text \<open>The loop over \<open>ngroups\<close> descriptors; both arrays must have that many.\<close>

fun copy_group_descriptors ::
    "bool \<Rightarrow> group_desc list \<Rightarrow> group_desc list \<Rightarrow> nat \<Rightarrow> group_desc list option" where
  "copy_group_descriptors be dest src 0 = Some dest"
| "copy_group_descriptors be (d # dest) (g # src) (Suc n) =
     map_option (\<lambda>ds. gd_copy be d g # ds) (copy_group_descriptors be dest src n)"
| "copy_group_descriptors be dest src (Suc n) = None"

fun ext2_count_dirs_from :: "nat \<Rightarrow> nat \<Rightarrow> 'c ext_state \<Rightarrow> u32 \<Rightarrow> u32" where
  "ext2_count_dirs_from 0 i s count = count"
| "ext2_count_dirs_from (Suc n) i s count =
     (case get_group_desc (word_of_nat i) s of
        None \<Rightarrow> ext2_count_dirs_from n (Suc i) s count
      | Some desc \<Rightarrow> ext2_count_dirs_from n (Suc i) s (count + ucast (g_used_dirs_count desc)))"

definition ext2_count_dirs :: "'c ext_state \<Rightarrow> u32" where
  "ext2_count_dirs s = ext2_count_dirs_from (unat (sb_groups_count s)) 0 s 0"

fun read_group_descs :: "bool \<Rightarrow> nat \<Rightarrow> bytes \<Rightarrow> group_desc list option" where
  "read_group_descs be 0 bs = Some []"
| "read_group_descs be (Suc n) bs = do {
     (g, bs) \<leftarrow> group_desc_read be bs;
     gs \<leftarrow> read_group_descs be n bs;
     Some (g # gs)
   }"

definition zero_group_desc :: group_desc where
  "zero_group_desc =
     \<lparr>g_block_bitmap = 0, g_inode_bitmap = 0, g_inode_table = 0, g_free_blocks_count = 0,
      g_free_inodes_count = 0, g_used_dirs_count = 0, g_pad = 0, g_reserved = replicate 12 0\<rparr>"


section \<open>Reading the superblock\<close>

abbreviation (input) SUPER_MAGIC :: u16 where "SUPER_MAGIC \<equiv> 0xEF53"
abbreviation (input) SUPERBLOCK_OFFSET :: "64 word" where "SUPERBLOCK_OFFSET \<equiv> 1024"
abbreviation (input) SUPERBLOCK_SIZE :: nat where "SUPERBLOCK_SIZE \<equiv> 1024"
abbreviation (input) EXT2_DYNAMIC_REV :: u32 where "EXT2_DYNAMIC_REV \<equiv> 1"
abbreviation (input) EXT2_GOOD_OLD_INODE_SIZE :: u32 where "EXT2_GOOD_OLD_INODE_SIZE \<equiv> 128"
abbreviation (input) EXT2_GOOD_OLD_FIRST_INO :: u32 where "EXT2_GOOD_OLD_FIRST_INO \<equiv> 11"

text \<open>
  The checks and the derived values, up to the group descriptor table. \<open>1024 * (1 << n)\<close> is an
  int: from n = 21 on it overflows. The divisions have no result on zero.
\<close>

definition read_superblock_geometry :: "'c ext_state \<Rightarrow> (int \<times> 'c ext_state) option" where
  "read_superblock_geometry s =
     (let sp = superblock s; lg = unat (s_log_block_size sp) in
      if s_magic sp \<noteq> SUPER_MAGIC then Some (- EINVAL, s)
      else if 21 \<le> lg then None
      else let s = s\<lparr>sb_block_size := word_of_nat (1024 * 2 ^ lg)\<rparr> in
      if block_size s mod 512 \<noteq> 0 then Some (- EINVAL, s)
      else if block_size s < SUPERBLOCK_SIZE then Some (- EINVAL, s)
      else let s = s\<lparr>sb_sectors_in_block := sb_block_size s div 512\<rparr>;
               s = (if s_rev_level sp = EXT2_DYNAMIC_REV
                    then s\<lparr>sb_inode_size := ucast (s_inode_size sp), sb_first_ino := s_first_ino sp\<rparr>
                    else s\<lparr>sb_inode_size := EXT2_GOOD_OLD_INODE_SIZE,
                           sb_first_ino := EXT2_GOOD_OLD_FIRST_INO\<rparr>)
           in
      if and (sb_inode_size s) (sb_inode_size s - 1) \<noteq> 0 \<or> ucast (sb_block_size s) < sb_inode_size s
      then Some (- EINVAL, s)
      else if sb_inode_size s = 0 then None
      else let s = s\<lparr>sb_blocksize_bits := ucast (s_log_block_size sp) + 10,
                     sb_max_size := 0x7FFFFFFF,
                     sb_inodes_per_block := ucast (sb_block_size s) div sb_inode_size s\<rparr>
           in
      if sb_inodes_per_block s = 0 \<or> s_inodes_per_group sp = 0 then Some (- EINVAL, s)
      else if s_blocks_per_group sp = 0 then None
      else let s = s\<lparr>sb_inode_table_blocks_per_group :=
                       s_inodes_per_group sp div sb_inodes_per_block s,
                     sb_desc_per_block := ucast (sb_block_size s) div 32,
                     sb_groups_count :=
                       (s_blocks_count sp - s_first_data_block sp - 1) div s_blocks_per_group sp + 1\<rparr>;
               s = s\<lparr>sb_group_desc_block_count :=
                       (sb_groups_count s + sb_desc_per_block s - 1) div sb_desc_per_block s,
                     sb_gdt_position :=
                       ucast ((s_first_data_block sp + 1) * ucast (sb_block_size s))\<rparr>
           in Some (0, s))"

text \<open>The variables that locate a block in the indirection tree.\<close>

definition precalculate_indirection :: "'c ext_state \<Rightarrow> 'c ext_state" where
  "precalculate_indirection s =
     (let aib = ucast (sb_block_size s) div 4;
          aib2 = aib * aib;
          dbl = word_of_nat EXT2_NDIR_BLOCKS + aib
      in s\<lparr>sb_addr_in_block := aib, sb_addr_in_block2 := aib2, sb_doub_ind_s := dbl,
           sb_triple_ind_s := dbl + aib2, sb_out_range_s := 0xFFFF0000\<rparr>)"

text \<open>\<open>rd pos n\<close> is what \<open>read\<close> delivers of \<open>n\<close> bytes at a position of the device.\<close>

definition read_superblock ::
    "(64 word \<Rightarrow> nat \<Rightarrow> bytes) \<Rightarrow> 'c ext_state \<Rightarrow> (int \<times> 'c ext_state) option" where
  "read_superblock rd s =
     (let bs = rd SUPERBLOCK_OFFSET SUPERBLOCK_SIZE in
      if length bs \<noteq> SUPERBLOCK_SIZE then Some (- EINVAL, s)
      else do {
        disk \<leftarrow> superblock_read (be_cpu s) bs;
        let s = s\<lparr>ondisk_superblock := disk,
                  superblock := super_copy (be_cpu s) (superblock s) disk\<rparr>;
        (sc, s) \<leftarrow> read_superblock_geometry s;
        if sc \<noteq> 0 then Some (sc, s)
        else do {
          let n = unat (sb_groups_count s);
          let gdt = rd (sb_gdt_position s) (n * group_desc_size);
          if length gdt \<noteq> n * group_desc_size then Some (- EINVAL, s)
          else do {
            od \<leftarrow> read_group_descs (be_cpu s) n gdt;
            gds \<leftarrow> copy_group_descriptors (be_cpu s) (replicate n zero_group_desc) od n;
            let s = s\<lparr>ondisk_group_descs := od, group_descs := gds\<rparr>;
            if s_inodes_count (superblock s) < 1 \<or> s_blocks_count (superblock s) < 1
            then Some (- EINVAL, s)
            else Some (0, precalculate_indirection (s\<lparr>sb_dirs_counter := ext2_count_dirs s\<rparr>))
          }
        }
      })"

text \<open>
  \<open>wr pos bs\<close> is the number of bytes \<open>write\<close> takes; the handler panics when it is not all of
  them. The result is what was written, in order.
\<close>

definition write_superblock ::
    "(64 word \<Rightarrow> bytes \<Rightarrow> nat) \<Rightarrow> 'c ext_state \<Rightarrow> ((64 word \<times> bytes) list \<times> 'c ext_state) option" where
  "write_superblock wr s =
     (let s = s\<lparr>ondisk_superblock := super_copy (be_cpu s) (ondisk_superblock s) (superblock s)\<rparr>;
          sb = superblock_bytes (be_cpu s) (ondisk_superblock s)
      in
      if wr SUPERBLOCK_OFFSET sb \<noteq> SUPERBLOCK_SIZE then None
      else if sb_group_descriptors_dirty s then do {
        let n = unat (sb_groups_count s);
        od \<leftarrow> copy_group_descriptors (be_cpu s) (ondisk_group_descs s) (group_descs s) n;
        let gdt = concat (map (group_desc_bytes (be_cpu s)) (take n od));
        if wr (sb_gdt_position s) gdt \<noteq> n * group_desc_size then None
        else Some ([(SUPERBLOCK_OFFSET, sb), (sb_gdt_position s, gdt)],
                   s\<lparr>ondisk_group_descs := od, sb_group_descriptors_dirty := False\<rparr>)
      } else Some ([(SUPERBLOCK_OFFSET, sb)], s))"


section \<open>Byte order and layout\<close>

lemma p32_host: "p32 False bs = map_option (map_prod (bswap4 be) id) (p32 be bs)"
  by (auto simp: p32_def ld32_def bswap4_dec32_host)
lemma p16_host: "p16 False bs = map_option (map_prod (bswap2 be) id) (p16 be bs)"
  by (auto simp: p16_def ld16_def bswap2_dec16_host)
lemma bind_map_option: "Option.bind (map_option f x) g = Option.bind x (\<lambda>y. g (f y))"
  by (cases x) auto
lemma map_option_bind': "map_option f (Option.bind x g) = Option.bind x (\<lambda>y. map_option f (g y))"
  by (cases x) auto
lemma superblock_host: "superblock_read False bs = map_option (\<lambda>sp. super_copy be sp sp) (superblock_read be bs)"
  unfolding superblock_read_def p32_host [of _ be] p16_host [of _ be]
  by (simp add: bind_map_option map_option_bind' case_prod_unfold super_copy_def)

definition superblock_sized :: "superblock \<Rightarrow> bool" where
  "superblock_sized sp \<longleftrightarrow> length (s_uuid sp) = 16 \<and> length (s_volume_name sp) = 16 \<and>
     length (s_last_mounted sp) = 64 \<and> length (s_tail sp) = 816"

lemma length_superblock_bytes: "superblock_sized sp \<Longrightarrow> length (superblock_bytes be sp) = 1024"
  by (simp add: superblock_bytes_def superblock_sized_def)

lemma superblock_read_bytes: "superblock_sized sp \<Longrightarrow> superblock_read be (superblock_bytes be sp) = Some sp"
  by (simp add: superblock_bytes_def superblock_read_def superblock_sized_def pbytes_def)

lemma super_copy_copy: "super_copy be d (super_copy be e sp) = sp\<lparr>s_tail := s_tail d\<rparr>"
  by (simp add: super_copy_def)

lemma superblock_sized_copy: "superblock_sized sp \<Longrightarrow> length (s_tail d) = 816 \<Longrightarrow> superblock_sized (super_copy be d sp)"
  by (simp add: super_copy_def superblock_sized_def)

lemma group_desc_read_bytes: "length (g_reserved g) = 12 \<Longrightarrow> group_desc_read be (group_desc_bytes be g @ bs) = Some (g, bs)"
  by (simp add: group_desc_read_def group_desc_bytes_def)

lemma length_group_desc_bytes: "length (g_reserved g) = 12 \<Longrightarrow> length (group_desc_bytes be g) = 32"
  by (simp add: group_desc_bytes_def)

lemma read_group_descs_bytes:
  "\<forall>g \<in> set gs. length (g_reserved g) = 12 \<Longrightarrow> n = length gs \<Longrightarrow>
   read_group_descs be n (concat (map (group_desc_bytes be) gs)) = Some gs"
  by (induction gs arbitrary: n) (auto simp: group_desc_read_bytes)

lemma length_group_descs_bytes:
  "\<forall>g \<in> set gs. length (g_reserved g) = 12 \<Longrightarrow> length (concat (map (group_desc_bytes be) gs)) = length gs * 32"
  by (induction gs) (auto simp: length_group_desc_bytes)

lemma copy_group_descriptors_map2:
  "length ds = n \<Longrightarrow> length gs = n \<Longrightarrow> copy_group_descriptors be ds gs n = Some (map2 (gd_copy be) ds gs)"
  by (induction be ds gs n rule: copy_group_descriptors.induct) auto

lemma gd_copy_copy: "gd_copy be d (gd_copy be e g) = g\<lparr>g_pad := g_pad d, g_reserved := g_reserved d\<rparr>"
  by (simp add: gd_copy_def)

lemma geometry_same_superblock:
  assumes "read_superblock_geometry s = Some (0, s')" and "superblock t = (superblock s)\<lparr>s_tail := x\<rparr>"
  shows "\<exists>t'. read_superblock_geometry t = Some (0, t') \<and> sb_groups_count t' = sb_groups_count s' \<and>
    sb_gdt_position t' = sb_gdt_position s' \<and> superblock t' = superblock t \<and> be_cpu t' = be_cpu t"
  using assms unfolding read_superblock_geometry_def Let_def
  by (auto split: if_splits)

definition gd_clean :: "group_desc \<Rightarrow> group_desc" where
  "gd_clean g = g\<lparr>g_pad := 0, g_reserved := replicate 12 0\<rparr>"

section \<open>Properties\<close>

text \<open>C19. Byte order does not matter: what \<open>super_copy\<close> makes of a superblock read on a host of either
  byte order is the superblock that the little-endian layout of the disk describes.\<close>

theorem superblock_host_independent:
  "superblock_read False bs = map_option (\<lambda>sp. super_copy be sp sp) (superblock_read be bs)"
  by (rule superblock_host)

text \<open>C20. A superblock and group descriptors written by \<open>write_superblock\<close> can be mounted again: a
  device that gives back the bytes written makes \<open>read_superblock\<close> succeed with the same superblock
  and the same descriptors, on a host of either byte order, apart from the bytes of padding.\<close>

theorem superblock_write_mount:
  assumes w: "write_superblock wr s = Some (ws, s')" and dirty: "sb_group_descriptors_dirty s"
    and n: "n = unat (sb_groups_count s)" "length (group_descs s) = n" "length (ondisk_group_descs s) = n"
    and sized: "superblock_sized (superblock s)" "length (s_tail (ondisk_superblock s)) = 816"
      "\<forall>g \<in> set (ondisk_group_descs s). length (g_reserved g) = 12"
    and geo: "read_superblock_geometry s = Some (0, g)" "sb_groups_count g = sb_groups_count s"
      "sb_gdt_position g = sb_gdt_position s"
    and nonempty: "s_inodes_count (superblock s) \<noteq> 0" "s_blocks_count (superblock s) \<noteq> 0"
    and rd: "\<forall>(pos, bs) \<in> set ws. rd pos (length bs) = bs"
    and t: "be_cpu t = be_cpu s" 
  shows "\<exists>t'. read_superblock rd t = Some (0, t') \<and>
    superblock t' = (superblock s)\<lparr>s_tail := s_tail (superblock t)\<rparr> \<and>
    group_descs t' = map gd_clean (group_descs s)"
proof -
  let ?be = "be_cpu s"
  let ?disk = "super_copy ?be (ondisk_superblock s) (superblock s)"
  let ?gds = "map2 (gd_copy ?be) (ondisk_group_descs s) (group_descs s)"
  let ?gdt = "concat (map (group_desc_bytes ?be) ?gds)"
  have disk: "superblock_sized ?disk" using sized by (simp add: superblock_sized_copy)
  have res: "\<forall>g \<in> set ?gds. length (g_reserved g) = 12"
    using sized(3) by (auto simp: gd_copy_def dest: set_zip_leftD)
  have cp: "copy_group_descriptors ?be (ondisk_group_descs s) (group_descs s) n = Some ?gds"
    by (rule copy_group_descriptors_map2 [OF n(3,2)])
  have lg: "length ?gds = n" using n by simp
  have ws: "ws = [(1024, superblock_bytes ?be ?disk), (sb_gdt_position s, ?gdt)]"
    using w dirty cp lg by (auto simp: write_superblock_def Let_def n(1) split: if_splits)
  have r1: "rd 1024 1024 = superblock_bytes ?be ?disk"
    using rd length_superblock_bytes [OF disk, of ?be] by (simp add: ws)
  have lgdt: "length ?gdt = n * 32" using length_group_descs_bytes [OF res, of ?be] lg by simp
  have r2: "rd (sb_gdt_position s) (n * 32) = ?gdt"
    using rd lgdt by (simp add: ws)
  define t1 where "t1 = t\<lparr>ondisk_superblock := ?disk, superblock := super_copy ?be (superblock t) ?disk\<rparr>"
  have sp: "superblock t1 = (superblock s)\<lparr>s_tail := s_tail (superblock t)\<rparr>"
    by (simp add: t1_def super_copy_copy)
  obtain t2 where t2: "read_superblock_geometry t1 = Some (0, t2)" "sb_groups_count t2 = sb_groups_count s"
    "sb_gdt_position t2 = sb_gdt_position s" "superblock t2 = superblock t1" "be_cpu t2 = ?be"
    using geometry_same_superblock [OF geo(1) sp] geo(2,3) t by (auto simp: t1_def)
  have od: "read_group_descs ?be n ?gdt = Some ?gds" by (rule read_group_descs_bytes [OF res lg [symmetric]])
  have gd: "copy_group_descriptors ?be (replicate n zero_group_desc) ?gds n =
    Some (map2 (gd_copy ?be) (replicate n zero_group_desc) ?gds)"
    by (rule copy_group_descriptors_map2) (simp_all add: n)
  have clean: "map2 (gd_copy ?be) (replicate n zero_group_desc) ?gds = map gd_clean (group_descs s)"
    using n by (intro nth_equalityI) (simp_all add: gd_copy_copy zero_group_desc_def gd_clean_def)
  have rd_sb: "superblock_read (be_cpu t) (rd 1024 1024) = Some ?disk"
    unfolding r1 t by (rule superblock_read_bytes [OF disk])
  have l1: "length (rd 1024 1024) = 1024" unfolding r1 by (rule length_superblock_bytes [OF disk])
  have "s_inodes_count (superblock t2) \<noteq> 0" "s_blocks_count (superblock t2) \<noteq> 0"
    using nonempty by (simp_all add: t2 sp)
  then have "read_superblock rd t = Some (0, precalculate_indirection
     (t2\<lparr>ondisk_group_descs := ?gds, group_descs := map gd_clean (group_descs s),
         sb_dirs_counter := ext2_count_dirs (t2\<lparr>ondisk_group_descs := ?gds,
            group_descs := map gd_clean (group_descs s)\<rparr>)\<rparr>))"
    using rd_sb l1 t2(1) od gd clean r2 lgdt
    by (simp add: read_superblock_def t1_def [symmetric] t2(2,3,5) n(1) [symmetric] t Let_def group_desc_size_def word_less_1)
  then show ?thesis by (simp add: precalculate_indirection_def Let_def t2 sp)
qed

text \<open>A file system of one group, as it is just before it is written.\<close>

definition demo_superblock :: superblock where
  "demo_superblock = zero_superblock\<lparr>s_inodes_count := 16, s_blocks_count := 64,
     s_first_data_block := 1, s_blocks_per_group := 8192, s_inodes_per_group := 16, s_magic := 0xEF53\<rparr>"

definition demo_mounted :: "bool \<Rightarrow> unit ext_state" where
  "demo_mounted be = (ext_globals ())\<lparr>be_cpu := be, superblock := demo_superblock,
     group_descs := [zero_group_desc\<lparr>g_inode_table := 5\<rparr>], ondisk_group_descs := [zero_group_desc],
     sb_groups_count := 1, sb_gdt_position := 2048, sb_group_descriptors_dirty := True\<rparr>"

definition demo_device :: "bool \<Rightarrow> 64 word \<Rightarrow> nat \<Rightarrow> bytes" where
  "demo_device be pos n =
     (if pos = 1024 then superblock_bytes be (super_copy be zero_superblock demo_superblock)
      else group_desc_bytes be (gd_copy be zero_group_desc (zero_group_desc\<lparr>g_inode_table := 5\<rparr>)))"

lemma demo_geometry:
  "\<exists>g. read_superblock_geometry (demo_mounted be) = Some (0, g) \<and> sb_groups_count g = 1 \<and>
     sb_gdt_position g = 2048"
  by (simp add: read_superblock_geometry_def demo_mounted_def demo_superblock_def zero_superblock_def
      ext_globals_def unsigned_ucast_eq)

lemma demo_written:
  "write_superblock (\<lambda>pos. length) (demo_mounted be) = Some
    ([(1024, superblock_bytes be (super_copy be zero_superblock demo_superblock)),
      (2048, group_desc_bytes be (gd_copy be zero_group_desc (zero_group_desc\<lparr>g_inode_table := 5\<rparr>)))],
     (demo_mounted be)\<lparr>
       ondisk_superblock := super_copy be zero_superblock demo_superblock,
       ondisk_group_descs := [gd_copy be zero_group_desc (zero_group_desc\<lparr>g_inode_table := 5\<rparr>)],
       sb_group_descriptors_dirty := False\<rparr>)"
proof -
  have "length (superblock_bytes be (super_copy be zero_superblock demo_superblock)) = 1024"
    by (rule length_superblock_bytes)
      (simp add: superblock_sized_def super_copy_def zero_superblock_def demo_superblock_def)
  moreover have "length (group_desc_bytes be (gd_copy be zero_group_desc
      (zero_group_desc\<lparr>g_inode_table := 5\<rparr>))) = 32"
    by (rule length_group_desc_bytes) (simp add: gd_copy_def zero_group_desc_def)
  ultimately show ?thesis
    by (simp add: write_superblock_def demo_mounted_def ext_globals_def group_desc_size_def)
qed

theorem superblock_write_mount_witness:
  "\<exists>t'. read_superblock (demo_device True) ((ext_globals ())\<lparr>be_cpu := True\<rparr>) = Some (0, t') \<and>
    superblock t' = (superblock (demo_mounted True))
      \<lparr>s_tail := s_tail (superblock ((ext_globals ())\<lparr>be_cpu := True\<rparr>))\<rparr> \<and>
    group_descs t' = map gd_clean (group_descs (demo_mounted True))"
proof -
  obtain g where g: "read_superblock_geometry (demo_mounted True) = Some (0, g)"
    "sb_groups_count g = 1" "sb_gdt_position g = 2048"
    using demo_geometry [of True] by auto
  show ?thesis
    by (rule superblock_write_mount [OF demo_written _ _ _ _ _ _ _ g(1), of 1])
      (simp_all add: g demo_mounted_def demo_device_def ext_globals_def superblock_sized_def
        demo_superblock_def zero_superblock_def zero_group_desc_def)
qed

end
