(* ===== verification/ExtOps.thy ===== *)
theory ExtOps
  imports ExtFile ExtSuper
begin

text \<open>
  Making inodes (inode.c), the request handlers (ops_dir.c, ops_file.c, ops_link.c, ops_prot.c)
  and the dispatch of main.c. \<open>stk\<close> gives the old contents of the local name buffers, which are
  not terminated after \<open>readmsg\<close>; \<open>link_max\<close> is LINK_MAX of limits.h.
\<close>

section \<open>New inodes\<close>

definition alloc_inode ::
    "'c block_cache \<Rightarrow> nat \<Rightarrow> nat \<Rightarrow> u32 \<Rightarrow> u32 \<Rightarrow> u32 \<Rightarrow> 'c ext_state \<Rightarrow>
     (int \<times> nat option \<times> 'c ext_state) option" where
  "alloc_inode bc rnd parent mode uid gid s = do {
     grp \<leftarrow> (if S_ISDIR mode
               then find_free_inode_dir_group rnd (i_ino (the_inode parent s)) s
               else find_free_inode_file_group (i_ino (the_inode parent s)) s);
     if grp = NO_GROUP then Some (- ENOSPC, None, s)
     else do {
       (ino_nr, s) \<leftarrow> alloc_inode_bit bc grp (S_ISDIR mode) s;
       if ino_nr = NO_INODE then Some (- ENOSPC, None, s)
       else do {
         (r, s) \<leftarrow> get_inode bc ino_nr s;
         (case r of
            None \<Rightarrow> do {
              s \<leftarrow> free_inode_bit bc ino_nr (S_ISDIR mode) s;
              Some (- EIO, None, s)
            }
          | Some i \<Rightarrow>
              (let s = upd_inode i (\<lambda>n. n\<lparr>i_update := or ATIME (or CTIME MTIME)\<rparr>) s;
                   s = upd_odi i (\<lambda>d. d\<lparr>i_mode := ucast mode, i_links_count := 0, i_uid := ucast uid,
                         i_gid := ucast gid, i_size := 0, i_blocks := 0, i_flags := 0,
                         i_generation := 0, i_file_acl := 0, i_dir_acl := 0, i_faddr := 0,
                         i_block := replicate EXT2_N_BLOCKS NO_BLOCK\<rparr>) s
               in Some (0, Some i, inode_markdirty i s)))
       }
     }
   }"

definition add_links :: "nat \<Rightarrow> u16 \<Rightarrow> 'c ext_state \<Rightarrow> 'c ext_state" where
  "add_links i k s = upd_odi i (\<lambda>d. d\<lparr>i_links_count := i_links_count d + k\<rparr>) s"

definition new_inode ::
    "'c block_cache \<Rightarrow> u32 \<Rightarrow> nat \<Rightarrow> nat \<Rightarrow> nat \<Rightarrow> bytes \<Rightarrow> u32 \<Rightarrow> u32 \<Rightarrow> u32 \<Rightarrow> 'c ext_state \<Rightarrow>
     (int \<times> nat option \<times> 'c ext_state) option" where
  "new_inode bc now rnd link_max dir name mode uid gid s =
     (if i_links_count (odi (the_inode dir s)) = 0 then Some (- ENOENT, None, s)
      else if S_ISDIR mode \<and> link_max \<le> unat (i_links_count (odi (the_inode dir s)))
      then Some (- EMLINK, None, s)
      else do {
        (sc, ino_nr, s) \<leftarrow> lookup_dir bc dir name s;
        if sc = 0 then Some (- EEXIST, None, s)
        else do {
          (sc, r, s) \<leftarrow> alloc_inode bc rnd dir mode uid gid s;
          if sc \<noteq> 0 then Some (sc, None, s)
          else do {
            i \<leftarrow> r;
            s \<leftarrow> write_inode bc now i (add_links i 1 s);
            (sc, s) \<leftarrow> dirent_enter bc now rnd dir name (i_ino (the_inode i s)) mode s;
            if sc \<noteq> 0 then do {
              s \<leftarrow> put_inode bc now i (inode_markdirty i (add_links i (- 1) s));
              Some (sc, None, s)
            }
            else Some (0, Some i, s)
          }
        }
      })"

definition inode_info :: "nat \<Rightarrow> 'c ext_state \<Rightarrow> node_info" where
  "inode_info i s =
     (let n = the_inode i s
      in \<lparr>ni_inode_nr = uint (i_ino n), ni_size = uint (i_size (odi n)),
          ni_mode = ucast (i_mode (odi n)), ni_uid = uint (i_uid (odi n)),
          ni_gid = uint (i_gid (odi n))\<rparr>)"

definition mark_ctime :: "nat \<Rightarrow> 'c ext_state \<Rightarrow> 'c ext_state" where
  "mark_ctime i s = inode_markdirty i (upd_inode i (\<lambda>n. n\<lparr>i_update := or (i_update n) CTIME\<rparr>) s)"

type_synonym 'c ext_result = "(ipc_out list \<times> 'c ext_state) option"


section \<open>Directory requests\<close>

definition ext2_lookup ::
    "'c block_cache \<Rightarrow> u32 \<Rightarrow> (nat \<Rightarrow> byte) \<Rightarrow> u32 \<Rightarrow> nat \<Rightarrow> bytes \<Rightarrow> 'c ext_state \<Rightarrow> 'c ext_result" where
  "ext2_lookup bc now stk dir_nr name_sz payload s = do {
     name \<leftarrow> read_name stk name_sz payload;
     (r, s) \<leftarrow> get_inode bc dir_nr s;
     (case r of
        None \<Rightarrow> Some ([ReplyMsg (- EINVAL) NoBody], s)
      | Some dir \<Rightarrow> do {
          (sc, ino_nr, s) \<leftarrow> lookup_dir bc dir name s;
          if sc \<noteq> 0 then do {
            s \<leftarrow> put_inode bc now dir s;
            Some ([ReplyMsg sc NoBody], s)
          }
          else do {
            (r, s) \<leftarrow> get_inode bc ino_nr s;
            (case r of
               None \<Rightarrow> do { s \<leftarrow> put_inode bc now dir s; Some ([ReplyMsg (- EIO) NoBody], s) }
             | Some i \<Rightarrow> do {
                 let info = inode_info i s;
                 s \<leftarrow> put_inode bc now i s;
                 s \<leftarrow> put_inode bc now dir s;
                 Some ([ReplyMsg 0 (NodeBody info)], s)
               })
          }
        })
   }"

text \<open>
  \<open>ext2_readdir\<close> keeps the size in a \<open>size_t\<close>: an error from \<open>get_dirents\<close> is a huge size, for
  which \<open>writemsg\<close> would read past the 512 bytes of the buffer.
\<close>

definition ext2_readdir ::
    "'c block_cache \<Rightarrow> u32 \<Rightarrow> nat \<Rightarrow> u32 \<Rightarrow> 64 word \<Rightarrow> u32 \<Rightarrow> 'c ext_state \<Rightarrow> 'c ext_result" where
  "ext2_readdir bc now dno ino offset sz s = do {
     (r, s) \<leftarrow> get_inode bc ino s;
     (case r of
        None \<Rightarrow> Some ([ReplyMsg (- EINVAL) NoBody], s)
      | Some dir \<Rightarrow> do {
          let dirents_sz = (if 512 < unat sz then 512 else unat sz);
          (n, cookie, ds, s) \<leftarrow> get_dirents bc dno dir offset dirents_sz s;
          if 512 < uint (word_of_int n :: u32) then None
          else do {
            let out = (if 0 < n then [WriteDirents ds n] else []);
            s \<leftarrow> put_inode bc now dir s;
            Some (out @ [ReplyMsg n (ReaddirBody (sint cookie))], s)
          }
        })
   }"

definition ext2_mkdir ::
    "'c block_cache \<Rightarrow> u32 \<Rightarrow> nat \<Rightarrow> nat \<Rightarrow> (nat \<Rightarrow> byte) \<Rightarrow> u32 \<Rightarrow> nat \<Rightarrow> bytes \<Rightarrow> u32 \<Rightarrow> u32 \<Rightarrow> u32 \<Rightarrow>
     'c ext_state \<Rightarrow> 'c ext_result" where
  "ext2_mkdir bc now rnd link_max stk dir_nr name_sz payload mode uid gid s = do {
     name \<leftarrow> read_name stk name_sz payload;
     (r, s) \<leftarrow> get_inode bc dir_nr s;
     (case r of
        None \<Rightarrow> Some ([ReplyMsg (- ENOENT) NoBody], s)
      | Some dir \<Rightarrow> do {
          (sc, r, s) \<leftarrow> new_inode bc now rnd link_max dir name mode uid gid s;
          if sc \<noteq> 0 then do {
            s \<leftarrow> put_inode bc now dir s;
            Some ([ReplyMsg sc NoBody], s)
          }
          else do {
            i \<leftarrow> r;
            (sc1, s) \<leftarrow> dirent_enter bc now rnd i [46, 0] (i_ino (the_inode i s)) S_IFDIR s;
            (sc2, s) \<leftarrow> dirent_enter bc now rnd i [46, 46, 0] (i_ino (the_inode dir s)) S_IFDIR s;
            s \<leftarrow> (if sc1 = 0 \<and> sc2 = 0
                  then Some (inode_markdirty dir (add_links dir 1 (add_links i 1 s)))
                  else do {
                    (sc, s) \<leftarrow> dirent_delete bc now dir name s;
                    if sc \<noteq> 0 then None else Some (add_links i (- 1) s)
                  });
            s \<leftarrow> put_inode bc now dir (inode_markdirty i s);
            let info = inode_info i s;
            s \<leftarrow> put_inode bc now i s;
            Some ([ReplyMsg 0 (NodeBody info)], s)
          }
        })
   }"

text \<open>The common start of rmdir and unlink: the directory, the name looked up and its inode.\<close>

definition find_victim ::
    "'c block_cache \<Rightarrow> u32 \<Rightarrow> nat \<Rightarrow> bytes \<Rightarrow> 'c ext_state \<Rightarrow> (nat option \<times> 'c ext_state) option" where
  "find_victim bc now dir name s = do {
     (sc, ino_nr, s) \<leftarrow> lookup_dir bc dir name s;
     if sc = 0 then get_inode bc ino_nr s else Some (None, s)
   }"

definition ext2_rmdir ::
    "'c block_cache \<Rightarrow> u32 \<Rightarrow> (nat \<Rightarrow> byte) \<Rightarrow> u32 \<Rightarrow> nat \<Rightarrow> bytes \<Rightarrow> 'c ext_state \<Rightarrow> 'c ext_result" where
  "ext2_rmdir bc now stk dir_nr name_sz payload s = do {
     name \<leftarrow> read_name stk name_sz payload;
     (r, s) \<leftarrow> get_inode bc dir_nr s;
     (case r of
        None \<Rightarrow> Some ([ReplyMsg (- EIO) NoBody], s)
      | Some dir \<Rightarrow> do {
          (v, s) \<leftarrow> find_victim bc now dir name s;
          (case v of
             None \<Rightarrow> do { s \<leftarrow> put_inode bc now dir s; Some ([ReplyMsg (- EIO) NoBody], s) }
           | Some i \<Rightarrow> do {
               (empty, s) \<leftarrow> is_dir_empty bc i s;
               if \<not> empty then do {
                 s \<leftarrow> put_inode bc now i s;
                 s \<leftarrow> put_inode bc now dir s;
                 Some ([ReplyMsg (- ENOTEMPTY) NoBody], s)
               }
               else do {
                 (sc, s) \<leftarrow> dirent_delete bc now dir name s;
                 let s = (if sc = 0
                          then mark_ctime i (add_links i (- 1) (mark_ctime dir (add_links dir (- 1) s)))
                          else s);
                 s \<leftarrow> put_inode bc now i s;
                 s \<leftarrow> put_inode bc now dir s;
                 Some ([ReplyMsg sc NoBody], s)
               }
             })
        })
   }"


section \<open>File requests\<close>

definition ext2_read ::
    "'c block_cache \<Rightarrow> (nat \<Rightarrow> nat \<Rightarrow> int) \<Rightarrow> u32 \<Rightarrow> u32 \<Rightarrow> u32 \<Rightarrow> 'c ext_state \<Rightarrow> 'c ext_result" where
  "ext2_read bc wm ino_nr offset count s = do {
     (n, out, s) \<leftarrow> read_file bc wm ino_nr count (sint offset) s;
     Some (out @ [ReplyMsg n NoBody], s)
   }"

definition ext2_write ::
    "'c block_cache \<Rightarrow> (nat \<Rightarrow> nat \<Rightarrow> int \<times> bytes) \<Rightarrow> u32 \<Rightarrow> nat \<Rightarrow> u32 \<Rightarrow> u32 \<Rightarrow> u32 \<Rightarrow>
     'c ext_state \<Rightarrow> 'c ext_result" where
  "ext2_write bc rm now rnd ino_nr offset count s = do {
     (n, s) \<leftarrow> write_file bc rm now rnd ino_nr count (sint offset) s;
     Some ([ReplyMsg n NoBody], s)
   }"

definition ext2_create ::
    "'c block_cache \<Rightarrow> u32 \<Rightarrow> nat \<Rightarrow> nat \<Rightarrow> (nat \<Rightarrow> byte) \<Rightarrow> u32 \<Rightarrow> nat \<Rightarrow> bytes \<Rightarrow> u32 \<Rightarrow> u32 \<Rightarrow> u32 \<Rightarrow>
     'c ext_state \<Rightarrow> 'c ext_result" where
  "ext2_create bc now rnd link_max stk dir_nr name_sz payload mode uid gid s = do {
     name \<leftarrow> read_name stk name_sz payload;
     (r, s) \<leftarrow> get_inode bc dir_nr s;
     (case r of
        None \<Rightarrow> Some ([ReplyMsg (- ENOENT) NoBody], s)
      | Some dir \<Rightarrow> do {
          (sc, r, s) \<leftarrow> new_inode bc now rnd link_max dir name (or S_IFREG (and mode S_IRWXUGO)) uid gid s;
          if sc \<noteq> 0 then do {
            s \<leftarrow> put_inode bc now dir s;
            Some ([ReplyMsg sc NoBody], s)
          }
          else do {
            i \<leftarrow> r;
            let info = inode_info i s;
            s \<leftarrow> put_inode bc now dir s;
            s \<leftarrow> put_inode bc now i s;
            Some ([ReplyMsg 0 (NodeBody info)], s)
          }
        })
   }"

definition ext2_truncate :: "'c ext_state \<Rightarrow> 'c ext_result" where
  "ext2_truncate s = Some ([ReplyMsg 0 NoBody], s)"


section \<open>Link requests\<close>

definition ext2_close :: "'c ext_state \<Rightarrow> 'c ext_result" where
  "ext2_close s = Some ([ReplyMsg 0 NoBody], s)"

definition ext2_rename ::
    "'c block_cache \<Rightarrow> u32 \<Rightarrow> nat \<Rightarrow> (nat \<Rightarrow> byte) \<Rightarrow> (nat \<Rightarrow> byte) \<Rightarrow> u32 \<Rightarrow> nat \<Rightarrow> bytes \<Rightarrow> u32 \<Rightarrow> nat \<Rightarrow>
     bytes \<Rightarrow> 'c ext_state \<Rightarrow> 'c ext_result" where
  "ext2_rename bc now rnd stk stk' src_dir_nr src_name_sz src_payload dst_dir_nr dst_name_sz
      dst_payload s = do {
     src_name \<leftarrow> read_name stk src_name_sz src_payload;
     dst_name \<leftarrow> read_name stk' dst_name_sz dst_payload;
     (r, s) \<leftarrow> get_inode bc src_dir_nr s;
     (case r of
        None \<Rightarrow> Some ([ReplyMsg (- ENOENT) NoBody], s)
      | Some src_dir \<Rightarrow> do {
          (r, s) \<leftarrow> get_inode bc dst_dir_nr s;
          (case r of
             None \<Rightarrow> do { s \<leftarrow> put_inode bc now src_dir s; Some ([ReplyMsg (- ENOENT) NoBody], s) }
           | Some dst_dir \<Rightarrow> do {
               (sc, ino_nr, s) \<leftarrow> lookup_dir bc src_dir src_name s;
               (v, s) \<leftarrow> (if sc = 0 then get_inode bc ino_nr s else Some (None, s));
               (case v of
                  None \<Rightarrow> do {
                    s \<leftarrow> put_inode bc now src_dir s;
                    s \<leftarrow> put_inode bc now dst_dir s;
                    Some ([ReplyMsg (- EIO) NoBody], s)
                  }
                | Some i \<Rightarrow> do {
                    (sc, s) \<leftarrow> dirent_enter bc now rnd dst_dir dst_name ino_nr
                               (ucast (i_mode (odi (the_inode i s)))) s;
                    (sc, s) \<leftarrow>
                      (if sc = 0 then do {
                         let s = mark_ctime i (add_links i 1 s);
                         (sc, s) \<leftarrow> dirent_delete bc now src_dir src_name s;
                         Some (sc, if sc = 0 then mark_ctime i (add_links i (- 1) s) else s)
                       } else Some (sc, s));
                    s \<leftarrow> put_inode bc now i s;
                    s \<leftarrow> put_inode bc now dst_dir s;
                    s \<leftarrow> put_inode bc now src_dir s;
                    Some ([ReplyMsg sc NoBody], s)
                  })
             })
        })
   }"

definition ext2_mknod ::
    "'c block_cache \<Rightarrow> u32 \<Rightarrow> nat \<Rightarrow> nat \<Rightarrow> (nat \<Rightarrow> byte) \<Rightarrow> u32 \<Rightarrow> nat \<Rightarrow> bytes \<Rightarrow> u32 \<Rightarrow> u32 \<Rightarrow> u32 \<Rightarrow>
     'c ext_state \<Rightarrow> 'c ext_result" where
  "ext2_mknod bc now rnd link_max stk dir_nr name_sz payload mode uid gid s = do {
     name \<leftarrow> read_name stk name_sz payload;
     (r, s) \<leftarrow> get_inode bc dir_nr s;
     (case r of
        None \<Rightarrow> Some ([ReplyMsg (- ENOENT) NoBody], s)
      | Some dir \<Rightarrow> do {
          (sc, r, s) \<leftarrow> new_inode bc now rnd link_max dir name mode uid gid s;
          if sc \<noteq> 0 then do {
            s \<leftarrow> put_inode bc now dir s;
            Some ([ReplyMsg sc NoBody], s)
          }
          else do {
            i \<leftarrow> r;
            s \<leftarrow> put_inode bc now i s;
            s \<leftarrow> put_inode bc now dir s;
            Some ([ReplyMsg 0 NoBody], s)
          }
        })
   }"

definition ext2_unlink ::
    "'c block_cache \<Rightarrow> u32 \<Rightarrow> (nat \<Rightarrow> byte) \<Rightarrow> u32 \<Rightarrow> nat \<Rightarrow> bytes \<Rightarrow> 'c ext_state \<Rightarrow> 'c ext_result" where
  "ext2_unlink bc now stk dir_nr name_sz payload s = do {
     name \<leftarrow> read_name stk name_sz payload;
     (r, s) \<leftarrow> get_inode bc dir_nr s;
     (case r of
        None \<Rightarrow> Some ([ReplyMsg (- EIO) NoBody], s)
      | Some dir \<Rightarrow> do {
          (v, s) \<leftarrow> find_victim bc now dir name s;
          (case v of
             None \<Rightarrow> do { s \<leftarrow> put_inode bc now dir s; Some ([ReplyMsg (- EIO) NoBody], s) }
           | Some i \<Rightarrow> do {
               (sc, s) \<leftarrow> dirent_delete bc now dir name s;
               let s = (if sc = 0 then mark_ctime i (add_links i (- 1) s) else s);
               s \<leftarrow> put_inode bc now i s;
               s \<leftarrow> put_inode bc now dir s;
               Some ([ReplyMsg sc NoBody], s)
             })
        })
   }"


section \<open>Protection requests\<close>

definition ext2_chmod :: "'c block_cache \<Rightarrow> u32 \<Rightarrow> u32 \<Rightarrow> u32 \<Rightarrow> 'c ext_state \<Rightarrow> 'c ext_result" where
  "ext2_chmod bc now ino mode s = do {
     (r, s) \<leftarrow> get_inode bc ino s;
     (case r of
        None \<Rightarrow> Some ([ReplyMsg (- ENOENT) NoBody], s)
      | Some i \<Rightarrow> do {
          let s = upd_odi i (\<lambda>d. d\<lparr>i_mode := or (and (i_mode d) (not 0x1FF)) (ucast (and mode 0x1FF))\<rparr>) s;
          s \<leftarrow> put_inode bc now i (mark_ctime i s);
          Some ([ReplyMsg 0 NoBody], s)
        })
   }"

definition ext2_chown :: "'c block_cache \<Rightarrow> u32 \<Rightarrow> u32 \<Rightarrow> u32 \<Rightarrow> u32 \<Rightarrow> 'c ext_state \<Rightarrow> 'c ext_result" where
  "ext2_chown bc now ino uid gid s = do {
     (r, s) \<leftarrow> get_inode bc ino s;
     (case r of
        None \<Rightarrow> Some ([ReplyMsg (- ENOENT) NoBody], s)
      | Some i \<Rightarrow> do {
          let s = upd_odi i (\<lambda>d. d\<lparr>i_uid := ucast uid, i_gid := ucast gid\<rparr>) s;
          s \<leftarrow> put_inode bc now i (mark_ctime i s);
          Some ([ReplyMsg 0 NoBody], s)
        })
   }"

definition ext_sigterm_handler :: "'c ext_state \<Rightarrow> 'c ext_state" where
  "ext_sigterm_handler s = s\<lparr>ext_shutdown := True\<rparr>"


section \<open>Dispatch\<close>

datatype ext_req =
    ExtRead u32 u32 u32
  | ExtWrite u32 u32 u32
  | ExtLookup u32 nat bytes
  | ExtClose
  | ExtCreate u32 nat bytes u32 u32 u32
  | ExtReaddir u32 "64 word" u32
  | ExtUnlink u32 nat bytes
  | ExtRmdir u32 nat bytes
  | ExtMkdir u32 nat bytes u32 u32 u32
  | ExtMknod u32 nat bytes u32 u32 u32
  | ExtRename u32 nat bytes u32 nat bytes
  | ExtChmod u32 u32
  | ExtChown u32 u32 u32
  | ExtTruncate
  | ExtOther

text \<open>What the request meets outside the handler.\<close>

record ext_world =
  w_writemsg :: "nat \<Rightarrow> nat \<Rightarrow> int"
  w_readmsg :: "nat \<Rightarrow> nat \<Rightarrow> int \<times> bytes"
  w_time :: u32
  w_rand :: nat
  w_link_max :: nat
  w_dirent_name_offset :: nat
  w_stack :: "nat \<Rightarrow> byte"
  w_stack' :: "nat \<Rightarrow> byte"

fun ext_step :: "'c block_cache \<Rightarrow> ext_world \<Rightarrow> ext_req \<Rightarrow> 'c ext_state \<Rightarrow> 'c ext_result" where
  "ext_step bc w (ExtRead ino off n) s = ext2_read bc (w_writemsg w) ino off n s"
| "ext_step bc w (ExtWrite ino off n) s =
     ext2_write bc (w_readmsg w) (w_time w) (w_rand w) ino off n s"
| "ext_step bc w (ExtLookup d n p) s = ext2_lookup bc (w_time w) (w_stack w) d n p s"
| "ext_step bc w ExtClose s = ext2_close s"
| "ext_step bc w (ExtCreate d n p m u g) s =
     ext2_create bc (w_time w) (w_rand w) (w_link_max w) (w_stack w) d n p m u g s"
| "ext_step bc w (ExtReaddir d off n) s =
     ext2_readdir bc (w_time w) (w_dirent_name_offset w) d off n s"
| "ext_step bc w (ExtUnlink d n p) s = ext2_unlink bc (w_time w) (w_stack w) d n p s"
| "ext_step bc w (ExtRmdir d n p) s = ext2_rmdir bc (w_time w) (w_stack w) d n p s"
| "ext_step bc w (ExtMkdir d n p m u g) s =
     ext2_mkdir bc (w_time w) (w_rand w) (w_link_max w) (w_stack w) d n p m u g s"
| "ext_step bc w (ExtMknod d n p m u g) s =
     ext2_mknod bc (w_time w) (w_rand w) (w_link_max w) (w_stack w) d n p m u g s"
| "ext_step bc w (ExtRename d n p d' n' p') s =
     ext2_rename bc (w_time w) (w_rand w) (w_stack w) (w_stack' w) d n p d' n' p' s"
| "ext_step bc w (ExtChmod ino m) s = ext2_chmod bc (w_time w) ino m s"
| "ext_step bc w (ExtChown ino u g) s = ext2_chown bc (w_time w) ino u g s"
| "ext_step bc w ExtTruncate s = ext2_truncate s"
| "ext_step bc w ExtOther s = Some ([ReplyMsg (- ENOTSUP) NoBody], s)"


section \<open>Start-up\<close>

definition nr_readahead_blocks :: "u16 \<Rightarrow> nat" where
  "nr_readahead_blocks bs =
     (if bs = 512 then 8 else if bs = 1024 then 4 else if bs = 2048 then 2 else 16)"

text \<open>
  \<open>init\<close>, once the arguments have been read and the device is open: \<open>be\<close> is the byte order found,
  \<open>rd\<close> reads the device, \<open>mk\<close> is \<open>init_block_cache\<close> (None its NULL). Every failure panics.
\<close>

definition ext_init ::
    "bool \<Rightarrow> (64 word \<Rightarrow> nat \<Rightarrow> bytes) \<Rightarrow> (nat \<Rightarrow> nat \<Rightarrow> nat \<Rightarrow> 'c option) \<Rightarrow> 'c ext_state \<Rightarrow> 'c ext_state option" where
  "ext_init be rd mk s = do {
     (sc, s) \<leftarrow> read_superblock rd (s\<lparr>superblock := zero_superblock, be_cpu := be\<rparr>);
     if sc \<noteq> 0 then None
     else do {
       c \<leftarrow> mk 128 (block_size s) (nr_readahead_blocks (sb_block_size s));
       let (sc, s) = init_inode_cache (s\<lparr>blocks := c\<rparr>);
       if sc \<noteq> 0 then None else Some s
     }
   }"

end
