(* ===== verification/ExtAlloc.thy ===== *)
theory ExtAlloc
  imports ExtBlock Alloc
begin

text \<open>
  Correctness of the allocation of blocks: the invariant that ties the bitmaps of the groups to
  the free counts, that \<open>alloc_block\<close> and \<open>free_block\<close> keep it and that they implement the
  allocator contract over the block numbers of the file system.
\<close>

section \<open>The block cache as seen by its clients\<close>

lemma cache_length:
  "block_cache_contract bc bs kept marked \<Longrightarrow> length (bc_data bc c b) = bs"
  by (simp add: block_cache_contract_def)

lemma cache_get_read:
  assumes "block_cache_contract bc bs kept marked"
  shows "get_block bc b BLK_READ s = Some (s\<lparr>blocks := snd (bc_get bc b BLK_READ (blocks s))\<rparr>)"
    and "bc_data bc (snd (bc_get bc b BLK_READ c)) = bc_data bc c"
    and "kept (snd (bc_get bc b BLK_READ c)) = kept c"
    and "marked (snd (bc_get bc b BLK_READ c)) = marked c"
  using assms by (auto simp: block_cache_contract_def get_block_def split: prod.splits bool.splits)
    (metis fst_conv snd_conv)+

lemma cache_get_clear:
  assumes "block_cache_contract bc bs kept marked"
  shows "get_block bc b BLK_CLEAR s = Some (s\<lparr>blocks := snd (bc_get bc b BLK_CLEAR (blocks s))\<rparr>)"
    and "bc_data bc (snd (bc_get bc b BLK_CLEAR c)) = (bc_data bc c)(b := replicate bs 0)"
    and "kept (snd (bc_get bc b BLK_CLEAR c)) = kept c"
    and "marked (snd (bc_get bc b BLK_CLEAR c)) = marked c"
  using assms by (auto simp: block_cache_contract_def get_block_def split: prod.splits bool.splits)
    (metis fst_conv snd_conv)+

lemma cache_store:
  assumes "block_cache_contract bc bs kept marked" and "length d = bs"
  shows "bc_data bc (bc_store bc b d c) = (bc_data bc c)(b := d)"
    and "kept (bc_store bc b d c) = kept c" and "marked (bc_store bc b d c) = marked c"
  using assms by (auto simp: block_cache_contract_def)

lemma cache_markdirty:
  assumes "block_cache_contract bc bs kept marked"
  shows "bc_data bc (bc_markdirty bc b c) = bc_data bc c"
    and "kept (bc_markdirty bc b c) = kept c"
    and "marked (bc_markdirty bc b c) = insert b (marked c)"
  using assms by (auto simp: block_cache_contract_def)

lemma cache_put:
  assumes "block_cache_contract bc bs kept marked"
  shows "marked (bc_put bc b c) = marked c - {b}"
    and "b \<in> marked c \<or> bc_data bc c b = kept c b \<Longrightarrow> bc_data bc (bc_put bc b c) = bc_data bc c"
    and "b \<in> marked c \<or> bc_data bc c b = kept c b \<Longrightarrow>
         kept (bc_put bc b c) = (kept c)(b := bc_data bc c b)"
  using assms by (auto simp: block_cache_contract_def)

lemma cache_invalidate:
  assumes "block_cache_contract bc bs kept marked"
  shows "b' \<noteq> b \<Longrightarrow> bc_data bc (bc_invalidate bc b c) b' = bc_data bc c b'"
    and "b' \<noteq> b \<Longrightarrow> kept (bc_invalidate bc b c) b' = kept c b'"
    and "marked (bc_invalidate bc b c) = marked c - {b}"
    and "bc_data bc (bc_invalidate bc b c) b = kept (bc_invalidate bc b c) b"
  using assms by (auto simp: block_cache_contract_def)

lemmas cache_rules = cache_length cache_get_read cache_get_clear cache_store cache_markdirty
  cache_put cache_invalidate

text \<open>Reading, changing, marking and putting back one block.\<close>

definition rewrite_cache :: "'c block_cache \<Rightarrow> u32 \<Rightarrow> bytes \<Rightarrow> 'c \<Rightarrow> 'c" where
  "rewrite_cache bc b d c =
     bc_put bc b (bc_markdirty bc b (bc_store bc b d (snd (bc_get bc b BLK_READ c))))"

lemma rewrite_cache:
  assumes "block_cache_contract bc bs kept marked" and "length d = bs"
  shows "bc_data bc (rewrite_cache bc b d c) = (bc_data bc c)(b := d)"
    and "kept (rewrite_cache bc b d c) = (kept c)(b := d)"
    and "marked (rewrite_cache bc b d c) = marked c - {b}"
  unfolding rewrite_cache_def
  by (simp_all add: cache_put [OF assms(1)] cache_markdirty [OF assms(1)] cache_store [OF assms]
      cache_get_read [OF assms(1)])

text \<open>A simple cache that keeps the contract: what was not marked dirty is lost when it is put.\<close>

record memory_cache =
  mc_data :: "u32 \<Rightarrow> bytes"
  mc_kept :: "u32 \<Rightarrow> bytes"
  mc_marked :: "u32 set"

text \<open>Blocks are held with the size \<open>bs\<close>: whatever is stored is cut or padded to it.\<close>

definition fit :: "nat \<Rightarrow> bytes \<Rightarrow> bytes" where
  "fit bs d = take bs (d @ replicate bs 0)"

lemma length_fit [simp]: "length (fit bs d) = bs"
  by (simp add: fit_def)

lemma fit_same: "length d = bs \<Longrightarrow> fit bs d = d"
  by (simp add: fit_def)

definition memory_block_cache :: "nat \<Rightarrow> memory_cache block_cache" where
  "memory_block_cache bs = \<lparr>
     bc_get = (\<lambda>b m c. (True, case m of BLK_READ \<Rightarrow> c
                              | BLK_CLEAR \<Rightarrow> c\<lparr>mc_data := (mc_data c)(b := replicate bs 0)\<rparr>)),
     bc_get_readahead = (\<lambda>b c. (True, c)),
     bc_data = (\<lambda>c b. fit bs (mc_data c b)),
     bc_store = (\<lambda>b d c. c\<lparr>mc_data := (mc_data c)(b := d)\<rparr>),
     bc_markdirty = (\<lambda>b c. c\<lparr>mc_marked := insert b (mc_marked c)\<rparr>),
     bc_put = (\<lambda>b c. if b \<in> mc_marked c
        then c\<lparr>mc_kept := (mc_kept c)(b := mc_data c b), mc_marked := mc_marked c - {b}\<rparr>
        else c\<lparr>mc_data := (mc_data c)(b := mc_kept c b)\<rparr>),
     bc_invalidate = (\<lambda>b c. c\<lparr>mc_data := (mc_data c)(b := []), mc_kept := (mc_kept c)(b := []),
                               mc_marked := mc_marked c - {b}\<rparr>)\<rparr>"

lemma memory_cache_contract:
  "block_cache_contract (memory_block_cache bs) bs (\<lambda>c b. fit bs (mc_kept c b)) mc_marked"
  by (auto simp: block_cache_contract_def memory_block_cache_def fit_same fun_eq_iff)


section \<open>The invariant of the block bitmaps\<close>

definition group_bitmap :: "'c block_cache \<Rightarrow> 'c ext_state \<Rightarrow> nat \<Rightarrow> u32 list" where
  "group_bitmap bc s g = words32 (be_cpu s) (block_data bc (g_block_bitmap (group_descs s ! g)) s)"

definition per_group :: "'c ext_state \<Rightarrow> nat" where
  "per_group s = unat (s_blocks_per_group (superblock s))"

definition groups :: "'c ext_state \<Rightarrow> nat" where
  "groups s = unat (sb_groups_count s)"

definition block_no :: "'c ext_state \<Rightarrow> nat \<Rightarrow> nat \<Rightarrow> nat" where
  "block_no s g i = unat (s_first_data_block (superblock s)) + g * per_group s + i"

definition free_bits :: "'c block_cache \<Rightarrow> 'c ext_state \<Rightarrow> nat \<Rightarrow> nat set" where
  "free_bits bc s g = {i. i < per_group s \<and> \<not> bit_used (group_bitmap bc s g) i}"

definition alloc_inv :: "'c block_cache \<Rightarrow> nat \<Rightarrow> 'c ext_state \<Rightarrow> bool" where
  "alloc_inv bc bs s \<longleftrightarrow>
     0 < groups s \<and> length (group_descs s) = groups s \<and> 0 < per_group s \<and> per_group s < 65536 \<and>
     per_group s \<le> 8 * bs \<and> bs mod 4 = 0 \<and> 8 * bs < 2147483648 \<and>
     unat (s_first_data_block (superblock s)) + groups s * per_group s < 4294967296 \<and>
     s_inodes_per_group (superblock s) \<noteq> 0 \<and> s_blocks_count (superblock s) \<noteq> 0 \<and>
     inj_on (\<lambda>g. g_block_bitmap (group_descs s ! g)) {..<groups s} \<and>
     (\<forall>g < groups s. unat (g_free_blocks_count (group_descs s ! g)) = card (free_bits bc s g)) \<and>
     unat (s_free_blocks_count (superblock s)) = (\<Sum>g<groups s. card (free_bits bc s g)) \<and>
     (\<forall>g < groups s. \<forall>i \<in> free_bits bc s g. block_no s g i \<noteq> 0 \<and>
        (\<forall>h < groups s. check_block_number (group_descs s ! h) (word_of_nat (block_no s g i)) s = Some ()))"

lemma finite_free_bits [simp]: "finite (free_bits bc s g)"
  by (simp add: free_bits_def)

lemma alloc_invD:
  assumes "alloc_inv bc bs s"
  shows "0 < groups s" "length (group_descs s) = groups s" "0 < per_group s" "per_group s \<le> 8 * bs"
    "bs mod 4 = 0" "8 * bs < 2147483648"
    "unat (s_first_data_block (superblock s)) + groups s * per_group s < 4294967296"
    "s_inodes_per_group (superblock s) \<noteq> 0" "s_blocks_count (superblock s) \<noteq> 0"
    "g < groups s \<Longrightarrow> h < groups s \<Longrightarrow>
       g_block_bitmap (group_descs s ! g) = g_block_bitmap (group_descs s ! h) \<Longrightarrow> g = h"
    "g < groups s \<Longrightarrow> unat (g_free_blocks_count (group_descs s ! g)) = card (free_bits bc s g)"
    "unat (s_free_blocks_count (superblock s)) = (\<Sum>g<groups s. card (free_bits bc s g))"
    "g < groups s \<Longrightarrow> i \<in> free_bits bc s g \<Longrightarrow> h < groups s \<Longrightarrow>
        check_block_number (group_descs s ! h) (word_of_nat (block_no s g i)) s = Some ()"
    "g < groups s \<Longrightarrow> i \<in> free_bits bc s g \<Longrightarrow> block_no s g i \<noteq> 0"
    "per_group s < 65536"
  using assms unfolding alloc_inv_def by (auto simp: inj_on_def)

lemma bitmap_ok_group:
  assumes "block_cache_contract bc bs kept marked" and "alloc_inv bc bs s"
  shows "bitmap_ok (s_blocks_per_group (superblock s)) (group_bitmap bc s g)"
proof -
  have "length (group_bitmap bc s g) = bs div 4"
    by (simp add: group_bitmap_def block_data_def cache_length [OF assms(1)])
  moreover have "4 * (bs div 4) = bs" using alloc_invD(5) [OF assms(2)] by presburger
  ultimately show ?thesis
    using alloc_invD(4,6) [OF assms(2)] by (simp add: bitmap_ok_def per_group_def)
qed

lemma block_no_lt:
  assumes "alloc_inv bc bs s" and "g < groups s" and "i < per_group s"
  shows "block_no s g i < 4294967296"
proof -
  have "g * per_group s + i < groups s * per_group s"
  proof -
    have "g * per_group s + i < Suc g * per_group s" using assms(3) by simp
    also have "\<dots> \<le> groups s * per_group s" using assms(2) by (intro mult_le_mono1) simp
    finally show ?thesis .
  qed
  then show ?thesis using alloc_invD(7) [OF assms(1)] by (simp add: block_no_def)
qed

lemma check_block_number_cong:
  "s_blocks_count (superblock s') = s_blocks_count (superblock s) \<Longrightarrow>
   sb_inode_table_blocks_per_group s' = sb_inode_table_blocks_per_group s \<Longrightarrow>
   g_block_bitmap gd' = g_block_bitmap gd \<Longrightarrow> g_inode_bitmap gd' = g_inode_bitmap gd \<Longrightarrow>
   g_inode_table gd' = g_inode_table gd \<Longrightarrow>
   check_block_number gd' b s' = check_block_number gd b s"
  by (simp add: check_block_number_def)

lemma group_index: "g < groups s \<Longrightarrow> unat (word_of_nat g :: u32) = g"
  using order.strict_trans [OF _ unat_u32_lt] by (intro unat_word_of_nat32) (auto simp: groups_def)

lemma get_group_desc_nth:
  assumes "alloc_inv bc bs s" and "g < groups s"
  shows "get_group_desc (word_of_nat g) s = Some (group_descs s ! g)"
  using assms(2) alloc_invD(2) [OF assms(1)] group_index [OF assms(2)]
  by (simp add: get_group_desc_def word_le_nat_alt groups_def)

text \<open>The state after the bit \<open>k\<close> of group \<open>g\<close> has been taken.\<close>

definition take_block ::
    "'c block_cache \<Rightarrow> nat \<Rightarrow> u32 list \<Rightarrow> 'c ext_state \<Rightarrow> 'c ext_state" where
  "take_block bc g bm s =
     (let gd = group_descs s ! g in
      s\<lparr>blocks := rewrite_cache bc (g_block_bitmap gd) (unwords32 (be_cpu s) bm) (blocks s),
        group_descs := (group_descs s)[g := gd\<lparr>g_free_blocks_count := g_free_blocks_count gd - 1\<rparr>],
        superblock := (superblock s)\<lparr>s_free_blocks_count := s_free_blocks_count (superblock s) - 1\<rparr>,
        sb_group_descriptors_dirty := True\<rparr>)"

lemma alloc_block_loop_hit:
  assumes c: "block_cache_contract bc bs kept marked" and inv: "alloc_inv bc bs s"
    and g: "g < groups s" and free: "g_free_blocks_count (group_descs s ! g) \<noteq> 0"
  obtains k bm where "alloc_block_loop bc (groups s) g s = Some (word_of_nat (block_no s g k), take_block bc g bm s)"
    "k \<in> free_bits bc s g" "length bm = bs div 4"
    "\<forall>j. bit_used bm j \<longleftrightarrow> bit_used (group_bitmap bc s g) j \<or> j = k"
    "\<forall>j < k. bit_used (group_bitmap bc s g) j"
proof -
  let ?gd = "group_descs s ! g" and ?m = "s_blocks_per_group (superblock s)"
  let ?bm = "group_bitmap bc s g"
  note ok = bitmap_ok_group [OF c inv, of g]
  have "card (free_bits bc s g) \<noteq> 0"
    using alloc_invD(11) [OF inv g] free by (metis unat_eq_zero)
  then obtain j where j: "j < unat ?m" "\<not> bit_used ?bm j"
    by (auto simp: free_bits_def per_group_def card_eq_0_iff)
  show ?thesis
  proof (rule bitmap_alloc_cases [OF ok])
    assume "\<forall>i < unat ?m. bit_used ?bm i"
    with j show ?thesis by auto
  next
    fix k bm assume k: "alloc_bit ?bm ?m 0 = Some (word_of_nat k, bm)" "k < unat ?m" "\<not> bit_used ?bm k"
      "\<forall>j < k. bit_used ?bm j" "length bm = length ?bm" "\<forall>j. bit_used bm j \<longleftrightarrow> bit_used ?bm j \<or> j = k"
    have kf: "k \<in> free_bits bc s g" using k by (simp add: free_bits_def per_group_def)
    have len: "length ?bm = bs div 4"
      by (simp add: group_bitmap_def block_data_def cache_length [OF c])
    have lbm: "length (unwords32 (be_cpu s) bm) = bs"
      using len k(5) alloc_invD(5) [OF inv] by simp presburger
    have k31: "k < 2147483648" using k(2) ok by (simp add: bitmap_ok_def)
    note gdn = get_group_desc_nth [OF inv g]
    have data: "block_data bc (g_block_bitmap ?gd) s = bc_data bc (blocks s) (g_block_bitmap ?gd)"
      by (simp add: block_data_def)
    have st: "store (unwords32 (be_cpu s) bm) 0 (bc_data bc c' b) = Some (unwords32 (be_cpu s) bm)" for c' b
      using lbm cache_length [OF c, of c' b] by (simp add: store_def splice_def)
    have blk: "s_first_data_block (superblock s) + word_of_nat g * ?m + word_of_nat k
        = (word_of_nat (block_no s g k) :: u32)"
      by (simp add: block_no_def per_group_def)
    have chk: "check_block_number ?gd (word_of_nat (block_no s g k)) (s\<lparr>blocks := c'\<rparr>) = Some ()" for c'
      using alloc_invD(13) [OF inv g kf g] check_block_number_cong [of "s\<lparr>blocks := c'\<rparr>" s] by simp
    have "alloc_block_loop bc (groups s) g s = Some (word_of_nat (block_no s g k), take_block bc g bm s)"
      using g free k(1) gdn group_index [OF g] small_word_not_minus_one [OF k31]
      by (subst alloc_block_loop.simps)
       (simp add: cache_get_read [OF c] Let_def block_data_def st set_block_data_def blk chk group_bitmap_def
         put_block_def block_markdirty_def take_block_def rewrite_cache_def set_group_desc_def group_descriptors_markdirty_def)
    with kf len k show ?thesis by (intro that [of k bm]) auto
  qed
qed

lemma unat_minus_one: "w \<noteq> 0 \<Longrightarrow> unat (w - 1 :: 'a::len word) = unat w - 1"
  by (simp add: unat_sub word_le_nat_alt unat_gt_0 Suc_le_eq)

lemma take_block_simps [simp]:
  "groups (take_block bc g bm s) = groups s" "per_group (take_block bc g bm s) = per_group s"
  "block_no (take_block bc g bm s) = block_no s"
  "be_cpu (take_block bc g bm s) = be_cpu s"
  by (auto simp: take_block_def Let_def groups_def per_group_def block_no_def fun_eq_iff)

lemma take_block_state:
  assumes c: "block_cache_contract bc bs kept marked" and inv: "alloc_inv bc bs s" and g: "g < groups s"
    and k: "k \<in> free_bits bc s g" and len: "length bm = bs div 4"
    and used: "\<forall>j. bit_used bm j \<longleftrightarrow> bit_used (group_bitmap bc s g) j \<or> j = k"
  shows "h < groups s \<Longrightarrow> free_bits bc (take_block bc g bm s) h =
      (if h = g then free_bits bc s g - {k} else free_bits bc s h)"
    and "b \<noteq> g_block_bitmap (group_descs s ! g) \<Longrightarrow>
      block_data bc b (take_block bc g bm s) = block_data bc b s"
    and "alloc_inv bc bs (take_block bc g bm s)"
proof -
  let ?s = "take_block bc g bm s" and ?bb = "\<lambda>h. g_block_bitmap (group_descs s ! h)"
  have gl: "g < length (group_descs s)" using g alloc_invD(2) [OF inv] by simp
  have lbm: "length (unwords32 (be_cpu s) bm) = bs"
    using len alloc_invD(5) [OF inv] by simp presburger
  have data: "block_data bc b ?s = (if b = ?bb g then unwords32 (be_cpu s) bm else block_data bc b s)" for b
    by (simp add: block_data_def take_block_def Let_def rewrite_cache [OF c lbm])
  then show "b \<noteq> ?bb g \<Longrightarrow> block_data bc b ?s = block_data bc b s" by simp
  have bb: "g_block_bitmap (group_descs ?s ! h) = ?bb h" for h
    using gl by (cases "h = g") (auto simp: take_block_def Let_def)
  have bm: "group_bitmap bc ?s h = (if ?bb h = ?bb g then bm else group_bitmap bc s h)" for h
    by (simp add: group_bitmap_def bb data)
  have fr: "free_bits bc ?s h = (if h = g then free_bits bc s g - {k} else free_bits bc s h)"
    if "h < groups s" for h
    using used alloc_invD(10) [OF inv that g] by (auto simp: free_bits_def bm)
  then show "h < groups s \<Longrightarrow> free_bits bc ?s h =
      (if h = g then free_bits bc s g - {k} else free_bits bc s h)" .
  have card: "card (free_bits bc s g) = Suc (card (free_bits bc s g - {k}))"
    using card.remove [OF finite_free_bits k] .
  have gds: "g_free_blocks_count (group_descs ?s ! h) = (if h = g
      then g_free_blocks_count (group_descs s ! g) - 1 else g_free_blocks_count (group_descs s ! h))" for h
    using gl by (simp add: take_block_def Let_def)
  have gf: "unat (g_free_blocks_count (group_descs ?s ! h)) = card (free_bits bc ?s h)" if h: "h < groups s" for h
  proof (cases "h = g")
    case True
    have "g_free_blocks_count (group_descs s ! g) \<noteq> 0"
      using alloc_invD(11) [OF inv g] card by (metis nat.distinct(1) unat_0)
    with True gl card alloc_invD(11) [OF inv g] show ?thesis
      by (simp add: fr [OF g] gds unat_minus_one)
  next
    case False
    then show ?thesis using alloc_invD(11) [OF inv h] by (simp add: fr [OF h] gds)
  qed
  have sum: "(\<Sum>h<groups s. card (free_bits bc s h)) = Suc (\<Sum>h<groups s. card (free_bits bc ?s h))"
  proof -
    have "(\<Sum>h<groups s. card (free_bits bc s h)) =
      card (free_bits bc s g) + (\<Sum>h\<in>{..<groups s} - {g}. card (free_bits bc s h))"
      using g by (intro sum.remove) auto
    also have "(\<Sum>h\<in>{..<groups s} - {g}. card (free_bits bc s h)) =
      (\<Sum>h\<in>{..<groups s} - {g}. card (free_bits bc ?s h))"
      by (rule sum.cong) (auto simp: fr)
    also have "card (free_bits bc s g) + (\<Sum>h\<in>{..<groups s} - {g}. card (free_bits bc ?s h)) =
      Suc (card (free_bits bc ?s g) + (\<Sum>h\<in>{..<groups s} - {g}. card (free_bits bc ?s h)))"
      using card fr [OF g] by simp
    also have "\<dots> = Suc (\<Sum>h<groups s. card (free_bits bc ?s h))"
      using g by (subst sum.remove [of _ g]) auto
    finally show ?thesis .
  qed
  have tot: "unat (s_free_blocks_count (superblock ?s)) = (\<Sum>h<groups s. card (free_bits bc ?s h))"
  proof -
    have "s_free_blocks_count (superblock s) \<noteq> 0"
      using alloc_invD(12) [OF inv] sum by (metis nat.distinct(1) unat_0)
    then have "unat (s_free_blocks_count (superblock ?s)) = unat (s_free_blocks_count (superblock s)) - 1"
      by (simp add: take_block_def Let_def unat_minus_one)
    then show ?thesis using alloc_invD(12) [OF inv] sum by simp
  qed
  have chk: "block_no s h i \<noteq> 0 \<and>
      check_block_number (group_descs ?s ! h') (word_of_nat (block_no s h i)) ?s = Some ()"
    if h: "h < groups s" and i: "i \<in> free_bits bc ?s h" and h': "h' < groups s" for h h' i
  proof -
    have i': "i \<in> free_bits bc s h" using i fr [OF h] by (auto split: if_splits)
    then have "check_block_number (group_descs s ! h') (word_of_nat (block_no s h i)) s = Some ()"
      by (rule alloc_invD(13) [OF inv h _ h'])
    moreover have "g_inode_bitmap (group_descs ?s ! h') = g_inode_bitmap (group_descs s ! h')"
      "g_inode_table (group_descs ?s ! h') = g_inode_table (group_descs s ! h')"
      using gl by (cases "h' = g"; simp add: take_block_def Let_def)+
    moreover have "check_block_number (group_descs ?s ! h') b ?s = check_block_number (group_descs s ! h') b s" for b
      by (rule check_block_number_cong [OF _ _ bb calculation(2,3)]) (simp_all add: take_block_def Let_def)
    ultimately show ?thesis using alloc_invD(14) [OF inv h i'] by simp
  qed
  show "alloc_inv bc bs ?s"
    using alloc_invD(1-9,15) [OF inv] alloc_invD(10) [OF inv] gf tot chk
    unfolding alloc_inv_def inj_on_def
    by (simp add: bb) (simp add: take_block_def Let_def)
qed


lemma alloc_block_loop_skip:
  assumes "alloc_inv bc bs s" and "i < groups s" and "g_free_blocks_count (group_descs s ! i) = 0"
  shows "alloc_block_loop bc (groups s) i s = alloc_block_loop bc (groups s) (Suc i) s"
  using assms get_group_desc_nth [OF assms(1,2)]
  by (subst alloc_block_loop.simps) simp

lemma alloc_block_loop_to:
  assumes "alloc_inv bc bs s" and "g < groups s"
  shows "i \<le> g \<Longrightarrow> \<forall>h. i \<le> h \<and> h < g \<longrightarrow> g_free_blocks_count (group_descs s ! h) = 0 \<Longrightarrow>
    alloc_block_loop bc (groups s) i s = alloc_block_loop bc (groups s) g s"
proof (induction i rule: inc_induct)
  case (step i)
  have "alloc_block_loop bc (groups s) i s = alloc_block_loop bc (groups s) (Suc i) s"
    by (rule alloc_block_loop_skip [OF assms(1)]) (use step assms(2) in auto)
  also have "\<dots> = alloc_block_loop bc (groups s) g s"
  proof -
    have "\<forall>h. Suc i \<le> h \<and> h < g \<longrightarrow> g_free_blocks_count (group_descs s ! h) = 0"
      using step.prems by auto
    then show ?thesis by (rule step.IH)
  qed
  finally show ?case .
qed simp

lemma alloc_block_first:
  assumes inv: "alloc_inv bc bs s" and "s_free_blocks_count (superblock s) \<noteq> 0"
  obtains g where "g < groups s" "g_free_blocks_count (group_descs s ! g) \<noteq> 0"
    "\<forall>h < g. free_bits bc s h = {}" "\<forall>h < g. g_free_blocks_count (group_descs s ! h) = 0"
proof -
  let ?P = "\<lambda>g. g < groups s \<and> free_bits bc s g \<noteq> {}"
  have "(\<Sum>g<groups s. card (free_bits bc s g)) \<noteq> 0"
    using alloc_invD(12) [OF inv] assms(2) by (metis unat_eq_zero)
  then have "\<exists>g. ?P g" by (auto simp: card_eq_0_iff)
  then have P: "?P (LEAST g. ?P g)" by (rule LeastI_ex)
  let ?g = "LEAST g. ?P g"
  have below: "free_bits bc s h = {}" if "h < ?g" for h
    using not_less_Least [OF that] P that by auto
  have zero: "g_free_blocks_count (group_descs s ! h) = 0 \<longleftrightarrow> free_bits bc s h = {}" if "h < groups s" for h
    using alloc_invD(11) [OF inv that] by (metis card_0_eq finite_free_bits unat_eq_zero)
  show ?thesis
  proof (rule that)
    show lt: "?g < groups s" using P by (rule conjunct1)
    show "g_free_blocks_count (group_descs s ! ?g) \<noteq> 0"
      using P zero [OF lt] by blast
    show "\<forall>h < ?g. free_bits bc s h = {}" using below by blast
    show "\<forall>h < ?g. g_free_blocks_count (group_descs s ! h) = 0"
      using below zero less_trans [OF _ lt] by blast
  qed
qed

lemma alloc_block_result:
  assumes c: "block_cache_contract bc bs kept marked" and inv: "alloc_inv bc bs s"
  shows "s_free_blocks_count (superblock s) = 0 \<Longrightarrow> alloc_block bc rnd i goal s = Some (NO_BLOCK, s)"
    and "s_free_blocks_count (superblock s) \<noteq> 0 \<Longrightarrow> \<exists>g k bm.
      alloc_block bc rnd i goal s = Some (word_of_nat (block_no s g k), take_block bc g bm s) \<and>
      g < groups s \<and> k \<in> free_bits bc s g \<and> (\<forall>h < g. free_bits bc s h = {}) \<and>
      (\<forall>j \<in> free_bits bc s g. k \<le> j) \<and> length bm = bs div 4 \<and>
      (\<forall>j. bit_used bm j \<longleftrightarrow> bit_used (group_bitmap bc s g) j \<or> j = k)"
proof -
  show "s_free_blocks_count (superblock s) = 0 \<Longrightarrow> alloc_block bc rnd i goal s = Some (NO_BLOCK, s)"
    by (simp add: alloc_block_def)
  assume free: "s_free_blocks_count (superblock s) \<noteq> 0"
  have "s_blocks_per_group (superblock s) \<noteq> 0"
    using alloc_invD(3) [OF inv] by (auto simp: per_group_def)
  then have eq: "alloc_block bc rnd i goal s = alloc_block_loop bc (groups s) 0 s"
    using free alloc_invD(8,9) [OF inv] by (simp add: alloc_block_def Let_def groups_def)
  obtain g where g: "g < groups s" "g_free_blocks_count (group_descs s ! g) \<noteq> 0"
    "\<forall>h < g. free_bits bc s h = {}" "\<forall>h < g. g_free_blocks_count (group_descs s ! h) = 0"
    using alloc_block_first [OF inv free] .
  obtain k bm where k: "alloc_block_loop bc (groups s) g s =
      Some (word_of_nat (block_no s g k), take_block bc g bm s)"
    "k \<in> free_bits bc s g" "length bm = bs div 4"
    "\<forall>j. bit_used bm j \<longleftrightarrow> bit_used (group_bitmap bc s g) j \<or> j = k"
    "\<forall>j < k. bit_used (group_bitmap bc s g) j"
    using alloc_block_loop_hit [OF c inv g(1,2)] .
  have "alloc_block_loop bc (groups s) 0 s = alloc_block_loop bc (groups s) g s"
    using g(4) by (intro alloc_block_loop_to [OF inv g(1)]) auto
  moreover have "\<forall>j \<in> free_bits bc s g. k \<le> j"
    using k(5) by (auto simp: free_bits_def not_less [symmetric])
  ultimately show "\<exists>g k bm.
      alloc_block bc rnd i goal s = Some (word_of_nat (block_no s g k), take_block bc g bm s) \<and>
      g < groups s \<and> k \<in> free_bits bc s g \<and> (\<forall>h < g. free_bits bc s h = {}) \<and>
      (\<forall>j \<in> free_bits bc s g. k \<le> j) \<and> length bm = bs div 4 \<and>
      (\<forall>j. bit_used bm j \<longleftrightarrow> bit_used (group_bitmap bc s g) j \<or> j = k)"
    using eq k g by (intro exI [of _ g] exI [of _ k] exI [of _ bm]) simp
qed


section \<open>Freeing a block\<close>

definition give_block :: "'c block_cache \<Rightarrow> nat \<Rightarrow> u32 list \<Rightarrow> u32 \<Rightarrow> 'c ext_state \<Rightarrow> 'c ext_state" where
  "give_block bc g bm b s =
     (let gd = group_descs s ! g in
      s\<lparr>group_descs := (group_descs s)[g := gd\<lparr>g_free_blocks_count := g_free_blocks_count gd + 1\<rparr>],
        superblock := (superblock s)\<lparr>s_free_blocks_count := s_free_blocks_count (superblock s) + 1\<rparr>,
        sb_group_descriptors_dirty := True,
        blocks := bc_invalidate bc b
          (rewrite_cache bc (g_block_bitmap gd) (unwords32 (be_cpu s) bm) (blocks s))\<rparr>)"

text \<open>A block that may be freed: its bit is set and it is no metadata block of any group.\<close>

definition ordinary_block :: "'c ext_state \<Rightarrow> nat \<Rightarrow> bool" where
  "ordinary_block s n \<longleftrightarrow> n \<noteq> 0 \<and>
     (\<forall>h < groups s. check_block_number (group_descs s ! h) (word_of_nat n) s = Some ())"

lemma block_group_bit:
  assumes inv: "alloc_inv bc bs s" and g: "g < groups s" and k: "k < per_group s"
  shows "(word_of_nat (block_no s g k) - s_first_data_block (superblock s)) div
           s_blocks_per_group (superblock s) = word_of_nat g"
    and "(word_of_nat (block_no s g k) - s_first_data_block (superblock s)) mod
           s_blocks_per_group (superblock s) = word_of_nat k"
    and "s_first_data_block (superblock s) \<le> word_of_nat (block_no s g k)"
proof -
  let ?f = "s_first_data_block (superblock s)" and ?m = "s_blocks_per_group (superblock s)"
  have lt: "block_no s g k < 4294967296" by (rule block_no_lt [OF inv g k])
  have u: "unat (word_of_nat (block_no s g k) :: u32) = block_no s g k"
    by (rule unat_word_of_nat32 [OF lt])
  show le: "?f \<le> word_of_nat (block_no s g k)"
    by (simp add: word_le_nat_alt u) (simp add: block_no_def)
  have d: "unat (word_of_nat (block_no s g k) - ?f) = g * per_group s + k"
    by (simp add: unat_sub [OF le] u) (simp add: block_no_def)
  have k32: "unat (word_of_nat k :: u32) = k"
    using k alloc_invD(15) [OF inv] by (intro unat_word_of_nat32) simp
  show "(word_of_nat (block_no s g k) - ?f) div ?m = word_of_nat g"
    using k by (intro word_unat_eq_iff [THEN iffD2])
      (simp only: unat_div_distrib d group_index [OF g], simp add: per_group_def)
  show "(word_of_nat (block_no s g k) - ?f) mod ?m = word_of_nat k"
    using k by (intro word_unat_eq_iff [THEN iffD2])
      (simp only: unat_mod_distrib d k32, simp add: per_group_def)
qed

lemma free_block_result:
  assumes c: "block_cache_contract bc bs kept marked" and inv: "alloc_inv bc bs s"
    and g: "g < groups s" and k: "k < per_group s" and used: "bit_used (group_bitmap bc s g) k"
    and ord: "ordinary_block s (block_no s g k)"
  obtains bm where "free_block bc (word_of_nat (block_no s g k)) s =
      Some (give_block bc g bm (word_of_nat (block_no s g k)) s)"
    "length bm = bs div 4" "\<forall>j. bit_used bm j \<longleftrightarrow> bit_used (group_bitmap bc s g) j \<and> j \<noteq> k"
proof -
  let ?gd = "group_descs s ! g" and ?m = "s_blocks_per_group (superblock s)"
  let ?b = "word_of_nat (block_no s g k) :: u32"
  let ?bm = "group_bitmap bc s g"
  have len: "length ?bm = bs div 4"
    by (simp add: group_bitmap_def block_data_def cache_length [OF c])
  have bs: "4 * (bs div 4) = bs" using alloc_invD(5) [OF inv] by presburger
  have k32: "k < 32 * length ?bm" using k alloc_invD(4) [OF inv] bs len by simp
  obtain bm where bm: "clear_bit ?bm (int k) = Some (0, bm)"
    using clear_bit_set [OF k32 used] by simp
  note cu = clear_bit_used [OF k32 bm]
  have lbm: "length (unwords32 (be_cpu s) bm) = bs" using cu(1) len bs by simp
  have st: "store (unwords32 (be_cpu s) bm) 0 (bc_data bc c' b) = Some (unwords32 (be_cpu s) bm)" for c' b
    using lbm cache_length [OF c, of c' b] by (simp add: store_def splice_def)
  have m0: "?m \<noteq> 0" using alloc_invD(3) [OF inv] by (auto simp: per_group_def)
  have chk: "check_block_number ?gd ?b s = Some ()" using ord g by (simp add: ordinary_block_def)
  then have lt: "\<not> s_blocks_count (superblock s) \<le> ?b" by (auto simp: check_block_number_def split: if_splits)
  have k31: "sint (word_of_nat k :: u32) = int k"
    using k alloc_invD(15) [OF inv] by (subst sint_small) (simp_all add: unat_word_of_nat32)
  note dm = block_group_bit [OF inv g k] 
  have fl: "\<not> ?b < s_first_data_block (superblock s)" using dm(3) by simp
  have "free_block bc ?b s = Some (give_block bc g bm ?b s)"
    unfolding free_block_def Let_def dm(1,2) k31
    using lt fl m0 get_group_desc_nth [OF inv g] chk bm group_index [OF g]
    by (simp add: cache_get_read [OF c] block_data_def st set_block_data_def group_bitmap_def
         put_block_def block_markdirty_def give_block_def Let_def rewrite_cache_def set_group_desc_def
         group_descriptors_markdirty_def invalidate_block_def)
  with cu len show ?thesis by (intro that [of bm]) auto
qed

lemma give_block_simps [simp]:
  "groups (give_block bc g bm b s) = groups s" "per_group (give_block bc g bm b s) = per_group s"
  "block_no (give_block bc g bm b s) = block_no s"
  "be_cpu (give_block bc g bm b s) = be_cpu s"
  by (auto simp: give_block_def Let_def groups_def per_group_def block_no_def fun_eq_iff)

lemma give_block_state:
  assumes c: "block_cache_contract bc bs kept marked" and inv: "alloc_inv bc bs s" and g: "g < groups s"
    and k: "k < per_group s" and set: "bit_used (group_bitmap bc s g) k" and len: "length bm = bs div 4"
    and ord: "ordinary_block s (block_no s g k)"
    and used: "\<forall>j. bit_used bm j \<longleftrightarrow> bit_used (group_bitmap bc s g) j \<and> j \<noteq> k"
    and b: "b = word_of_nat (block_no s g k)"
  shows "h < groups s \<Longrightarrow> free_bits bc (give_block bc g bm b s) h =
      (if h = g then insert k (free_bits bc s g) else free_bits bc s h)"
    and "b' \<noteq> g_block_bitmap (group_descs s ! g) \<Longrightarrow> b' \<noteq> b \<Longrightarrow>
      block_data bc b' (give_block bc g bm b s) = block_data bc b' s"
    and "alloc_inv bc bs (give_block bc g bm b s)"
proof -
  let ?s = "give_block bc g bm b s" and ?bb = "\<lambda>h. g_block_bitmap (group_descs s ! h)"
  have gl: "g < length (group_descs s)" using g alloc_invD(2) [OF inv] by simp
  have lbm: "length (unwords32 (be_cpu s) bm) = bs"
    using len alloc_invD(5) [OF inv] by simp presburger
  have nbb: "b \<noteq> ?bb h" if "h < groups s" for h
    using ord that b by (auto simp: ordinary_block_def check_block_number_def split: if_splits)
  have data: "block_data bc b' ?s = (if b' = ?bb g then unwords32 (be_cpu s) bm else block_data bc b' s)"
    if "b' \<noteq> b" for b'
    by (simp add: block_data_def give_block_def Let_def cache_invalidate(1) [OF c that] rewrite_cache [OF c lbm])
  then show "b' \<noteq> ?bb g \<Longrightarrow> b' \<noteq> b \<Longrightarrow> block_data bc b' ?s = block_data bc b' s" by simp
  have bb: "g_block_bitmap (group_descs ?s ! h) = ?bb h" for h
    using gl by (cases "h = g") (auto simp: give_block_def Let_def)
  have bm: "group_bitmap bc ?s h = (if h = g then bm else group_bitmap bc s h)" if h: "h < groups s" for h
    using data [of "?bb h"] nbb [OF h] alloc_invD(10) [OF inv h g]
    by (auto simp: group_bitmap_def bb)
  have fr: "free_bits bc ?s h = (if h = g then insert k (free_bits bc s g) else free_bits bc s h)"
    if "h < groups s" for h
    using used k by (auto simp: free_bits_def bm [OF that])
  then show "h < groups s \<Longrightarrow> free_bits bc ?s h =
    (if h = g then insert k (free_bits bc s g) else free_bits bc s h)" .
  have kn: "k \<notin> free_bits bc s g" using set by (simp add: free_bits_def)
  have card_le: "card (free_bits bc s h) \<le> per_group s" for h
    using card_mono [of "{..<per_group s}" "free_bits bc s h"] by (auto simp: free_bits_def)
  have card: "card (free_bits bc ?s g) = Suc (card (free_bits bc s g))"
    using kn by (simp add: fr [OF g])
  have card_lt: "Suc (card (free_bits bc s g)) \<le> per_group s"
    using card_mono [of "{..<per_group s}" "insert k (free_bits bc s g)"] kn k by (auto simp: free_bits_def)
  have inc16: "unat (w + 1) = Suc (unat w)" if "Suc (unat w) < 65536" for w :: u16
    using that by (simp add: unat_word_ariths mod_less)
  have inc32: "unat (w + 1) = Suc (unat w)" if "Suc (unat w) < 4294967296" for w :: u32
    using that by (simp add: unat_word_ariths mod_less)
  have gds: "g_free_blocks_count (group_descs ?s ! h) = (if h = g
      then g_free_blocks_count (group_descs s ! g) + 1 else g_free_blocks_count (group_descs s ! h))" for h
    using gl by (simp add: give_block_def Let_def)
  have gf: "unat (g_free_blocks_count (group_descs ?s ! h)) = card (free_bits bc ?s h)" if h: "h < groups s" for h
  proof (cases "h = g")
    case True
    have "Suc (unat (g_free_blocks_count (group_descs s ! g))) < 65536"
      using alloc_invD(11) [OF inv g] card_lt alloc_invD(15) [OF inv] by simp
    with True card alloc_invD(11) [OF inv g] show ?thesis by (simp add: gds inc16)
  next
    case False
    then show ?thesis using alloc_invD(11) [OF inv h] by (simp add: fr [OF h] gds)
  qed
  have sum: "(\<Sum>h<groups s. card (free_bits bc ?s h)) = Suc (\<Sum>h<groups s. card (free_bits bc s h))"
  proof -
    have "(\<Sum>h<groups s. card (free_bits bc ?s h)) =
      card (free_bits bc ?s g) + (\<Sum>h\<in>{..<groups s} - {g}. card (free_bits bc ?s h))"
      using g by (intro sum.remove) auto
    also have "(\<Sum>h\<in>{..<groups s} - {g}. card (free_bits bc ?s h)) =
      (\<Sum>h\<in>{..<groups s} - {g}. card (free_bits bc s h))"
      by (rule sum.cong) (auto simp: fr)
    also have "card (free_bits bc ?s g) + (\<Sum>h\<in>{..<groups s} - {g}. card (free_bits bc s h)) =
      Suc (card (free_bits bc s g) + (\<Sum>h\<in>{..<groups s} - {g}. card (free_bits bc s h)))"
      using card by simp
    also have "\<dots> = Suc (\<Sum>h<groups s. card (free_bits bc s h))"
      using g by (subst sum.remove [of _ g]) auto
    finally show ?thesis .
  qed
  have tot: "unat (s_free_blocks_count (superblock ?s)) = (\<Sum>h<groups s. card (free_bits bc ?s h))"
  proof -
    have "(\<Sum>h<groups s. card (free_bits bc ?s h)) \<le> (\<Sum>h<groups s. per_group s)"
    proof (rule sum_mono)
      fix h assume "h \<in> {..<groups s}"
      then show "card (free_bits bc ?s h) \<le> per_group s"
        using card_le [of h] card_lt kn by (auto simp: fr)
    qed
    then have "Suc (unat (s_free_blocks_count (superblock s))) < 4294967296"
      using sum alloc_invD(7,12) [OF inv] by simp
    then show ?thesis using alloc_invD(12) [OF inv] sum by (simp add: give_block_def Let_def inc32)
  qed
  have chk: "block_no s h i \<noteq> 0 \<and>
      check_block_number (group_descs ?s ! h') (word_of_nat (block_no s h i)) ?s = Some ()"
    if h: "h < groups s" and i: "i \<in> free_bits bc ?s h" and h': "h' < groups s" for h h' i
  proof -
    have "block_no s h i \<noteq> 0 \<and>
      check_block_number (group_descs s ! h') (word_of_nat (block_no s h i)) s = Some ()"
    proof (cases "h = g \<and> i = k")
      case True
      with ord h' show ?thesis by (simp add: ordinary_block_def)
    next
      case False
      then have i': "i \<in> free_bits bc s h" using i fr [OF h] by (auto split: if_splits)
      show ?thesis using alloc_invD(13) [OF inv h i' h'] alloc_invD(14) [OF inv h i'] by simp
    qed
    moreover have "g_inode_bitmap (group_descs ?s ! h') = g_inode_bitmap (group_descs s ! h')"
      "g_inode_table (group_descs ?s ! h') = g_inode_table (group_descs s ! h')"
      using gl by (cases "h' = g"; simp add: give_block_def Let_def)+
    moreover have "check_block_number (group_descs ?s ! h') b' ?s = check_block_number (group_descs s ! h') b' s" for b'
      by (rule check_block_number_cong [OF _ _ bb calculation(2,3)]) (simp_all add: give_block_def Let_def)
    ultimately show ?thesis by simp
  qed
  show "alloc_inv bc bs ?s"
    using alloc_invD(1-9,15) [OF inv] alloc_invD(10) [OF inv] gf tot chk
    unfolding alloc_inv_def inj_on_def
    by (simp add: bb) (simp add: give_block_def Let_def)
qed


section \<open>Block numbers are slots\<close>

definition block_limit :: "'c ext_state \<Rightarrow> nat" where
  "block_limit s = unat (s_first_data_block (superblock s)) + groups s * per_group s"

definition block_used :: "'c block_cache \<Rightarrow> 'c ext_state \<Rightarrow> nat \<Rightarrow> bool" where
  "block_used bc s n \<longleftrightarrow> \<not> (\<exists>g < groups s. \<exists>k \<in> free_bits bc s g. n = block_no s g k)"

definition block_owned :: "'c block_cache \<Rightarrow> 'c ext_state \<Rightarrow> nat \<Rightarrow> bool" where
  "block_owned bc s n \<longleftrightarrow> ordinary_block s n \<and>
     (\<exists>g < groups s. \<exists>k < per_group s. n = block_no s g k \<and> bit_used (group_bitmap bc s g) k)"

definition slot_alloc :: "'c block_cache \<Rightarrow> nat \<Rightarrow> nat \<Rightarrow> 'c ext_state \<Rightarrow> nat option \<times> 'c ext_state" where
  "slot_alloc bc rnd i s =
     (case alloc_block bc rnd i NO_BLOCK s of
        None \<Rightarrow> (None, s)
      | Some (b, s') \<Rightarrow> (if b = NO_BLOCK then None else Some (unat b), s'))"

definition slot_free :: "'c block_cache \<Rightarrow> 'c ext_state \<Rightarrow> nat \<Rightarrow> 'c ext_state option" where
  "slot_free bc s n = free_block bc (word_of_nat n) s"

lemma block_no_inj:
  assumes "block_no s g k = block_no s h j" and "k < per_group s" and "j < per_group s"
  shows "g = h \<and> k = j"
proof -
  let ?m = "per_group s"
  have e: "g * ?m + k = h * ?m + j" using assms(1) by (simp add: block_no_def)
  have "(g * ?m + k) div ?m = g" "(g * ?m + k) mod ?m = k"
    "(h * ?m + j) div ?m = h" "(h * ?m + j) mod ?m = j" using assms(2,3) by simp_all
  with e show ?thesis by metis
qed

lemma block_used_no:
  "g < groups s \<Longrightarrow> k < per_group s \<Longrightarrow> block_used bc s (block_no s g k) \<longleftrightarrow> bit_used (group_bitmap bc s g) k"
  using block_no_inj [of s g k] by (auto simp: block_used_def free_bits_def)

lemma unat_block_no:
  "alloc_inv bc bs s \<Longrightarrow> g < groups s \<Longrightarrow> k < per_group s \<Longrightarrow>
   unat (word_of_nat (block_no s g k) :: u32) = block_no s g k"
  by (intro unat_word_of_nat32 block_no_lt)

lemma block_no_limit: "g < groups s \<Longrightarrow> k < per_group s \<Longrightarrow> block_no s g k < block_limit s"
proof -
  assume "g < groups s" "k < per_group s"
  then have "g * per_group s + k < Suc g * per_group s" by simp
  also have "\<dots> \<le> groups s * per_group s" using \<open>g < groups s\<close> by (intro mult_le_mono1) simp
  finally show ?thesis by (simp add: block_no_def block_limit_def)
qed

lemma ordinary_take [simp]:
  "g < length (group_descs s) \<Longrightarrow> ordinary_block (take_block bc g bm s) n = ordinary_block s n"
proof -
  assume gl: "g < length (group_descs s)"
  have "check_block_number (group_descs (take_block bc g bm s) ! h) b (take_block bc g bm s) =
    check_block_number (group_descs s ! h) b s" for h b
    using gl by (intro check_block_number_cong; cases "h = g") (simp_all add: take_block_def Let_def)
  then show ?thesis by (simp add: ordinary_block_def)
qed

lemma ordinary_give [simp]:
  "g < length (group_descs s) \<Longrightarrow> ordinary_block (give_block bc g bm b s) n = ordinary_block s n"
proof -
  assume gl: "g < length (group_descs s)"
  have "check_block_number (group_descs (give_block bc g bm b s) ! h) b' (give_block bc g bm b s) =
    check_block_number (group_descs s ! h) b' s" for h b'
    using gl by (intro check_block_number_cong; cases "h = g") (simp_all add: give_block_def Let_def)
  then show ?thesis by (simp add: ordinary_block_def)
qed

text \<open>What is used after a bit was taken or given back, in terms of the free bits.\<close>

lemma block_used_free_bits:
  assumes "groups s' = groups s" "per_group s' = per_group s" "block_no s' = block_no s"
    and "\<And>h. h < groups s \<Longrightarrow> free_bits bc s' h = F h"
  shows "block_used bc s' n \<longleftrightarrow> \<not> (\<exists>h < groups s. \<exists>k \<in> F h. n = block_no s h k)"
  using assms by (auto simp: block_used_def)

lemma block_used_take:
  assumes "\<And>h. h < groups s \<Longrightarrow> free_bits bc s' h = (if h = g then free_bits bc s g - {k} else free_bits bc s h)"
    and "groups s' = groups s" "per_group s' = per_group s" "block_no s' = block_no s"
    and g: "g < groups s" and k: "k \<in> free_bits bc s g"
  shows "block_used bc s' n \<longleftrightarrow> block_used bc s n \<or> n = block_no s g k"
proof -
  have in_per: "j < per_group s" if "j \<in> free_bits bc s h" for h j using that by (simp add: free_bits_def)
  have "block_used bc s' n \<longleftrightarrow>
      \<not> (\<exists>h < groups s. \<exists>j \<in> (if h = g then free_bits bc s g - {k} else free_bits bc s h). n = block_no s h j)"
    by (rule block_used_free_bits [OF assms(2-4) assms(1)])
  moreover have "(\<exists>h < groups s. \<exists>j \<in> (if h = g then free_bits bc s g - {k} else free_bits bc s h). n = block_no s h j)
      \<longleftrightarrow> (\<exists>h < groups s. \<exists>j \<in> free_bits bc s h. n = block_no s h j) \<and> n \<noteq> block_no s g k" (is "?L \<longleftrightarrow> ?R")
  proof
    assume ?L
    then obtain h j where h: "h < groups s" "j \<in> free_bits bc s h" "n = block_no s h j" "\<not> (h = g \<and> j = k)"
      by (auto split: if_splits)
    have "j < per_group s" "k < per_group s" using in_per h(2) k by auto
    with block_no_inj [of s h j g k] h(3,4) have "n \<noteq> block_no s g k" by auto
    with h show ?R by blast
  next
    assume ?R
    then obtain h j where "h < groups s" "j \<in> free_bits bc s h" "n = block_no s h j" "n \<noteq> block_no s g k"
      by blast
    then show ?L by (intro exI [of _ h] conjI bexI [of _ j]) auto
  qed
  ultimately show ?thesis by (simp only: block_used_def) blast
qed

lemma block_used_give:
  assumes "\<And>h. h < groups s \<Longrightarrow> free_bits bc s' h = (if h = g then insert k (free_bits bc s g) else free_bits bc s h)"
    and "groups s' = groups s" "per_group s' = per_group s" "block_no s' = block_no s"
    and g: "g < groups s" and k: "k < per_group s"
  shows "block_used bc s' n \<longleftrightarrow> block_used bc s n \<and> n \<noteq> block_no s g k"
proof -
  have "block_used bc s' n \<longleftrightarrow>
      \<not> (\<exists>h < groups s. \<exists>j \<in> (if h = g then insert k (free_bits bc s g) else free_bits bc s h). n = block_no s h j)"
    by (rule block_used_free_bits [OF assms(2-4) assms(1)])
  then show ?thesis using g by (auto simp: block_used_def)
qed

lemma block_owned_iff:
  "block_owned bc s n \<longleftrightarrow> ordinary_block s n \<and>
     (\<exists>g < groups s. \<exists>k < per_group s. n = block_no s g k) \<and> block_used bc s n"
  unfolding block_owned_def using block_used_no [of _ s] by blast

interpretation ext_blocks: slot_allocator
    "\<lambda>s. block_cache_contract bc bs kept marked \<and> alloc_inv bc bs s" block_limit "block_used bc"
    "block_owned bc" "slot_alloc bc rnd i" "slot_free bc"
  for bc :: "'c block_cache" and bs :: nat and kept :: "'c \<Rightarrow> u32 \<Rightarrow> bytes" and marked :: "'c \<Rightarrow> u32 set"
    and rnd i :: nat
proof (unfold_locales, goal_cases)
  case (1 s n s')
  then have c: "block_cache_contract bc bs kept marked" and inv: "alloc_inv bc bs s"
    and a: "slot_alloc bc rnd i s = (Some n, s')" by auto
  have "s_free_blocks_count (superblock s) \<noteq> 0"
    using a alloc_block_result(1) [OF c inv, of rnd i NO_BLOCK] by (auto simp: slot_alloc_def)
  then obtain g k bm where r: "alloc_block bc rnd i NO_BLOCK s =
      Some (word_of_nat (block_no s g k), take_block bc g bm s)"
    "g < groups s" "k \<in> free_bits bc s g" "length bm = bs div 4"
    "\<forall>j. bit_used bm j \<longleftrightarrow> bit_used (group_bitmap bc s g) j \<or> j = k"
    using alloc_block_result(2) [OF c inv, of rnd i NO_BLOCK] by blast
  have k: "k < per_group s" using r(3) by (simp add: free_bits_def)
  have gl: "g < length (group_descs s)" using r(2) alloc_invD(2) [OF inv] by simp
  have n: "n = block_no s g k" "s' = take_block bc g bm s"
    using a r(1) unat_block_no [OF inv r(2) k] by (auto simp: slot_alloc_def split: if_splits)
  note st = take_block_state [OF c inv r(2-5)]
  have used: "block_used bc s' j \<longleftrightarrow> block_used bc s j \<or> j = n" for j
    unfolding n by (rule block_used_take) (use st(1) r(2,3) in auto)
  have "ordinary_block s n"
    using alloc_invD(13,14) [OF inv r(2,3)] by (auto simp: ordinary_block_def n)
  moreover have "\<not> block_used bc s n" using r(2,3) by (auto simp: block_used_def n)
  moreover have "block_limit s' = block_limit s"
    by (simp add: block_limit_def n(2)) (simp add: take_block_def Let_def)
  moreover have "block_owned bc s' n"
    using \<open>ordinary_block s n\<close> used r(2) k gl
    by (simp only: block_owned_iff n(2) ordinary_take take_block_simps) (use n(1) in blast)
  moreover have "block_owned bc s j \<Longrightarrow> block_owned bc s' j" for j
    using gl used by (simp only: block_owned_iff n(2) ordinary_take take_block_simps) simp
  moreover have "alloc_inv bc bs s'" unfolding n(2) by (rule st(3))
  ultimately show ?case
    using c used block_no_limit [OF r(2) k] n(1) by blast
next
  case (2 s s')
  then have c: "block_cache_contract bc bs kept marked" and inv: "alloc_inv bc bs s"
    and a: "slot_alloc bc rnd i s = (None, s')" by auto
  have z: "s_free_blocks_count (superblock s) = 0"
  proof (rule ccontr)
    assume "s_free_blocks_count (superblock s) \<noteq> 0"
    then obtain g k bm where r: "alloc_block bc rnd i NO_BLOCK s =
        Some (word_of_nat (block_no s g k), take_block bc g bm s)" "g < groups s" "k \<in> free_bits bc s g"
      using alloc_block_result(2) [OF c inv, of rnd i NO_BLOCK] by blast
    moreover have "k < per_group s" using r(3) by (simp add: free_bits_def)
    ultimately have "word_of_nat (block_no s g k) \<noteq> (0 :: u32)"
      using alloc_invD(14) [OF inv r(2,3)] unat_block_no [OF inv r(2)] by (metis unat_0)
    with a r(1) show False by (simp add: slot_alloc_def)
  qed
  then have "free_bits bc s g = {}" if "g < groups s" for g
    using alloc_invD(12) [OF inv] that by simp
  with a c inv alloc_block_result(1) [OF c inv z, of rnd i NO_BLOCK] show ?case
    by (auto simp: slot_alloc_def block_used_def)
next
  case (3 s n)
  then show ?case using block_no_limit by (auto simp: block_owned_iff)
next
  case (4 s n)
  then have c: "block_cache_contract bc bs kept marked" and inv: "alloc_inv bc bs s" by auto
  from 4 obtain g k where n: "n = block_no s g k" "g < groups s" "k < per_group s"
    "bit_used (group_bitmap bc s g) k" and ord: "ordinary_block s (block_no s g k)"
    by (auto simp: block_owned_def)
  obtain bm where f: "free_block bc (word_of_nat (block_no s g k)) s =
      Some (give_block bc g bm (word_of_nat (block_no s g k)) s)"
    "length bm = bs div 4" "\<forall>j. bit_used bm j \<longleftrightarrow> bit_used (group_bitmap bc s g) j \<and> j \<noteq> k"
    by (rule free_block_result [OF c inv n(2-4) ord])
  let ?s = "give_block bc g bm (word_of_nat (block_no s g k)) s"
  note st = give_block_state [OF c inv n(2-4) f(2) ord f(3) refl]
  have gl: "g < length (group_descs s)" using n(2) alloc_invD(2) [OF inv] by simp
  have used: "block_used bc ?s j \<longleftrightarrow> block_used bc s j \<and> j \<noteq> n" for j
    unfolding n(1) by (rule block_used_give) (use st(1) n(2,3) in auto)
  have own: "block_owned bc s j \<Longrightarrow> j \<noteq> n \<Longrightarrow> block_owned bc ?s j" for j
    using gl used by (simp only: block_owned_iff ordinary_give give_block_simps) simp
  have lim: "block_limit ?s = block_limit s"
    by (simp add: block_limit_def) (simp add: give_block_def Let_def)
  have "slot_free bc s n = Some ?s" using f(1) by (simp only: slot_free_def n(1))
  with c st(3) used own lim show ?case by blast
qed


section \<open>What the allocation of blocks promises\<close>

text \<open>
  A file system of one group with blocks of 4 bytes, numbered from 1: the two bitmaps and the inode
  table are the blocks 1 to 3, block 5 is in use and the blocks 4, 6, 7 and 8 are free.
\<close>

definition demo_ext :: "memory_cache ext_state" where
  "demo_ext = (ext_globals \<lparr>mc_data = (\<lambda>b. [0x17, 0, 0, 0]), mc_kept = (\<lambda>b. [0x17, 0, 0, 0]), mc_marked = {}\<rparr>)
     \<lparr>superblock := zero_superblock\<lparr>s_blocks_count := 9, s_free_blocks_count := 4, s_first_data_block := 1,
        s_blocks_per_group := 8, s_inodes_per_group := 1\<rparr>,
      group_descs := [\<lparr>g_block_bitmap = 1, g_inode_bitmap = 2, g_inode_table = 3, g_free_blocks_count = 4,
        g_free_inodes_count = 0, g_used_dirs_count = 0, g_pad = 0, g_reserved = []\<rparr>],
      sb_groups_count := 1, sb_inode_table_blocks_per_group := 1, sb_block_size := 4,
      sb_sectors_in_block := 1\<rparr>"

lemma demo_ext_simps [simp]:
  "groups demo_ext = 1" "per_group demo_ext = 8" "block_no demo_ext 0 i = 1 + i" 
  by (simp_all add: demo_ext_def groups_def per_group_def block_no_def)

lemma demo_ext_bitmap: "group_bitmap (memory_block_cache 4) demo_ext 0 = [0x17]"
  by (simp add: group_bitmap_def block_data_def demo_ext_def memory_block_cache_def fit_def ext_globals_def words32_def
       upt_rec dec32_def)

lemma demo_ext_free: "free_bits (memory_block_cache 4) demo_ext 0 = {3, 5, 6, 7}"
proof -
  have "free_bits (memory_block_cache 4) demo_ext 0 = Set.filter (\<lambda>i. \<not> bit_used [0x17] i) (set [0..<8])"
    by (auto simp: free_bits_def demo_ext_bitmap)
  also have "\<dots> = {3, 5, 6, 7}" by code_simp
  finally show ?thesis .
qed

lemma demo_ext_inv: "alloc_inv (memory_block_cache 4) 4 demo_ext"
  unfolding alloc_inv_def
  apply (simp add: demo_ext_free)
  apply (simp add: demo_ext_def ext_globals_def check_block_number_def inj_on_def)
  done

lemma demo_ext_used: "block_used (memory_block_cache 4) demo_ext n \<longleftrightarrow> n \<notin> {4, 6, 7, 8}"
  by (auto simp: block_used_def demo_ext_free)

lemma card_free_blocks:
  assumes "alloc_inv bc bs s"
  shows "card {m. \<not> block_used bc s m} = unat (s_free_blocks_count (superblock s))"
proof -
  have in_per: "k < per_group s" if "k \<in> free_bits bc s g" for g k using that by (simp add: free_bits_def)
  have "{m. \<not> block_used bc s m} = (\<Union>g\<in>{..<groups s}. block_no s g ` free_bits bc s g)"
    by (auto simp: block_used_def)
  also have "card \<dots> = (\<Sum>g<groups s. card (block_no s g ` free_bits bc s g))"
  proof (rule card_UN_disjoint)
    have "block_no s g k \<noteq> block_no s h j" if "g \<noteq> h" "k \<in> free_bits bc s g" "j \<in> free_bits bc s h" for g h k j
      using block_no_inj [of s g k h j] in_per that by blast
    then show "\<forall>g\<in>{..<groups s}. \<forall>h\<in>{..<groups s}. g \<noteq> h \<longrightarrow>
        block_no s g ` free_bits bc s g \<inter> block_no s h ` free_bits bc s h = {}" by blast
  qed auto
  also have "\<dots> = (\<Sum>g<groups s. card (free_bits bc s g))"
    by (intro sum.cong refl card_image inj_onI) (simp add: block_no_def)
  also have "\<dots> = unat (s_free_blocks_count (superblock s))" using alloc_invD(12) [OF assms] by simp
  finally show ?thesis .
qed

lemma block_slots:
  assumes "block_cache_contract bc bs kept marked" and "alloc_inv bc bs s"
  shows "ext_blocks.free_slots bc s = {n. \<not> block_used bc s n}"
  unfolding ext_blocks.free_slots_def
  using block_no_limit by (auto simp: block_used_def free_bits_def)

text \<open>C13. While a block is free, \<open>alloc_block\<close> returns the free block with the least number, whatever
  goal was asked for; afterwards exactly that block has become used, the free counts of the group and
  the superblock still agree with the bitmaps, and no block but the bitmap of its group was written.\<close>

theorem alloc_block_least:
  assumes c: "block_cache_contract bc bs kept marked" and inv: "alloc_inv bc bs s"
    and free: "\<not> block_used bc s n"
  shows "\<exists>b s'. alloc_block bc rnd i goal s = Some (b, s') \<and> b \<noteq> NO_BLOCK \<and>
    \<not> block_used bc s (unat b) \<and> (\<forall>m. \<not> block_used bc s m \<longrightarrow> unat b \<le> m) \<and>
    (\<forall>m. block_used bc s' m \<longleftrightarrow> block_used bc s m \<or> m = unat b) \<and> alloc_inv bc bs s' \<and>
    (\<forall>b'. b' \<notin> g_block_bitmap ` set (group_descs s) \<longrightarrow> block_data bc b' s' = block_data bc b' s)"
proof -
  obtain h j where "h < groups s" "j \<in> free_bits bc s h"
    using free by (auto simp: block_used_def)
  then have "s_free_blocks_count (superblock s) \<noteq> 0"
    using alloc_invD(12) [OF inv] by (auto simp: card_eq_0_iff)
  then obtain g k bm where a: "alloc_block bc rnd i goal s = Some (word_of_nat (block_no s g k), take_block bc g bm s)"
    "g < groups s" "k \<in> free_bits bc s g" "\<forall>h < g. free_bits bc s h = {}" "\<forall>j \<in> free_bits bc s g. k \<le> j"
    "length bm = bs div 4" "\<forall>j. bit_used bm j \<longleftrightarrow> bit_used (group_bitmap bc s g) j \<or> j = k"
    using alloc_block_result(2) [OF c inv, of rnd i goal] by blast
  have k: "k < per_group s" using a(3) by (simp add: free_bits_def)
  note u = unat_block_no [OF inv a(2) k]
  note st = take_block_state [OF c inv a(2,3,6,7)]
  have least: "block_no s g k \<le> m" if free: "\<not> block_used bc s m" for m
  proof -
    obtain h j where m: "h < groups s" "j \<in> free_bits bc s h" "m = block_no s h j"
      using free unfolding block_used_def by blast
    show ?thesis
    proof (cases "h = g")
      case True
      with m a(5) show ?thesis by (simp add: block_no_def)
    next
      case False
      with m a(4) have "Suc g \<le> h" by (metis Suc_leI empty_iff linorder_neqE_nat)
      then have "Suc g * per_group s \<le> h * per_group s" by (intro mult_le_mono1)
      with k m(3) show ?thesis by (simp add: block_no_def)
    qed
  qed
  have nz: "word_of_nat (block_no s g k) \<noteq> (0 :: u32)"
    using alloc_invD(14) [OF inv a(2,3)] u by (metis unat_0)
  have used: "block_used bc (take_block bc g bm s) m \<longleftrightarrow> block_used bc s m \<or> m = block_no s g k" for m
    by (rule block_used_take) (use st(1) a(2,3) in auto)
  have "g_block_bitmap (group_descs s ! g) \<in> g_block_bitmap ` set (group_descs s)"
    using a(2) alloc_invD(2) [OF inv] by simp
  then have bb: "\<forall>b'. b' \<notin> g_block_bitmap ` set (group_descs s) \<longrightarrow>
      block_data bc b' (take_block bc g bm s) = block_data bc b' s"
    using st(2) by metis
  have nu: "\<not> block_used bc s (block_no s g k)" using a(2,3) by (auto simp: block_used_def)
  show ?thesis
    using a(1) u nz nu least used st(3) bb
    by (intro exI [of _ "word_of_nat (block_no s g k)"] exI [of _ "take_block bc g bm s"]) auto
qed

theorem alloc_block_least_witness:
  "\<exists>b s'. alloc_block (memory_block_cache 4) 0 0 7 demo_ext = Some (b, s') \<and> b \<noteq> NO_BLOCK \<and>
    \<not> block_used (memory_block_cache 4) demo_ext (unat b) \<and>
    (\<forall>m. \<not> block_used (memory_block_cache 4) demo_ext m \<longrightarrow> unat b \<le> m) \<and>
    (\<forall>m. block_used (memory_block_cache 4) s' m \<longleftrightarrow>
       block_used (memory_block_cache 4) demo_ext m \<or> m = unat b) \<and>
    alloc_inv (memory_block_cache 4) 4 s' \<and>
    (\<forall>b'. b' \<notin> g_block_bitmap ` set (group_descs demo_ext) \<longrightarrow>
       block_data (memory_block_cache 4) b' s' = block_data (memory_block_cache 4) b' demo_ext)"
  by (rule alloc_block_least [OF memory_cache_contract demo_ext_inv, of 4]) (simp add: demo_ext_used)

text \<open>C14. A block that \<open>alloc_block\<close> returned can be given back with \<open>free_block\<close>, which then succeeds,
  keeps the bitmaps and counts consistent, and makes the same blocks free as before.\<close>

theorem alloc_block_free_block:
  assumes "block_cache_contract bc bs kept marked" and "alloc_inv bc bs s"
    and "alloc_block bc rnd i NO_BLOCK s = Some (b, s')" and "b \<noteq> NO_BLOCK"
  shows "\<exists>s''. free_block bc b s' = Some s'' \<and> alloc_inv bc bs s'' \<and>
    (\<forall>n < block_limit s. block_used bc s'' n \<longleftrightarrow> block_used bc s n)"
proof -
  have "slot_alloc bc rnd i s = (Some (unat b), s')" using assms(3,4) by (simp add: slot_alloc_def)
  with assms(1,2) obtain s'' where "slot_free bc s' (unat b) = Some s''" "alloc_inv bc bs s''"
    "\<forall>n < block_limit s. block_used bc s'' n = block_used bc s n"
    using ext_blocks.alloc_then_free [of bc bs kept marked s rnd i "unat b" s'] by blast
  then show ?thesis by (intro exI [of _ s'']) (simp add: slot_free_def)
qed

lemma demo_ext_alloc:
  obtains s' where "alloc_block (memory_block_cache 4) 0 0 NO_BLOCK demo_ext = Some (4, s')"
proof -
  obtain g k bm where a: "alloc_block (memory_block_cache 4) 0 0 NO_BLOCK demo_ext =
      Some (word_of_nat (block_no demo_ext g k), take_block (memory_block_cache 4) g bm demo_ext)"
    "g < groups demo_ext" "k \<in> free_bits (memory_block_cache 4) demo_ext g"
    "\<forall>j \<in> free_bits (memory_block_cache 4) demo_ext g. k \<le> j"
    using alloc_block_result(2) [OF memory_cache_contract demo_ext_inv, of 0 0 NO_BLOCK]
    by (auto simp: demo_ext_def)
  then have "g = 0" "k = 3" by (auto simp: demo_ext_free)
  with a(1) show ?thesis by (intro that) simp
qed

theorem alloc_block_free_block_witness:
  "\<exists>s' s''. alloc_block (memory_block_cache 4) 0 0 NO_BLOCK demo_ext = Some (4, s') \<and>
    free_block (memory_block_cache 4) 4 s' = Some s'' \<and> alloc_inv (memory_block_cache 4) 4 s'' \<and>
    (\<forall>n < block_limit demo_ext. block_used (memory_block_cache 4) s'' n \<longleftrightarrow>
       block_used (memory_block_cache 4) demo_ext n)"
proof -
  obtain s' where a: "alloc_block (memory_block_cache 4) 0 0 NO_BLOCK demo_ext = Some (4, s')"
    by (rule demo_ext_alloc)
  from alloc_block_free_block [OF memory_cache_contract demo_ext_inv a] a show ?thesis by auto
qed

text \<open>Repeated allocation, as the handlers do it.\<close>

fun alloc_blocks ::
    "'c block_cache \<Rightarrow> nat \<Rightarrow> nat \<Rightarrow> nat \<Rightarrow> 'c ext_state \<Rightarrow> nat list \<times> 'c ext_state" where
  "alloc_blocks bc rnd i 0 s = ([], s)"
| "alloc_blocks bc rnd i (Suc n) s =
     (case slot_alloc bc rnd i s of
        (None, s') \<Rightarrow> ([], s')
      | (Some b, s') \<Rightarrow> (case alloc_blocks bc rnd i n s' of (bs, s'') \<Rightarrow> (b # bs, s'')))"

lemma alloc_blocks_many: "alloc_blocks bc rnd i n s = ext_blocks.alloc_many bc rnd i n s"
  by (induction n arbitrary: s) (auto split: prod.splits option.splits)

text \<open>C15. A run of \<open>n\<close> allocations returns pairwise distinct free blocks, as many as asked for while
  the free count of the superblock allows, and takes exactly these.\<close>

theorem alloc_blocks_distinct:
  assumes c: "block_cache_contract bc bs kept marked" and inv: "alloc_inv bc bs s"
    and run: "alloc_blocks bc rnd i n s = (ns, s')"
  shows "distinct ns \<and> (\<forall>b \<in> set ns. \<not> block_used bc s b) \<and>
    length ns = min n (unat (s_free_blocks_count (superblock s))) \<and> alloc_inv bc bs s' \<and>
    (\<forall>m. block_used bc s' m \<longleftrightarrow> block_used bc s m \<or> m \<in> set ns)"
proof -
  have "ext_blocks.alloc_many bc rnd i n s = (ns, s')" using run by (simp add: alloc_blocks_many)
  note m = ext_blocks.alloc_many_distinct [OF conjI [OF c inv] this]
  then have inv': "alloc_inv bc bs s'" by simp
  note fs = block_slots [OF c inv] and fs' = block_slots [OF c inv']
  have "card {m. \<not> block_used bc s m} = unat (s_free_blocks_count (superblock s))"
    by (rule card_free_blocks [OF inv])
  with m show ?thesis unfolding fs fs' by (auto simp: set_eq_iff subset_iff)
qed

theorem alloc_blocks_distinct_witness:
  "case alloc_blocks (memory_block_cache 4) 0 0 6 demo_ext of (ns, s') \<Rightarrow>
    distinct ns \<and> (\<forall>b \<in> set ns. \<not> block_used (memory_block_cache 4) demo_ext b) \<and>
    length ns = min 6 (unat (s_free_blocks_count (superblock demo_ext))) \<and>
    alloc_inv (memory_block_cache 4) 4 s' \<and>
    (\<forall>m. block_used (memory_block_cache 4) s' m \<longleftrightarrow>
       block_used (memory_block_cache 4) demo_ext m \<or> m \<in> set ns)"
proof -
  obtain ns s' where r: "alloc_blocks (memory_block_cache 4) 0 0 6 demo_ext = (ns, s')" by fastforce
  show ?thesis
    unfolding r prod.case by (rule alloc_blocks_distinct [OF memory_cache_contract demo_ext_inv r])
qed

end
