(* ===== verification/FatSector.thy ===== *)
theory FatSector
  imports Prelude
begin

text \<open>
  sector.c of fatfs: a write-back cache of sectors with hash chains, an LRU list, a free list and
  a list of dirty blocks. A \<open>struct Blk *\<close> is the index of the block in \<open>blk_table\<close>, and the
  intrusive lists are lists of such indices.
\<close>

section \<open>The device and the cache\<close>

text \<open>
  The block device is outside the repository: \<open>dv_read d pos\<close> are the bytes a \<open>read\<close> of 512 bytes at
  the offset delivers (fewer on an error, which the code does not notice, since it keeps the result
  in a \<open>size_t\<close>), \<open>dv_write pos bs d\<close> is the device after a \<open>write\<close>.
\<close>

record 'd block_device =
  dv_read :: "'d \<Rightarrow> nat \<Rightarrow> bytes"
  dv_write :: "nat \<Rightarrow> bytes \<Rightarrow> 'd \<Rightarrow> 'd"

text \<open>What a device of \<open>cap\<close> sectors does: a sector holds what was last written to it.\<close>

definition device_contract :: "'d block_device \<Rightarrow> nat \<Rightarrow> bool" where
  "device_contract dv cap \<longleftrightarrow> cap \<le> 4294967296 \<and>
     (\<forall>d n. n < cap \<longrightarrow> length (dv_read dv d (n * 512)) = 512) \<and>
     (\<forall>d n bs m. n < cap \<longrightarrow> m < cap \<longrightarrow> length bs = 512 \<longrightarrow>
        dv_read dv (dv_write dv (n * 512) bs d) (m * 512) =
          (if m = n then bs else dv_read dv d (m * 512)))"

abbreviation (input) BUF_HASH_CNT :: nat where "BUF_HASH_CNT \<equiv> 64"
abbreviation (input) BUF_IMMED :: u32 where "BUF_IMMED \<equiv> 1"
abbreviation (input) BUF_ONESHOT :: u32 where "BUF_ONESHOT \<equiv> 2"

record fat_blk =
  bk_sector :: int
  bk_dirty :: bool
  bk_mem :: bytes
  bk_in_use :: bool

text \<open>\<open>media\<close> is the device behind \<open>block_fd\<close>.\<close>

record 'd fat_cache =
  buffer_cnt :: u32
  blk_size :: u32
  lba_start :: u32
  lba_end :: u32
  writethru_critical :: u32
  writeback_delay :: u32
  max_transfer :: u32
  blk_table :: "fat_blk list"
  lru_list :: "nat list"
  dirty_list :: "nat list"
  free_list :: "nat list"
  hash_list :: "nat list list"
  media :: 'd

definition the_blk :: "nat \<Rightarrow> 'd fat_cache \<Rightarrow> fat_blk" where
  "the_blk i c = blk_table c ! i"

definition upd_blk :: "nat \<Rightarrow> (fat_blk \<Rightarrow> fat_blk) \<Rightarrow> 'd fat_cache \<Rightarrow> 'd fat_cache" where
  "upd_blk i f c = c\<lparr>blk_table := (blk_table c)[i := f (blk_table c ! i)]\<rparr>"

definition blk_hash :: "int \<Rightarrow> nat" where
  "blk_hash sector = nat (sector mod int BUF_HASH_CNT)"

definition upd_hash :: "nat \<Rightarrow> (nat list \<Rightarrow> nat list) \<Rightarrow> 'd fat_cache \<Rightarrow> 'd fat_cache" where
  "upd_hash h f c = c\<lparr>hash_list := (hash_list c)[h := f (hash_list c ! h)]\<rparr>"

text \<open>
  \<open>CreateCache\<close>: NULL, here None inside, for bad arguments or when a \<open>malloc\<close> fails; \<open>mem\<close> is the
  block memory that was allocated, with arbitrary contents.
\<close>

definition CreateCache ::
    "bytes option \<Rightarrow> u32 \<Rightarrow> u32 \<Rightarrow> u32 \<Rightarrow> u32 \<Rightarrow> u32 \<Rightarrow> u32 \<Rightarrow> u32 \<Rightarrow> 'd \<Rightarrow> 'd fat_cache option" where
  "CreateCache mem cnt bsize start end wt wb mx d =
     (if cnt = 0 \<or> bsize < 512 then None
      else (case mem of
        None \<Rightarrow> None
      | Some m \<Rightarrow> Some \<lparr>buffer_cnt = cnt, blk_size = bsize, lba_start = start, lba_end = end,
          writethru_critical = wt, writeback_delay = wb, max_transfer = mx,
          blk_table = map (\<lambda>t. \<lparr>bk_sector = - 1, bk_dirty = False,
              bk_mem = slice (t * unat bsize) (unat bsize) m, bk_in_use = False\<rparr>) [0..<unat cnt],
          lru_list = [], dirty_list = [], free_list = [0..<unat cnt],
          hash_list = replicate BUF_HASH_CNT [], media = d\<rparr>))"


section \<open>Sectors of the device\<close>

definition BufReadSector ::
    "'d block_device \<Rightarrow> nat \<Rightarrow> u32 \<Rightarrow> 'd fat_cache \<Rightarrow> (int \<times> 'd fat_cache) option" where
  "BufReadSector dv i sector c = do {
     mem \<leftarrow> store (take 512 (dv_read dv (media c) (unat sector * 512))) 0 (bk_mem (the_blk i c));
     Some (0, upd_blk i (\<lambda>b. b\<lparr>bk_mem := mem\<rparr>) c)
   }"

text \<open>A block with a negative sector is in no list, so it is never written.\<close>

definition BufWriteSector ::
    "'d block_device \<Rightarrow> nat \<Rightarrow> u32 \<Rightarrow> 'd fat_cache \<Rightarrow> (int \<times> 'd fat_cache) option" where
  "BufWriteSector dv i mode c =
     (let b = the_blk i c in
      if bk_sector b < 0 \<or> length (bk_mem b) < 512 then None
      else Some (0, c\<lparr>media := dv_write dv (nat (bk_sector b) * 512) (take 512 (bk_mem b)) (media c)\<rparr>))"


section \<open>Blocks of the cache\<close>

text \<open>The block that is used for a sector that is not cached: the least recently used one.\<close>

definition evict_blk :: "'d block_device \<Rightarrow> 'd fat_cache \<Rightarrow> 'd fat_cache option" where
  "evict_blk dv c =
     (if lru_list c = [] then None
      else do {
        let i = last (lru_list c);
        c \<leftarrow> (if bk_dirty (the_blk i c) then do {
                let c = upd_blk i (\<lambda>b. b\<lparr>bk_dirty := False\<rparr>) c;
                let c = c\<lparr>dirty_list := remove1 i (dirty_list c)\<rparr>;
                (rc, c) \<leftarrow> BufWriteSector dv i BUF_IMMED c;
                if rc \<noteq> 0 then None else Some c
              } else Some c);
        let h = blk_hash (bk_sector (the_blk i c));
        let c = upd_hash h (remove1 i) (c\<lparr>lru_list := remove1 i (lru_list c)\<rparr>);
        let c = upd_blk i (\<lambda>b. b\<lparr>bk_in_use := False\<rparr>) c;
        Some (c\<lparr>free_list := i # free_list c\<rparr>)
      })"

definition load_blk ::
    "'d block_device \<Rightarrow> u32 \<Rightarrow> 'd fat_cache \<Rightarrow> (nat option \<times> 'd fat_cache) option" where
  "load_blk dv block c = do {
     let i = hd (free_list c);
     let c = c\<lparr>free_list := tl (free_list c), lru_list := i # lru_list c\<rparr>;
     let c = upd_blk i (\<lambda>b. b\<lparr>bk_in_use := True, bk_sector := int (unat block), bk_dirty := False\<rparr>) c;
     let c = upd_hash (blk_hash (int (unat block))) (\<lambda>l. i # l) c;
     (rc, c) \<leftarrow> BufReadSector dv i block c;
     Some (if rc = 0 then Some i else None, c)
   }"

definition BufGetBlock ::
    "'d block_device \<Rightarrow> u32 \<Rightarrow> 'd fat_cache \<Rightarrow> (nat option \<times> 'd fat_cache) option" where
  "BufGetBlock dv block c =
     (case find (\<lambda>i. bk_sector (the_blk i c) = int (unat block))
             (hash_list c ! blk_hash (int (unat block))) of
        Some i \<Rightarrow> Some (Some i, c\<lparr>lru_list := i # remove1 i (lru_list c)\<rparr>)
      | None \<Rightarrow> do {
          c \<leftarrow> (if free_list c = [] then evict_blk dv c else Some c);
          load_blk dv block c
        })"

text \<open>\<open>BufPutBlock\<close>; the result says whether the pointer is not NULL.\<close>

definition BufPutBlock ::
    "'d block_device \<Rightarrow> nat \<Rightarrow> u32 \<Rightarrow> 'd fat_cache \<Rightarrow> (bool \<times> 'd fat_cache) option" where
  "BufPutBlock dv i mode c =
     (let c = (if and mode BUF_ONESHOT \<noteq> 0
               then c\<lparr>lru_list := remove1 i (lru_list c) @ [i]\<rparr> else c)
      in
      if and mode BUF_IMMED \<noteq> 0 then
        (let c = (if bk_dirty (the_blk i c)
                  then (upd_blk i (\<lambda>b. b\<lparr>bk_dirty := False\<rparr>) c)
                         \<lparr>dirty_list := remove1 i (dirty_list c)\<rparr>
                  else c)
         in
         if writethru_critical c \<noteq> 0 then do {
           (rc, c) \<leftarrow> BufWriteSector dv i BUF_IMMED c;
           Some (rc = 0, c)
         } else Some (True, c))
      else
        (let c = (if \<not> bk_dirty (the_blk i c)
                  then (upd_blk i (\<lambda>b. b\<lparr>bk_dirty := True\<rparr>) c)\<lparr>dirty_list := dirty_list c @ [i]\<rparr>
                  else c)
         in
         if writeback_delay c = 0 then do {
           (rc, c) \<leftarrow> BufWriteSector dv i BUF_IMMED c;
           Some (rc = 0, c)
         } else Some (True, c)))"

text \<open>The loop of \<open>SyncCache\<close>: nothing is added to the dirty list while it runs.\<close>

fun sync_blks :: "'d block_device \<Rightarrow> nat list \<Rightarrow> 'd fat_cache \<Rightarrow> 'd fat_cache option" where
  "sync_blks dv [] c = Some c"
| "sync_blks dv (i # rest) c = do {
     let c = (upd_blk i (\<lambda>b. b\<lparr>bk_dirty := False\<rparr>) c)\<lparr>dirty_list := rest\<rparr>;
     (rc, c) \<leftarrow> BufWriteSector dv i BUF_IMMED c;
     sync_blks dv rest c
   }"

definition SyncCache :: "'d block_device \<Rightarrow> 'd fat_cache \<Rightarrow> 'd fat_cache option" where
  "SyncCache dv c = sync_blks dv (dirty_list c) c"

definition invalidate_blk :: "nat \<Rightarrow> 'd fat_cache \<Rightarrow> 'd fat_cache" where
  "invalidate_blk t c =
     (if bk_in_use (the_blk t c) then
        (let h = blk_hash (bk_sector (the_blk t c));
             c = upd_hash h (remove1 t) (c\<lparr>lru_list := remove1 t (lru_list c)\<rparr>);
             c = c\<lparr>free_list := t # free_list c\<rparr>
         in upd_blk t (\<lambda>b. b\<lparr>bk_in_use := False, bk_dirty := False, bk_sector := 0\<rparr>) c)
      else c)"

text \<open>\<open>InvalidateCache\<close> leaves the dirty list as it is.\<close>

definition InvalidateCache :: "'d fat_cache \<Rightarrow> 'd fat_cache" where
  "InvalidateCache c = fold invalidate_blk [0..<unat (buffer_cnt c)] c"


text \<open>\<open>FreeCache\<close> frees the cache without writing its dirty blocks: what is left is the device.\<close>

definition FreeCache :: "'d fat_cache \<Rightarrow> 'd" where
  "FreeCache c = media c"


section \<open>Reading and writing ranges of bytes\<close>

text \<open>
  \<open>BufReadBlocks\<close>: the status and the bytes copied to \<open>addr\<close>. The count in a block is
  \<open>min nbytes (block_size - offset)\<close>, computed in 32 bits.
\<close>

definition blk_chunk :: "u32 \<Rightarrow> u32 \<Rightarrow> u32 \<Rightarrow> u32" where
  "blk_chunk bsize offset nbytes =
     (if nbytes < bsize - offset then nbytes else bsize - offset)"

lemma blk_chunk_le: "blk_chunk bs off n \<le> n"
  by (simp add: blk_chunk_def not_less)

lemma blk_chunk_pos: "n \<noteq> 0 \<Longrightarrow> bs \<noteq> 0 \<Longrightarrow> blk_chunk bs 0 n \<noteq> 0"
  by (simp add: blk_chunk_def)

function BufReadBlocks ::
    "'d block_device \<Rightarrow> u32 \<Rightarrow> u32 \<Rightarrow> u32 \<Rightarrow> 'd fat_cache \<Rightarrow> (int \<times> bytes \<times> 'd fat_cache) option" where
  "BufReadBlocks dv block offset nbytes c =
     (if nbytes = 0 then Some (0, [], c)
      else if blk_size c = 0 then None
      else do {
        let n = blk_chunk (blk_size c) offset nbytes;
        (r, c') \<leftarrow> BufGetBlock dv block c;
        (case r of
           None \<Rightarrow> Some (- 1, [], c')
         | Some i \<Rightarrow>
             if length (bk_mem (the_blk i c')) < unat offset + unat n then None
             else do {
               (rc, bs, c'') \<leftarrow> BufReadBlocks dv (block + 1) 0 (nbytes - n) c';
               Some (rc, slice (unat offset) (unat n) (bk_mem (the_blk i c')) @ bs, c'')
             })
      })"
  by pat_completeness auto
termination
proof (relation "measure (\<lambda>(dv, block, offset, nbytes, c). 2 * unat nbytes + (if offset = 0 then 0 else 1))",
    goal_cases)
  case (2 dv block offset nbytes c n r x c' i)
  show ?case
  proof (cases "n = 0")
    case True
    with 2(1-3) have "offset \<noteq> 0" using blk_chunk_pos by metis
    with True show ?thesis by simp
  next
    case False
    have "n \<le> nbytes" using 2(3) by (simp add: blk_chunk_le)
    then have "unat (nbytes - n) = unat nbytes - unat n" "unat n \<le> unat nbytes" "unat n \<noteq> 0"
      using False by (auto simp: unat_sub word_le_nat_alt unat_eq_zero)
    then show ?thesis by auto
  qed
qed auto

declare BufReadBlocks.simps [simp del]

text \<open>\<open>BufWriteBlocks\<close>; a NULL \<open>addr\<close> (None) writes zeros.\<close>

function BufWriteBlocks ::
    "'d block_device \<Rightarrow> bytes option \<Rightarrow> u32 \<Rightarrow> u32 \<Rightarrow> u32 \<Rightarrow> u32 \<Rightarrow> 'd fat_cache \<Rightarrow>
     (int \<times> 'd fat_cache) option" where
  "BufWriteBlocks dv addr block offset nbytes mode c =
     (if nbytes = 0 then Some (0, c)
      else if blk_size c = 0 then None
      else do {
        let n = blk_chunk (blk_size c) offset nbytes;
        (r, c') \<leftarrow> BufGetBlock dv block c;
        (case r of
           None \<Rightarrow> Some (- 1, c')
         | Some i \<Rightarrow> do {
             src \<leftarrow> (case addr of None \<Rightarrow> Some (replicate (unat n) 0)
                     | Some a \<Rightarrow> if length a < unat n then None else Some (take (unat n) a));
             mem \<leftarrow> store src (unat offset) (bk_mem (the_blk i c'));
             (ok, c'') \<leftarrow> BufPutBlock dv i mode (upd_blk i (\<lambda>b. b\<lparr>bk_mem := mem\<rparr>) c');
             if \<not> ok then Some (- 1, c'')
             else BufWriteBlocks dv (map_option (drop (unat n)) addr) (block + 1) 0 (nbytes - n) mode c''
           })
      })"
  by pat_completeness auto
termination
proof (relation "measure (\<lambda>(dv, addr, block, offset, nbytes, mode, c).
    2 * unat nbytes + (if offset = 0 then 0 else 1))", goal_cases)
  case (2 dv addr block offset nbytes mode c n r x c' i src mem ok y c'')
  show ?case
  proof (cases "n = 0")
    case True
    with 2(1-3) have "offset \<noteq> 0" using blk_chunk_pos by metis
    with True show ?thesis by simp
  next
    case False
    have "n \<le> nbytes" using 2(3) by (simp add: blk_chunk_le)
    then have "unat (nbytes - n) = unat nbytes - unat n" "unat n \<le> unat nbytes" "unat n \<noteq> 0"
      using False by (auto simp: unat_sub word_le_nat_alt unat_eq_zero)
    then show ?thesis by auto
  qed
qed auto

declare BufWriteBlocks.simps [simp del]

definition blockRead ::
    "'d block_device \<Rightarrow> u32 \<Rightarrow> u32 \<Rightarrow> 'd fat_cache \<Rightarrow> (int \<times> bytes \<times> 'd fat_cache) option" where
  "blockRead dv sz block_no c = do {
     (rc, bs, c) \<leftarrow> BufReadBlocks dv block_no 0 sz c;
     Some (512, bs, c)
   }"

definition blockWrite ::
    "'d block_device \<Rightarrow> bytes \<Rightarrow> u32 \<Rightarrow> u32 \<Rightarrow> 'd fat_cache \<Rightarrow> (int \<times> 'd fat_cache) option" where
  "blockWrite dv mem sz block_no c = do {
     (rc, c) \<leftarrow> BufWriteBlocks dv (Some mem) block_no 0 sz 0 c;
     Some (512, c)
   }"

end
