(* ===== verification/FatTypes.thy ===== *)
theory FatTypes
  imports FatSector Packed Ipc "HOL-Library.Signed_Division"
begin

text \<open>
  The data of fatfs, from fat.h and globals.c: the structures of the boot sector and of directory
  entries with their packed layout, the nodes, the file system block \<open>fsb\<close> and the handler's
  global state.
\<close>

section \<open>Constants\<close>

datatype fat_type = TYPE_FAT12 | TYPE_FAT16 | TYPE_FAT32

abbreviation (input) ATTR_VOLUME_ID :: byte where "ATTR_VOLUME_ID \<equiv> 0x08"
abbreviation (input) ATTR_DIRECTORY :: byte where "ATTR_DIRECTORY \<equiv> 0x10"
abbreviation (input) ATTR_LONG_FILENAME :: byte where "ATTR_LONG_FILENAME \<equiv> 0x0F"

abbreviation (input) CLUSTER_FREE :: u32 where "CLUSTER_FREE \<equiv> 0"
abbreviation (input) CLUSTER_ALLOC_MIN :: u32 where "CLUSTER_ALLOC_MIN \<equiv> 1"
abbreviation (input) CLUSTER_ALLOC_MAX :: u32 where "CLUSTER_ALLOC_MAX \<equiv> 0x0FFFFFF6"
abbreviation (input) CLUSTER_BAD :: u32 where "CLUSTER_BAD \<equiv> 0x0FFFFFF7"
abbreviation (input) CLUSTER_EOC :: u32 where "CLUSTER_EOC \<equiv> 0x0FFFFFFF"

abbreviation (input) DIRENTRY_FREE :: byte where "DIRENTRY_FREE \<equiv> 0x00"
abbreviation (input) DIRENTRY_DELETED :: byte where "DIRENTRY_DELETED \<equiv> 0xE5"
abbreviation (input) FAT_DIRENTRY_SZ :: u32 where "FAT_DIRENTRY_SZ \<equiv> 32"
abbreviation (input) DIRENTS_BUF_SZ :: nat where "DIRENTS_BUF_SZ \<equiv> 4096"


section \<open>The boot sector\<close>

record FatBPB =
  jump :: bytes
  oem_name :: bytes
  bytes_per_sector :: u16
  sectors_per_cluster :: byte
  reserved_sectors_cnt :: u16
  fat_cnt :: byte
  root_entries_cnt :: u16
  total_sectors_cnt16 :: u16
  media_type :: byte
  sectors_per_fat16 :: u16
  sectors_per_track :: u16
  heads_per_cylinder :: u16
  hidden_sectors_cnt :: u32
  total_sectors_cnt32 :: u32

record FatBPB_16Ext =
  x16_drv_num :: byte
  x16_reserved1 :: byte
  x16_boot_sig :: byte
  x16_volume_id :: u32
  x16_volume_label :: bytes
  x16_filesystem_type :: bytes

record FatBPB_32Ext =
  sectors_per_fat32 :: u32
  ext_flags :: u16
  fs_version :: u16
  root_cluster :: u32
  fs_info :: u16
  boot_sector_backup :: u16
  x32_reserved :: bytes
  x32_drv_num :: byte
  x32_reserved1 :: byte
  x32_boot_sig :: byte
  x32_volume_id :: u32
  x32_volume_label :: bytes
  x32_filesystem_type :: bytes

record FatFSInfo =
  lead_sig :: u32
  fsi_reserved1 :: bytes
  struc_sig :: u32
  free_cnt :: u32
  next_free :: u32
  fsi_reserved2 :: bytes
  trail_sig :: u32

text \<open>A one-byte field of a packed structure.\<close>

definition p8 :: "bytes \<Rightarrow> (byte \<times> bytes) option" where
  "p8 bs = (case bs of [] \<Rightarrow> None | b # bs \<Rightarrow> Some (b, bs))"

lemma p8_Cons [buf_simps, simp]: "p8 (b # bs) = Some (b, bs)"
  by (simp add: p8_def)

definition bpb_bytes :: "bool \<Rightarrow> FatBPB \<Rightarrow> bytes" where
  "bpb_bytes be b =
     jump b @ oem_name b @ enc16 be (bytes_per_sector b) @ [sectors_per_cluster b] @
     enc16 be (reserved_sectors_cnt b) @ [fat_cnt b] @ enc16 be (root_entries_cnt b) @
     enc16 be (total_sectors_cnt16 b) @ [media_type b] @ enc16 be (sectors_per_fat16 b) @
     enc16 be (sectors_per_track b) @ enc16 be (heads_per_cylinder b) @
     enc32 be (hidden_sectors_cnt b) @ enc32 be (total_sectors_cnt32 b)"

definition bpb_read :: "bool \<Rightarrow> bytes \<Rightarrow> FatBPB option" where
  "bpb_read be bs = do {
     (ju, bs) \<leftarrow> pbytes 3 bs; (oe, bs) \<leftarrow> pbytes 8 bs; (bps, bs) \<leftarrow> p16 be bs;
     (spc, bs) \<leftarrow> p8 bs; (rs, bs) \<leftarrow> p16 be bs; (fc, bs) \<leftarrow> p8 bs; (re, bs) \<leftarrow> p16 be bs;
     (ts, bs) \<leftarrow> p16 be bs; (mt, bs) \<leftarrow> p8 bs; (spf, bs) \<leftarrow> p16 be bs; (spt, bs) \<leftarrow> p16 be bs;
     (hpc, bs) \<leftarrow> p16 be bs; (hs, bs) \<leftarrow> p32 be bs; (ts32, bs) \<leftarrow> p32 be bs;
     Some \<lparr>jump = ju, oem_name = oe, bytes_per_sector = bps, sectors_per_cluster = spc,
           reserved_sectors_cnt = rs, fat_cnt = fc, root_entries_cnt = re,
           total_sectors_cnt16 = ts, media_type = mt, sectors_per_fat16 = spf,
           sectors_per_track = spt, heads_per_cylinder = hpc, hidden_sectors_cnt = hs,
           total_sectors_cnt32 = ts32\<rparr>
   }"

definition bpb16_bytes :: "bool \<Rightarrow> FatBPB_16Ext \<Rightarrow> bytes" where
  "bpb16_bytes be b =
     [x16_drv_num b, x16_reserved1 b, x16_boot_sig b] @ enc32 be (x16_volume_id b) @
     x16_volume_label b @ x16_filesystem_type b"

definition bpb16_read :: "bool \<Rightarrow> bytes \<Rightarrow> FatBPB_16Ext option" where
  "bpb16_read be bs = do {
     (dn, bs) \<leftarrow> p8 bs; (r1, bs) \<leftarrow> p8 bs; (sg, bs) \<leftarrow> p8 bs; (vi, bs) \<leftarrow> p32 be bs;
     (vl, bs) \<leftarrow> pbytes 11 bs; (ft, bs) \<leftarrow> pbytes 8 bs;
     Some \<lparr>x16_drv_num = dn, x16_reserved1 = r1, x16_boot_sig = sg, x16_volume_id = vi,
           x16_volume_label = vl, x16_filesystem_type = ft\<rparr>
   }"

definition bpb32_bytes :: "bool \<Rightarrow> FatBPB_32Ext \<Rightarrow> bytes" where
  "bpb32_bytes be b =
     enc32 be (sectors_per_fat32 b) @ enc16 be (ext_flags b) @ enc16 be (fs_version b) @
     enc32 be (root_cluster b) @ enc16 be (fs_info b) @ enc16 be (boot_sector_backup b) @
     x32_reserved b @ [x32_drv_num b, x32_reserved1 b, x32_boot_sig b] @
     enc32 be (x32_volume_id b) @ x32_volume_label b @ x32_filesystem_type b"

definition bpb32_read :: "bool \<Rightarrow> bytes \<Rightarrow> FatBPB_32Ext option" where
  "bpb32_read be bs = do {
     (sf, bs) \<leftarrow> p32 be bs; (ef, bs) \<leftarrow> p16 be bs; (fv, bs) \<leftarrow> p16 be bs; (rc, bs) \<leftarrow> p32 be bs;
     (fi, bs) \<leftarrow> p16 be bs; (bb, bs) \<leftarrow> p16 be bs; (rs, bs) \<leftarrow> pbytes 48 bs; (dn, bs) \<leftarrow> p8 bs;
     (r1, bs) \<leftarrow> p8 bs; (sg, bs) \<leftarrow> p8 bs; (vi, bs) \<leftarrow> p32 be bs; (vl, bs) \<leftarrow> pbytes 11 bs;
     (ft, bs) \<leftarrow> pbytes 8 bs;
     Some \<lparr>sectors_per_fat32 = sf, ext_flags = ef, fs_version = fv, root_cluster = rc,
           fs_info = fi, boot_sector_backup = bb, x32_reserved = rs, x32_drv_num = dn,
           x32_reserved1 = r1, x32_boot_sig = sg, x32_volume_id = vi, x32_volume_label = vl,
           x32_filesystem_type = ft\<rparr>
   }"

definition fsi_bytes :: "bool \<Rightarrow> FatFSInfo \<Rightarrow> bytes" where
  "fsi_bytes be f =
     enc32 be (lead_sig f) @ fsi_reserved1 f @ enc32 be (struc_sig f) @ enc32 be (free_cnt f) @
     enc32 be (next_free f) @ fsi_reserved2 f @ enc32 be (trail_sig f)"


section \<open>Directory entries and nodes\<close>

record FatDirEntry =
  fd_name :: bytes
  fd_extension :: bytes
  fd_attributes :: byte
  fd_reserved :: byte
  fd_creation_time_sec_tenths :: byte
  fd_creation_time_2secs :: u16
  fd_creation_date :: u16
  fd_last_access_date :: u16
  fd_first_cluster_hi :: u16
  fd_last_write_time :: u16
  fd_last_write_date :: u16
  fd_first_cluster_lo :: u16
  fd_size :: u32

definition fatdirent_bytes :: "bool \<Rightarrow> FatDirEntry \<Rightarrow> bytes" where
  "fatdirent_bytes be d =
     fd_name d @ fd_extension d @ [fd_attributes d, fd_reserved d, fd_creation_time_sec_tenths d] @
     enc16 be (fd_creation_time_2secs d) @ enc16 be (fd_creation_date d) @
     enc16 be (fd_last_access_date d) @ enc16 be (fd_first_cluster_hi d) @
     enc16 be (fd_last_write_time d) @ enc16 be (fd_last_write_date d) @
     enc16 be (fd_first_cluster_lo d) @ enc32 be (fd_size d)"

definition fatdirent_read :: "bool \<Rightarrow> bytes \<Rightarrow> FatDirEntry option" where
  "fatdirent_read be bs = do {
     (nm, bs) \<leftarrow> pbytes 8 bs; (ex, bs) \<leftarrow> pbytes 3 bs; (at, bs) \<leftarrow> p8 bs; (rs, bs) \<leftarrow> p8 bs;
     (ct, bs) \<leftarrow> p8 bs; (c2, bs) \<leftarrow> p16 be bs; (cd, bs) \<leftarrow> p16 be bs; (ad, bs) \<leftarrow> p16 be bs;
     (hi, bs) \<leftarrow> p16 be bs; (wt, bs) \<leftarrow> p16 be bs; (wd, bs) \<leftarrow> p16 be bs; (lo, bs) \<leftarrow> p16 be bs;
     (sz, bs) \<leftarrow> p32 be bs;
     Some \<lparr>fd_name = nm, fd_extension = ex, fd_attributes = at, fd_reserved = rs,
           fd_creation_time_sec_tenths = ct, fd_creation_time_2secs = c2, fd_creation_date = cd,
           fd_last_access_date = ad, fd_first_cluster_hi = hi, fd_last_write_time = wt,
           fd_last_write_date = wd, fd_first_cluster_lo = lo, fd_size = sz\<rparr>
   }"

lemma fatdirent_roundtrip [simp]:
  "length (fd_name d) = 8 \<Longrightarrow> length (fd_extension d) = 3 \<Longrightarrow>
   fatdirent_read be (fatdirent_bytes be d) = Some d"
  using p32_enc [of be "fd_size d" "[]"]
  by (simp add: fatdirent_read_def fatdirent_bytes_def)

lemma length_fatdirent_bytes [buf_simps, simp]:
  "length (fd_name d) = 8 \<Longrightarrow> length (fd_extension d) = 3 \<Longrightarrow> length (fatdirent_bytes be d) = 32"
  by (simp add: fatdirent_bytes_def)

record FatNode =
  fn_inode_nr :: u32
  fn_is_root :: bool
  fn_dirent_sector :: u32
  fn_dirent_offset :: u32
  fn_dirent :: FatDirEntry
  fn_hint_cluster :: u32
  fn_hint_offset :: u32
  fn_reference_cnt :: int


section \<open>The state of the handler\<close>

text \<open>
  \<open>fsb\<close> without the node list, whose nodes are in \<open>node_heap\<close> below, and without the fields that
  no code uses.
\<close>

record FatSB =
  sb_fat_type :: fat_type
  bpb :: FatBPB
  bpb16 :: FatBPB_16Ext
  bpb32 :: FatBPB_32Ext
  fsi :: FatFSInfo
  partition_start :: u32
  partition_size :: u32
  total_sectors_cnt :: u32
  sectors_per_fat :: u32
  data_sectors :: u32
  cluster_cnt :: u32
  first_data_sector :: u32
  root_dir_sectors :: u32
  start_search_cluster :: u32

text \<open>
  A \<open>struct FatNode *\<close> is an index into \<open>node_heap\<close>; \<open>fsb.root_node\<close> is index 0, \<open>malloc\<close> appends
  a node and \<open>free\<close> leaves None. \<open>node_list\<close> is \<open>fsb.node_list\<close>.
\<close>

record 'd fat_state =
  fat_be :: bool
  fat_uid :: int
  fat_gid :: int
  write_buf :: bytes
  block_cache :: "'d fat_cache"
  fsb :: FatSB
  node_heap :: "FatNode option list"
  node_list :: "nat list"

definition the_node :: "nat \<Rightarrow> 'd fat_state \<Rightarrow> FatNode option" where
  "the_node i s = (if i < length (node_heap s) then node_heap s ! i else None)"

definition upd_node :: "nat \<Rightarrow> (FatNode \<Rightarrow> FatNode) \<Rightarrow> 'd fat_state \<Rightarrow> 'd fat_state" where
  "upd_node i f s = s\<lparr>node_heap := (node_heap s)[i := map_option f (node_heap s ! i)]\<rparr>"

definition upd_dirent :: "nat \<Rightarrow> (FatDirEntry \<Rightarrow> FatDirEntry) \<Rightarrow> 'd fat_state \<Rightarrow> 'd fat_state" where
  "upd_dirent i f = upd_node i (\<lambda>n. n\<lparr>fn_dirent := f (fn_dirent n)\<rparr>)"

definition upd_fsb :: "(FatSB \<Rightarrow> FatSB) \<Rightarrow> 'd fat_state \<Rightarrow> 'd fat_state" where
  "upd_fsb f s = s\<lparr>fsb := f (fsb s)\<rparr>"

abbreviation (input) ROOT_NODE :: nat where "ROOT_NODE \<equiv> 0"

text \<open>\<open>fsb.bpb.sectors_per_cluster * 512\<close>.\<close>

definition cluster_bytes :: "'d fat_state \<Rightarrow> u32" where
  "cluster_bytes s = ucast (sectors_per_cluster (bpb (fsb s))) * 512"

text \<open>
  Division of a signed \<open>off_t\<close> by a positive \<open>int\<close>, as C does it; the result is kept in a
  \<open>uint32_t\<close>.
\<close>

definition off_div :: "u32 \<Rightarrow> u32 \<Rightarrow> u32" where
  "off_div offset m = word_of_int (sint offset sdiv int (unat m))"

definition off_mod :: "u32 \<Rightarrow> u32 \<Rightarrow> u32" where
  "off_mod offset m = word_of_int (sint offset smod int (unat m))"

lemma off_div_mod:
  assumes "unat offset < 2147483648"
  shows "off_div offset m = offset div m" and "off_mod offset m = offset mod m"
proof -
  have s: "sint offset = int (unat offset)" by (rule sint_small [OF assms])
  have d: "int x sdiv int y = int (x div y)" for x y
    by (cases "y = 0"; cases "x = 0") (simp_all add: signed_divide_int_def zdiv_int)
  have "int x smod int y = int (x mod y)" for x y
    by (cases "x = 0") (simp_all add: signed_modulo_int_def zmod_int)
  note m = this
  show "off_div offset m = offset div m" "off_mod offset m = offset mod m"
    unfolding off_div_def off_mod_def s d m
    by (simp_all only: of_int_of_nat_eq word_arith_nat_div word_arith_nat_mod)
qed

text \<open>The globals at program start.\<close>

definition zero_dirent :: FatDirEntry where
  "zero_dirent = \<lparr>fd_name = replicate 8 0, fd_extension = replicate 3 0, fd_attributes = 0,
     fd_reserved = 0, fd_creation_time_sec_tenths = 0, fd_creation_time_2secs = 0,
     fd_creation_date = 0, fd_last_access_date = 0, fd_first_cluster_hi = 0,
     fd_last_write_time = 0, fd_last_write_date = 0, fd_first_cluster_lo = 0, fd_size = 0\<rparr>"

definition zero_fatsb :: FatSB where
  "zero_fatsb = \<lparr>sb_fat_type = TYPE_FAT12,
     bpb = \<lparr>jump = replicate 3 0, oem_name = replicate 8 0, bytes_per_sector = 0,
       sectors_per_cluster = 0, reserved_sectors_cnt = 0, fat_cnt = 0, root_entries_cnt = 0,
       total_sectors_cnt16 = 0, media_type = 0, sectors_per_fat16 = 0, sectors_per_track = 0,
       heads_per_cylinder = 0, hidden_sectors_cnt = 0, total_sectors_cnt32 = 0\<rparr>,
     bpb16 = \<lparr>x16_drv_num = 0, x16_reserved1 = 0, x16_boot_sig = 0, x16_volume_id = 0,
       x16_volume_label = replicate 11 0, x16_filesystem_type = replicate 8 0\<rparr>,
     bpb32 = \<lparr>sectors_per_fat32 = 0, ext_flags = 0, fs_version = 0, root_cluster = 0,
       fs_info = 0, boot_sector_backup = 0, x32_reserved = replicate 48 0, x32_drv_num = 0,
       x32_reserved1 = 0, x32_boot_sig = 0, x32_volume_id = 0,
       x32_volume_label = replicate 11 0, x32_filesystem_type = replicate 8 0\<rparr>,
     fsi = \<lparr>lead_sig = 0, fsi_reserved1 = replicate 480 0, struc_sig = 0, free_cnt = 0,
       next_free = 0, fsi_reserved2 = replicate 12 0, trail_sig = 0\<rparr>,
     partition_start = 0, partition_size = 0, total_sectors_cnt = 0, sectors_per_fat = 0,
     data_sectors = 0, cluster_cnt = 0, first_data_sector = 0, root_dir_sectors = 0,
     start_search_cluster = 0\<rparr>"

definition zero_node :: FatNode where
  "zero_node = \<lparr>fn_inode_nr = 0, fn_is_root = False, fn_dirent_sector = 0,
     fn_dirent_offset = 0, fn_dirent = zero_dirent, fn_hint_cluster = 0, fn_hint_offset = 0,
     fn_reference_cnt = 0\<rparr>"

definition fat_globals :: "bool \<Rightarrow> 'd fat_cache \<Rightarrow> 'd fat_state" where
  "fat_globals be c = \<lparr>fat_be = be, fat_uid = 0, fat_gid = 0, write_buf = replicate 512 0, block_cache = c,
     fsb = zero_fatsb, node_heap = [Some zero_node], node_list = []\<rparr>"


section \<open>Sectors of the partition\<close>

text \<open>\<open>readSector\<close> and \<open>writeSector\<close>; the sum of the sector numbers wraps in 32 bits.\<close>

definition readSector ::
    "'d block_device \<Rightarrow> u32 \<Rightarrow> u32 \<Rightarrow> u32 \<Rightarrow> 'd fat_state \<Rightarrow> (int \<times> bytes \<times> 'd fat_state) option" where
  "readSector dv sector sector_offset nbytes s = do {
     (rc, bs, c) \<leftarrow> BufReadBlocks dv (sector + partition_start (fsb s)) sector_offset nbytes (block_cache s);
     Some (rc, bs, s\<lparr>block_cache := c\<rparr>)
   }"

definition writeSector ::
    "'d block_device \<Rightarrow> bytes option \<Rightarrow> u32 \<Rightarrow> u32 \<Rightarrow> u32 \<Rightarrow> 'd fat_state \<Rightarrow> (int \<times> 'd fat_state) option" where
  "writeSector dv mem sector sector_offset nbytes s = do {
     (rc, c) \<leftarrow> BufWriteBlocks dv mem (sector + partition_start (fsb s)) sector_offset nbytes 0 (block_cache s);
     Some (rc, s\<lparr>block_cache := c\<rparr>)
   }"

end
