(* ===== verification/FatCluster.thy ===== *)
theory FatCluster
  imports FatTypes
begin

text \<open>
  cluster.c of fatfs: the entries of the file allocation table for the three FAT types, finding,
  appending and freeing clusters, and the sectors of a position in a file; with \<open>FlushDirent\<close> of
  dir.c, which appending a first cluster calls. A result None inside stands for the status -1.
\<close>

section \<open>Entries of the table\<close>

text \<open>Where the entry of a cluster is in copy \<open>f\<close> of the table: a sector and an offset in it.\<close>

definition fat_location :: "fat_type \<Rightarrow> u32 \<Rightarrow> nat \<Rightarrow> FatSB \<Rightarrow> u32 \<times> u32" where
  "fat_location ty cluster f sb =
     (let fat_sz = (case ty of TYPE_FAT32 \<Rightarrow> sectors_per_fat32 (bpb32 sb)
                    | _ \<Rightarrow> ucast (sectors_per_fat16 (bpb sb)));
          fat_offset = (case ty of TYPE_FAT12 \<Rightarrow> cluster + cluster div 2
                        | TYPE_FAT16 \<Rightarrow> cluster * 2 | TYPE_FAT32 \<Rightarrow> cluster * 4)
      in (ucast (reserved_sectors_cnt (bpb sb)) + fat_offset div 512 + word_of_nat f * fat_sz,
          fat_offset mod 512))"

definition fat12_unpack :: "u32 \<Rightarrow> u16 \<Rightarrow> u16" where
  "fat12_unpack cluster w = (if cluster mod 2 = 1 then drop_bit 4 w else and w 0x0FFF)"

definition fat12_pack :: "u32 \<Rightarrow> u32 \<Rightarrow> u16 \<Rightarrow> u16" where
  "fat12_pack cluster v w =
     (if cluster mod 2 = 1 then ucast (or (and (push_bit 4 v) 0xFFF0) (and (ucast w) 0x000F))
      else ucast (or (and v 0x0FFF) (and (ucast w) 0xF000)))"

text \<open>The end-of-chain and bad-cluster marks of a type, and their common form.\<close>

definition fat_mark :: "fat_type \<Rightarrow> u32 \<Rightarrow> u32" where
  "fat_mark ty v =
     (case ty of
        TYPE_FAT12 \<Rightarrow> if 0xFF8 \<le> v \<and> v \<le> 0xFFF then CLUSTER_EOC
                      else if v = 0xFF7 then CLUSTER_BAD else v
      | TYPE_FAT16 \<Rightarrow> if 0xFFF8 \<le> v \<and> v \<le> 0xFFFF then CLUSTER_EOC
                      else if v = 0xFFF7 then CLUSTER_BAD else v
      | TYPE_FAT32 \<Rightarrow> if 0x0FFFFFF8 \<le> v \<and> v \<le> 0x0FFFFFFF then CLUSTER_EOC
                      else if v = 0x0FFFFFF7 then CLUSTER_BAD else v)"

definition fat_unmark :: "fat_type \<Rightarrow> u32 \<Rightarrow> u32" where
  "fat_unmark ty v =
     (case ty of
        TYPE_FAT12 \<Rightarrow> if v = CLUSTER_EOC then 0xFFF else if v = CLUSTER_BAD then 0xFF7 else v
      | TYPE_FAT16 \<Rightarrow> if v = CLUSTER_EOC then 0xFFFF else if v = CLUSTER_BAD then 0xFFF7 else v
      | TYPE_FAT32 \<Rightarrow> if v = CLUSTER_EOC then 0x0FFFFFFF else if v = CLUSTER_BAD then 0x0FFFFFF7 else v)"

text \<open>
  \<open>ReadFATEntry\<close>: the loop over the copies ends in its first turn, with a value or with a \<open>break\<close>.
\<close>

definition ReadFATEntry ::
    "'d block_device \<Rightarrow> u32 \<Rightarrow> 'd fat_state \<Rightarrow> (u32 option \<times> 'd fat_state) option" where
  "ReadFATEntry dv cluster s =
     (if fat_cnt (bpb (fsb s)) = 0 then Some (None, s)
      else let ty = sb_fat_type (fsb s); (sector, sector_offset) = fat_location ty cluster 0 (fsb s) in
        (case ty of
           TYPE_FAT32 \<Rightarrow> do {
             (rc, bs, s) \<leftarrow> readSector dv sector sector_offset 4 s;
             if rc \<noteq> 0 then Some (None, s)
             else do { w \<leftarrow> ld32 (fat_be s) bs 0; Some (Some (fat_mark ty w), s) }
           }
         | _ \<Rightarrow> do {
             (rc, bs, s) \<leftarrow> readSector dv sector sector_offset 2 s;
             if rc \<noteq> 0 then Some (None, s)
             else do {
               w \<leftarrow> ld16 (fat_be s) bs 0;
               Some (Some (fat_mark ty (ucast (if ty = TYPE_FAT12 then fat12_unpack cluster w else w))), s)
             }
           }))"

text \<open>
  One turn of the loop of \<open>WriteFATEntry\<close>: the status is false when it breaks. For FAT32 the offset
  is the cluster number itself, not four times that.
\<close>

definition write_fat_copy ::
    "'d block_device \<Rightarrow> u32 \<Rightarrow> u32 \<Rightarrow> nat \<Rightarrow> 'd fat_state \<Rightarrow> (bool \<times> 'd fat_state) option" where
  "write_fat_copy dv cluster value f s =
     (let ty = sb_fat_type (fsb s); v = fat_unmark ty value in
      (case ty of
         TYPE_FAT12 \<Rightarrow>
           (let (sector, sector_offset) = fat_location ty cluster f (fsb s) in do {
              (rc, bs, s) \<leftarrow> readSector dv sector sector_offset 2 s;
              if rc \<noteq> 0 then Some (False, s)
              else do {
                w \<leftarrow> ld16 (fat_be s) bs 0;
                (rc, s) \<leftarrow> writeSector dv (Some (enc16 (fat_be s) (fat12_pack cluster v w)))
                            sector sector_offset 2 s;
                Some (rc = 0, s)
              }
            })
       | TYPE_FAT16 \<Rightarrow>
           (let (sector, sector_offset) = fat_location ty cluster f (fsb s) in do {
              (rc, s) \<leftarrow> writeSector dv (Some (enc16 (fat_be s) (ucast v))) sector sector_offset 2 s;
              Some (rc = 0, s)
            })
       | TYPE_FAT32 \<Rightarrow>
           (let sector = ucast (reserved_sectors_cnt (bpb (fsb s))) + cluster div 512 +
                         word_of_nat f * sectors_per_fat32 (bpb32 (fsb s));
                sector_offset = cluster mod 512
            in do {
              (rc, s) \<leftarrow> writeSector dv (Some (enc32 (fat_be s) v)) sector sector_offset 4 s;
              Some (rc = 0, s)
            })))"

text \<open>The loop over the \<open>n\<close> copies from copy \<open>f\<close>; the result is \<open>fat_written_cnt\<close>.\<close>

fun write_fat_loop ::
    "'d block_device \<Rightarrow> u32 \<Rightarrow> u32 \<Rightarrow> nat \<Rightarrow> nat \<Rightarrow> nat \<Rightarrow> 'd fat_state \<Rightarrow> (nat \<times> 'd fat_state) option" where
  "write_fat_loop dv cluster value f 0 cnt s = Some (cnt, s)"
| "write_fat_loop dv cluster value f (Suc n) cnt s = do {
     (ok, s) \<leftarrow> write_fat_copy dv cluster value f s;
     if ok then write_fat_loop dv cluster value (Suc f) n (Suc cnt) s else Some (cnt, s)
   }"

definition WriteFATEntry ::
    "'d block_device \<Rightarrow> u32 \<Rightarrow> u32 \<Rightarrow> 'd fat_state \<Rightarrow> (int \<times> 'd fat_state) option" where
  "WriteFATEntry dv cluster value s = do {
     (cnt, s) \<leftarrow> write_fat_loop dv cluster value 0 (unat (fat_cnt (bpb (fsb s)))) 0 s;
     Some (if cnt = 0 then - 1 else 0, s)
   }"


section \<open>The first cluster of a directory entry\<close>

definition GetFirstCluster :: "FatDirEntry \<Rightarrow> FatSB \<Rightarrow> u32" where
  "GetFirstCluster d sb =
     (let ty = sb_fat_type sb in
      fat_mark ty (if ty = TYPE_FAT32
        then push_bit 16 (ucast (fd_first_cluster_hi d)) + ucast (fd_first_cluster_lo d)
        else ucast (fd_first_cluster_lo d)))"

definition SetFirstCluster :: "u32 \<Rightarrow> FatSB \<Rightarrow> FatDirEntry \<Rightarrow> FatDirEntry" where
  "SetFirstCluster cluster sb d =
     (let ty = sb_fat_type sb; c = fat_unmark ty cluster in
      (case ty of
         TYPE_FAT12 \<Rightarrow> d\<lparr>fd_first_cluster_hi := 0, fd_first_cluster_lo := ucast (and c 0x0FFF)\<rparr>
       | TYPE_FAT16 \<Rightarrow> d\<lparr>fd_first_cluster_hi := 0, fd_first_cluster_lo := ucast (and c 0xFFFF)\<rparr>
       | TYPE_FAT32 \<Rightarrow> d\<lparr>fd_first_cluster_hi := ucast (and (drop_bit 16 c) 0xFFFF),
                          fd_first_cluster_lo := ucast (and c 0xFFFF)\<rparr>))"

definition FlushDirent :: "'d block_device \<Rightarrow> nat \<Rightarrow> 'd fat_state \<Rightarrow> (int \<times> 'd fat_state) option" where
  "FlushDirent dv i s =
     (if i = ROOT_NODE then Some (0, s)
      else do {
        n \<leftarrow> the_node i s;
        (rc, s) \<leftarrow> writeSector dv (Some (fatdirent_bytes (fat_be s) (fn_dirent n)))
                    (fn_dirent_sector n) (fn_dirent_offset n) 32 s;
        Some (0, s)
      })"


section \<open>Chains of clusters\<close>

text \<open>A loop of \<open>FindFreeCluster\<close> from \<open>cluster\<close> up to the bound.\<close>

function find_free_loop ::
    "'d block_device \<Rightarrow> u32 \<Rightarrow> u32 \<Rightarrow> 'd fat_state \<Rightarrow> (u32 option \<times> 'd fat_state) option" where
  "find_free_loop dv cluster bound s =
     (if cluster < bound then do {
        (r, s) \<leftarrow> ReadFATEntry dv cluster s;
        (rc, s) \<leftarrow> (if r = Some CLUSTER_FREE then WriteFATEntry dv cluster CLUSTER_EOC s
                    else Some (- 1, s));
        if rc = 0 then Some (Some cluster, upd_fsb (\<lambda>b. b\<lparr>start_search_cluster := cluster\<rparr>) s)
        else find_free_loop dv (cluster + 1) bound s
      } else Some (None, s))"
  by pat_completeness auto
termination
  by (relation "measure (\<lambda>(dv, cluster, bound, s). unat bound - unat cluster)")
     (auto simp: unat_suc_less word_less_nat_alt)

declare find_free_loop.simps [simp del]

definition FindFreeCluster ::
    "'d block_device \<Rightarrow> 'd fat_state \<Rightarrow> (u32 option \<times> 'd fat_state) option" where
  "FindFreeCluster dv s = do {
     (r, s) \<leftarrow> find_free_loop dv (start_search_cluster (fsb s)) (cluster_cnt (fsb s)) s;
     (case r of
        Some c \<Rightarrow> Some (Some c, s)
      | None \<Rightarrow> find_free_loop dv 2 (start_search_cluster (fsb s)) s)
   }"

definition allocated :: "u32 \<Rightarrow> bool" where
  "allocated c \<longleftrightarrow> CLUSTER_ALLOC_MIN \<le> c \<and> c \<le> CLUSTER_ALLOC_MAX"

text \<open>
  The loop of \<open>FindLastCluster\<close>, after \<open>next\<close> was read from \<open>cluster\<close>; each turn moves the hint of
  the node. A chain that runs in a circle gives no result.
\<close>

partial_function (option) find_last_loop ::
    "'d block_device \<Rightarrow> nat \<Rightarrow> u32 \<Rightarrow> u32 \<Rightarrow> 'd fat_state \<Rightarrow> (u32 option \<times> 'd fat_state) option" where
  "find_last_loop dv i cluster next s =
     (if allocated next then do {
        let s = upd_node i (\<lambda>n. n\<lparr>fn_hint_offset := fn_hint_offset n + cluster_bytes s,
                                  fn_hint_cluster := next\<rparr>) s;
        (r, s) \<leftarrow> ReadFATEntry dv next s;
        (case r of
           None \<Rightarrow> Some (None, s)
         | Some next' \<Rightarrow> find_last_loop dv i next next' s)
      } else Some (Some cluster, s))"

definition FindLastCluster ::
    "'d block_device \<Rightarrow> nat \<Rightarrow> 'd fat_state \<Rightarrow> (u32 option \<times> 'd fat_state) option" where
  "FindLastCluster dv i s = do {
     n \<leftarrow> the_node i s;
     let first = GetFirstCluster (fn_dirent n) (fsb s);
     if first = CLUSTER_EOC then Some (Some CLUSTER_EOC, s)
     else do {
       let cluster = (if fn_hint_cluster n \<noteq> 0 then fn_hint_cluster n else first);
       (r, s) \<leftarrow> ReadFATEntry dv cluster s;
       (case r of
          None \<Rightarrow> Some (None, s)
        | Some next \<Rightarrow> find_last_loop dv i cluster next s)
     }
   }"

definition AppendCluster ::
    "'d block_device \<Rightarrow> nat \<Rightarrow> 'd fat_state \<Rightarrow> (u32 option \<times> 'd fat_state) option" where
  "AppendCluster dv i s = do {
     (r, s) \<leftarrow> FindLastCluster dv i s;
     (case r of
        None \<Rightarrow> Some (None, s)
      | Some last_cluster \<Rightarrow> do {
          (r, s) \<leftarrow> FindFreeCluster dv s;
          (case r of
             None \<Rightarrow> Some (None, s)
           | Some cluster \<Rightarrow> do {
               n \<leftarrow> the_node i s;
               s \<leftarrow> (if GetFirstCluster (fn_dirent n) (fsb s) = CLUSTER_EOC then do {
                      (rc, s) \<leftarrow> FlushDirent dv i (upd_dirent i (SetFirstCluster cluster (fsb s)) s);
                      Some s
                    } else do {
                      (rc, s) \<leftarrow> WriteFATEntry dv last_cluster cluster s;
                      Some s
                    });
               Some (Some cluster, s)
             })
        })
   }"

text \<open>
  The loop of \<open>FindCluster\<close>: \<open>n\<close> turns are left, since \<open>temp_offset\<close> runs through the multiples of
  the cluster size up to the offset, which was rounded down to one. None inside is -EIO.
\<close>

fun find_cluster_loop ::
    "'d block_device \<Rightarrow> nat \<Rightarrow> u32 \<Rightarrow> 'd fat_state \<Rightarrow> (u32 option \<times> 'd fat_state) option" where
  "find_cluster_loop dv 0 cluster s = Some (if allocated cluster then Some cluster else None, s)"
| "find_cluster_loop dv (Suc n) cluster s =
     (if \<not> allocated cluster then Some (None, s)
      else do {
        (r, s) \<leftarrow> ReadFATEntry dv cluster s;
        (case r of
           None \<Rightarrow> Some (None, s)
         | Some next \<Rightarrow> find_cluster_loop dv n next s)
      })"

text \<open>The signed offset is divided by the unsigned cluster size, so it counts as unsigned.\<close>

definition FindCluster ::
    "'d block_device \<Rightarrow> nat \<Rightarrow> u32 \<Rightarrow> 'd fat_state \<Rightarrow> (u32 option \<times> 'd fat_state) option" where
  "FindCluster dv i offset s = do {
     n \<leftarrow> the_node i s;
     if cluster_bytes s = 0 then None
     else find_cluster_loop dv (unat (offset div cluster_bytes s))
            (if fn_is_root n then root_cluster (bpb32 (fsb s))
             else GetFirstCluster (fn_dirent n) (fsb s)) s
   }"

text \<open>The loop of \<open>FreeClusters\<close>; \<open>FlushFSInfo\<close> does nothing.\<close>

partial_function (option) FreeClusters ::
    "'d block_device \<Rightarrow> u32 \<Rightarrow> 'd fat_state \<Rightarrow> 'd fat_state option" where
  "FreeClusters dv cluster s =
     (if allocated cluster then do {
        (r, s) \<leftarrow> ReadFATEntry dv cluster s;
        (case r of
           None \<Rightarrow> Some s
         | Some next \<Rightarrow> do {
             (rc, s) \<leftarrow> WriteFATEntry dv cluster CLUSTER_FREE s;
             if rc \<noteq> 0 then Some s else FreeClusters dv next s
           })
      } else Some s)"


section \<open>Sectors of clusters and files\<close>

definition ClusterToSector :: "u32 \<Rightarrow> FatSB \<Rightarrow> u32" where
  "ClusterToSector cluster sb =
     (cluster - 2) * ucast (sectors_per_cluster (bpb sb)) + first_data_sector sb"

text \<open>The sector and offset of a position in a cluster.\<close>

definition cluster_position :: "u32 \<Rightarrow> u32 \<Rightarrow> 'd fat_state \<Rightarrow> u32 \<times> u32" where
  "cluster_position cluster offset s =
     (ClusterToSector cluster (fsb s) + off_mod offset (cluster_bytes s) div 512, off_mod offset 512)"

text \<open>The sector and offset of a position in the root directory of FAT12 and FAT16.\<close>

definition root_position :: "u32 \<Rightarrow> FatSB \<Rightarrow> u32 \<times> u32" where
  "root_position offset sb =
     (ucast (reserved_sectors_cnt (bpb sb)) + ucast (fat_cnt (bpb sb)) * sectors_per_fat sb +
        off_div offset 512, off_mod offset 512)"

definition FileOffsetToSectorOffset ::
    "'d block_device \<Rightarrow> nat \<Rightarrow> u32 \<Rightarrow> 'd fat_state \<Rightarrow> ((u32 \<times> u32) \<times> 'd fat_state) option" where
  "FileOffsetToSectorOffset dv i file_offset s =
     (if i = ROOT_NODE \<and> sb_fat_type (fsb s) \<noteq> TYPE_FAT32
      then Some (root_position file_offset (fsb s), s)
      else do {
        (r, s) \<leftarrow> FindCluster dv i file_offset s;
        cluster \<leftarrow> r;
        Some (cluster_position cluster file_offset s, s)
      })"

text \<open>\<open>ClearCluster\<close>, with its loop over the \<open>n\<close> sectors from \<open>sector\<close>.\<close>

fun clear_sectors :: "'d block_device \<Rightarrow> nat \<Rightarrow> u32 \<Rightarrow> 'd fat_state \<Rightarrow> (int \<times> 'd fat_state) option" where
  "clear_sectors dv 0 sector s = Some (0, s)"
| "clear_sectors dv (Suc n) sector s = do {
     (rc, s) \<leftarrow> writeSector dv (Some (replicate 512 0)) sector 0 512 s;
     if rc \<noteq> 0 then Some (- 1, s) else clear_sectors dv n (sector + 1) s
   }"

definition ClearCluster :: "'d block_device \<Rightarrow> u32 \<Rightarrow> 'd fat_state \<Rightarrow> (int \<times> 'd fat_state) option" where
  "ClearCluster dv cluster s =
     clear_sectors dv (unat (sectors_per_cluster (bpb (fsb s)))) (ClusterToSector cluster (fsb s)) s"

end
