(* ===== verification/FatDir.thy ===== *)
theory FatDir
  imports FatCluster
begin

text \<open>
  dir.c of fatfs: DOS names and their packed form, reading, making and deleting the entries of a
  directory. \<open>sc\<close> says that \<open>char\<close> is a signed type.
\<close>

section \<open>Names\<close>

definition fat_lower :: "byte \<Rightarrow> byte" where
  "fat_lower b = (if 0x41 \<le> b \<and> b \<le> 0x5A then b + 0x20 else b)"

text \<open>\<open>FatDirEntryToASCIIZ\<close>: the string without its terminator; its length is what is returned.\<close>

definition FatDirEntryToASCIIZ :: "FatDirEntry \<Rightarrow> bytes" where
  "FatDirEntryToASCIIZ d =
     map fat_lower (takeWhile (\<lambda>b. b \<noteq> 0x20) (fd_name d)) @
     (if fd_extension d ! 0 \<noteq> 0x20 then [0x2E] else []) @
     map fat_lower (takeWhile (\<lambda>b. b \<noteq> 0x20) (fd_extension d))"

text \<open>\<open>fat_cmp_dirent\<close> compared with 0: the entry is in use and has the name.\<close>

definition fat_cmp_dirent :: "FatDirEntry \<Rightarrow> bytes \<Rightarrow> bool option" where
  "fat_cmp_dirent d name =
     (if fd_name d ! 0 \<noteq> DIRENTRY_FREE \<and> fd_name d ! 0 \<noteq> DIRENTRY_DELETED \<and>
         and (fd_attributes d) ATTR_LONG_FILENAME \<noteq> ATTR_LONG_FILENAME
      then c_streq name (FatDirEntryToASCIIZ d @ [0])
      else Some False)"

text \<open>The punctuation of DOS names.\<close>

definition dos_punctuation :: "byte list" where
  "dos_punctuation = [0x24, 0x25, 0x27, 0x2D, 0x5F, 0x40, 0x7E, 0x60, 0x21, 0x28, 0x29, 0x7B,
                      0x7D, 0x5E, 0x23, 0x26, 0x20]"

definition dos_char :: "bool \<Rightarrow> byte \<Rightarrow> bool" where
  "dos_char sc b \<longleftrightarrow> 0x41 \<le> b \<and> b \<le> 0x5A \<or> 0x30 \<le> b \<and> b \<le> 0x39 \<or> sc \<and> 0x80 \<le> b \<or>
     b \<in> set dos_punctuation"

text \<open>
  The loop of \<open>FatIsDosName\<close>: the status and the string, whose lower-case letters it has turned
  into upper case as far as it went.
\<close>

fun dos_name_loop :: "bool \<Rightarrow> nat \<Rightarrow> nat \<Rightarrow> nat \<Rightarrow> bytes \<Rightarrow> (int \<times> bytes) option" where
  "dos_name_loop sc names exts dots [] = None"
| "dos_name_loop sc names exts dots (b # s) =
     (if b = 0 \<or> b = 0x2F then Some (0, b # s)
      else if b = 0x2E then
        (if 1 < dots + 1 then Some (- 1, b # s)
         else map_option (\<lambda>(rc, s). (rc, b # s)) (dos_name_loop sc names exts (dots + 1) s))
      else if \<not> (0x61 \<le> b \<and> b \<le> 0x7A) \<and> \<not> dos_char sc b then Some (- 1, b # s)
      else
        (let b = (if 0x61 \<le> b \<and> b \<le> 0x7A then b - 0x20 else b);
             names = (if dots = 0 then names + 1 else names);
             exts = (if dots = 1 then exts + 1 else exts)
         in
         if 1 < dots then Some (- 1, b # s)
         else if names = 0 \<and> 1 \<le> dots then Some (- 1, b # s)
         else if 8 < names \<or> 1 < dots \<or> 3 < exts then Some (- 1, b # s)
         else map_option (\<lambda>(rc, s). (rc, b # s)) (dos_name_loop sc names exts dots s)))"

definition FatIsDosName :: "bool \<Rightarrow> bytes \<Rightarrow> (int \<times> bytes) option" where
  "FatIsDosName sc s = dos_name_loop sc 0 0 0 s"

text \<open>The copies of \<open>FatASCIIZToDirEntry\<close>: \<open>n\<close> characters, filled up with spaces.\<close>

fun copy_name :: "nat \<Rightarrow> bytes \<Rightarrow> (bytes \<times> bytes) option" where
  "copy_name 0 p = Some ([], p)"
| "copy_name (Suc n) [] = None"
| "copy_name (Suc n) (b # p) =
     (if b = 0 \<or> b = 0x2E then map_option (\<lambda>(bs, p). (0x20 # bs, p)) (copy_name n (b # p))
      else map_option (\<lambda>(bs, p). (b # bs, p)) (copy_name n p))"

fun copy_extension :: "nat \<Rightarrow> bytes \<Rightarrow> bytes option" where
  "copy_extension 0 p = Some []"
| "copy_extension (Suc n) [] = None"
| "copy_extension (Suc n) (b # p) =
     (if b = 0 then map_option (\<lambda>bs. 0x20 # bs) (copy_extension n (b # p))
      else map_option (\<lambda>bs. b # bs) (copy_extension n p))"

definition FatASCIIZToDirEntry :: "bool \<Rightarrow> FatDirEntry \<Rightarrow> bytes \<Rightarrow> (int \<times> FatDirEntry) option" where
  "FatASCIIZToDirEntry sc d filename = do {
     (rc, s) \<leftarrow> FatIsDosName sc filename;
     if rc \<noteq> 0 then Some (- ENOENT, d)
     else do {
       (name, p) \<leftarrow> copy_name 8 s;
       b \<leftarrow> ld8 p 0;
       ext \<leftarrow> (if b = 0x2E then copy_extension 3 (tl p) else Some (replicate 3 0x20));
       Some (0, d\<lparr>fd_name := name, fd_extension := ext\<rparr>)
     }
   }"


section \<open>Entries of a directory\<close>

text \<open>The offset of entry \<open>cookie\<close>; a product that does not fit an \<open>off_t\<close> has no result.\<close>

definition dir_offset :: "u32 \<Rightarrow> u32 option" where
  "dir_offset cookie =
     (let p = sint cookie * 32 in
      if - 2147483648 \<le> p \<and> p < 2147483648 then Some (word_of_int p) else None)"

text \<open>\<open>fat_dir_read\<close>: the status, 0 or -1, and for 0 the entry and where it is.\<close>

definition fat_dir_read ::
    "'d block_device \<Rightarrow> nat \<Rightarrow> u32 \<Rightarrow> 'd fat_state \<Rightarrow>
     (int \<times> (FatDirEntry \<times> u32 \<times> u32) option \<times> 'd fat_state) option" where
  "fat_dir_read dv i cookie s = do {
     n \<leftarrow> the_node i s;
     (pos, s) \<leftarrow>
       (if fn_is_root n \<and> sb_fat_type (fsb s) \<noteq> TYPE_FAT32 then
          (if sint cookie < int (unat (root_entries_cnt (bpb (fsb s)))) then do {
             offset \<leftarrow> dir_offset cookie;
             Some (Some (root_position offset (fsb s)), s)
           } else Some (None, s))
        else do {
          offset \<leftarrow> dir_offset cookie;
          (r, s) \<leftarrow> FindCluster dv i offset s;
          Some (map_option (\<lambda>cluster. cluster_position cluster offset s) r, s)
        });
     (case pos of
        None \<Rightarrow> Some (- 1, None, s)
      | Some (sector, sector_offset) \<Rightarrow> do {
          (rc, bs, s) \<leftarrow> readSector dv sector sector_offset FAT_DIRENTRY_SZ s;
          if rc \<noteq> 0 then Some (- 1, None, s)
          else do { d \<leftarrow> fatdirent_read (fat_be s) bs; Some (0, Some (d, sector, sector_offset), s) }
        })
   }"

text \<open>
  One turn of the loops of \<open>FatCreateDirEntry\<close> at a place of the directory: true when the entry was
  written there, false when the place is taken, None inside when it cannot be read.
\<close>

definition create_at ::
    "'d block_device \<Rightarrow> FatDirEntry \<Rightarrow> u32 \<times> u32 \<Rightarrow> 'd fat_state \<Rightarrow> (bool option \<times> 'd fat_state) option" where
  "create_at dv d pos s = do {
     (rc, bs, s) \<leftarrow> readSector dv (fst pos) (snd pos) FAT_DIRENTRY_SZ s;
     if rc \<noteq> 0 then Some (None, s)
     else do {
       cur \<leftarrow> fatdirent_read (fat_be s) bs;
       if fd_name cur ! 0 = DIRENTRY_FREE \<or> fd_name cur ! 0 = DIRENTRY_DELETED then do {
         (rc, s) \<leftarrow> writeSector dv (Some (fatdirent_bytes (fat_be s) d)) (fst pos) (snd pos) FAT_DIRENTRY_SZ s;
         Some (Some True, s)
       } else Some (Some False, s)
     }
   }"

text \<open>The position of entry \<open>offset\<close> in the root directory; here the offset is unsigned.\<close>

definition root_slot :: "u32 \<Rightarrow> FatSB \<Rightarrow> u32 \<times> u32" where
  "root_slot offset sb =
     (ucast (reserved_sectors_cnt (bpb sb)) + ucast (fat_cnt (bpb sb)) * sectors_per_fat sb +
        offset * FAT_DIRENTRY_SZ div 512, offset * FAT_DIRENTRY_SZ mod 512)"

function create_root_loop ::
    "'d block_device \<Rightarrow> FatDirEntry \<Rightarrow> u32 \<Rightarrow> 'd fat_state \<Rightarrow>
     (int \<times> (u32 \<times> u32) \<times> 'd fat_state) option" where
  "create_root_loop dv d offset s =
     (if unat offset < unat (root_entries_cnt (bpb (fsb s))) then do {
        let pos = root_slot offset (fsb s);
        (r, s') \<leftarrow> create_at dv d pos s;
        (case r of
           None \<Rightarrow> Some (- 1, pos, s')
         | Some written \<Rightarrow>
             if written then Some (1, pos, s') else create_root_loop dv d (offset + 1) s')
      } else Some (0, (0, 0), s))"
  by pat_completeness auto
termination
proof (relation "measure (\<lambda>(dv, d, offset, s). 65536 - unat offset)", goal_cases)
  case (2 dv d offset s)
  have "unat offset < 65536" using 2(1) unat_u16_lt [of "root_entries_cnt (bpb (fsb s))"] by linarith
  then have "offset < 65536" by (simp add: word_less_nat_alt)
  from unat_suc_less [OF this] \<open>unat offset < 65536\<close> show ?case by simp
qed simp

declare create_root_loop.simps [simp del]

text \<open>The loop over the clusters of any other directory; None inside when it runs out of them.\<close>

partial_function (option) create_chain_loop ::
    "'d block_device \<Rightarrow> nat \<Rightarrow> FatDirEntry \<Rightarrow> u32 \<Rightarrow> 'd fat_state \<Rightarrow>
     ((int \<times> u32 \<times> u32) option \<times> 'd fat_state) option" where
  "create_chain_loop dv i d offset s = do {
     (r, s) \<leftarrow> FindCluster dv i (offset * FAT_DIRENTRY_SZ) s;
     (case r of
        None \<Rightarrow> Some (None, s)
      | Some cluster \<Rightarrow> do {
          let pos = (ClusterToSector cluster (fsb s) +
                       offset * FAT_DIRENTRY_SZ mod cluster_bytes s div 512,
                     offset * FAT_DIRENTRY_SZ mod 512);
          (r, s) \<leftarrow> create_at dv d pos s;
          (case r of
             None \<Rightarrow> Some (Some (- 1, pos), s)
           | Some written \<Rightarrow>
               if written then Some (Some (1, pos), s) else create_chain_loop dv i d (offset + 1) s)
        })
   }"

definition FatCreateDirEntry ::
    "'d block_device \<Rightarrow> nat \<Rightarrow> FatDirEntry \<Rightarrow> 'd fat_state \<Rightarrow>
     (int \<times> (u32 \<times> u32) \<times> 'd fat_state) option" where
  "FatCreateDirEntry dv parent d s =
     (if parent = ROOT_NODE \<and> sb_fat_type (fsb s) \<noteq> TYPE_FAT32 then create_root_loop dv d 0 s
      else do {
        (r, s) \<leftarrow> create_chain_loop dv parent d 0 s;
        (case r of
           Some (status, pos) \<Rightarrow> Some (status, pos, s)
         | None \<Rightarrow> do {
             (r, s) \<leftarrow> AppendCluster dv parent s;
             (case r of
                None \<Rightarrow> Some (0, (0, 0), s)
              | Some cluster \<Rightarrow> do {
                  (rc, s) \<leftarrow> ClearCluster dv cluster s;
                  let sector = ClusterToSector cluster (fsb s);
                  (rc, s) \<leftarrow> writeSector dv (Some (fatdirent_bytes (fat_be s) d)) sector 0 FAT_DIRENTRY_SZ s;
                  Some (1, (sector, 0), s)
                })
           })
      })"

definition FatDeleteDirEntry :: "'d block_device \<Rightarrow> u32 \<Rightarrow> u32 \<Rightarrow> 'd fat_state \<Rightarrow> 'd fat_state option" where
  "FatDeleteDirEntry dv sector sector_offset s = do {
     (rc, bs, s) \<leftarrow> readSector dv sector sector_offset FAT_DIRENTRY_SZ s;
     if rc \<noteq> 0 then Some s
     else do {
       d \<leftarrow> fatdirent_read (fat_be s) bs;
       (rc, s) \<leftarrow> writeSector dv (Some (fatdirent_bytes (fat_be s)
           (d\<lparr>fd_name := (fd_name d)[0 := DIRENTRY_DELETED]\<rparr>))) sector sector_offset FAT_DIRENTRY_SZ s;
       Some s
     }
   }"

text \<open>\<open>IsDirEmpty\<close>, whose loop waits for a status 1 that \<open>fat_dir_read\<close> never returns.\<close>

partial_function (option) is_empty_loop ::
    "'d block_device \<Rightarrow> nat \<Rightarrow> u32 \<Rightarrow> 'd fat_state \<Rightarrow> (int \<times> 'd fat_state) option" where
  "is_empty_loop dv i offset s = do {
     (rc, r, s) \<leftarrow> fat_dir_read dv i offset s;
     if rc \<noteq> 1 then Some (rc, s)
     else do {
       (d, _, _) \<leftarrow> r;
       if fd_name d ! 0 = DIRENTRY_FREE then Some (0, s)
       else if fd_name d ! 0 = DIRENTRY_DELETED then is_empty_loop dv i (offset + 1) s
       else if and (fd_attributes d) ATTR_VOLUME_ID \<noteq> 0 then is_empty_loop dv i (offset + 1) s
       else if cstr (FatDirEntryToASCIIZ d @ [0]) \<in> {[0x2E, 0x2E], [0x2E]}
         then is_empty_loop dv i (offset + 1) s
       else Some (- 1, s)
     }
   }"

definition IsDirEmpty :: "'d block_device \<Rightarrow> nat \<Rightarrow> 'd fat_state \<Rightarrow> (int \<times> 'd fat_state) option" where
  "IsDirEmpty dv i s = is_empty_loop dv i 0 s"

end
