(* ===== verification/FatFormat.thy ===== *)
theory FatFormat
  imports FatDir
begin

text \<open>
  format.c of fatfs: making a file system on the partition, and the values computed from the boot
  record; with the tables of globals.c.
\<close>

section \<open>Tables\<close>

record Fat12BPBSpec =
  s12_bytes_per_sector :: u16
  s12_sectors_per_cluster :: byte
  s12_reserved_sectors_cnt :: u16
  s12_fat_cnt :: byte
  s12_root_entries_cnt :: u16
  s12_total_sectors_cnt16 :: u16
  s12_media_type :: byte
  s12_sectors_per_fat16 :: u16
  s12_sectors_per_track :: u16
  s12_heads_per_cylinder :: u16

definition fat12_spec ::
    "u16 \<Rightarrow> byte \<Rightarrow> u16 \<Rightarrow> byte \<Rightarrow> u16 \<Rightarrow> u16 \<Rightarrow> byte \<Rightarrow> u16 \<Rightarrow> u16 \<Rightarrow> u16 \<Rightarrow> Fat12BPBSpec" where
  "fat12_spec bps spc rs fc re ts mt spf spt hpc = \<lparr>s12_bytes_per_sector = bps,
     s12_sectors_per_cluster = spc, s12_reserved_sectors_cnt = rs, s12_fat_cnt = fc,
     s12_root_entries_cnt = re, s12_total_sectors_cnt16 = ts, s12_media_type = mt,
     s12_sectors_per_fat16 = spf, s12_sectors_per_track = spt, s12_heads_per_cylinder = hpc\<rparr>"

definition fat12_bpb :: "Fat12BPBSpec list" where
  "fat12_bpb = [
     fat12_spec 512 1 1 2  64  320 0xFE 1  8 1,
     fat12_spec 512 1 1 2  64  360 0xFC 2  9 1,
     fat12_spec 512 2 1 2 112  640 0xFF 1  8 2,
     fat12_spec 512 2 1 2 112  720 0xFD 2  9 2,
     fat12_spec 512 2 1 2 112 1440 0xF9 3  9 2,
     fat12_spec 512 1 1 2 224 2400 0xF9 7 15 2,
     fat12_spec 512 1 1 2 224 2880 0xF0 9 18 2,
     fat12_spec 512 2 1 2 240 5760 0xF0 9 36 2]"

definition dsksz_to_spc_fat16 :: "(u32 \<times> u32) list" where
  "dsksz_to_spc_fat16 = [(8400, 0), (32680, 2), (262144, 4), (524288, 8), (1048576, 16), (0xFFFFFFFF, 0)]"

definition dsksz_to_spc_fat32 :: "(u32 \<times> u32) list" where
  "dsksz_to_spc_fat32 = [(66600, 0), (532480, 1), (16777216, 8), (33554432, 16), (67108864, 32),
                         (0xFFFFFFFF, 64)]"

text \<open>
  The search loops of \<open>InitializeFatSB\<close>: up to the entry 0xFFFFFFFF, and without a \<open>break\<close>, so the
  last entry that is large enough wins.
\<close>

fun find_spc :: "u32 \<Rightarrow> (u32 \<times> u32) list \<Rightarrow> u32 \<Rightarrow> u32 option" where
  "find_spc sz [] spc = None"
| "find_spc sz ((disk, n) # tab) spc =
     (if disk = 0xFFFFFFFF then Some spc else find_spc sz tab (if sz \<le> disk then n else spc))"


section \<open>The values computed from the boot record\<close>

definition ROOT_DIR_SECTORS :: "FatBPB \<Rightarrow> u32" where
  "ROOT_DIR_SECTORS b = (ucast (root_entries_cnt b) * 32 + 511) div 512"

definition SECTORS_PER_FAT :: "FatSB \<Rightarrow> u32" where
  "SECTORS_PER_FAT sb =
     (if sectors_per_fat16 (bpb sb) \<noteq> 0 then ucast (sectors_per_fat16 (bpb sb))
      else sectors_per_fat32 (bpb32 sb))"

definition TOTAL_SECTORS :: "FatBPB \<Rightarrow> u32" where
  "TOTAL_SECTORS b =
     (if total_sectors_cnt16 b \<noteq> 0 then ucast (total_sectors_cnt16 b) else total_sectors_cnt32 b)"

definition fat_type_of :: "u32 \<Rightarrow> fat_type" where
  "fat_type_of clusters =
     (if clusters < 4085 then TYPE_FAT12 else if clusters < 65525 then TYPE_FAT16 else TYPE_FAT32)"

text \<open>The assignments both \<open>FatPrecalculateFSBValues\<close> and \<open>detectPartition\<close> make.\<close>

definition precalculate :: "FatSB \<Rightarrow> FatSB option" where
  "precalculate sb =
     (let rds = ROOT_DIR_SECTORS (bpb sb); spf = SECTORS_PER_FAT sb; tot = TOTAL_SECTORS (bpb sb);
          fds = ucast (reserved_sectors_cnt (bpb sb)) + ucast (fat_cnt (bpb sb)) * spf + rds;
          spc = ucast (sectors_per_cluster (bpb sb))
      in
      if spc = 0 then None
      else Some (sb\<lparr>root_dir_sectors := rds, sectors_per_fat := spf, total_sectors_cnt := tot,
             first_data_sector := fds, data_sectors := tot - fds, cluster_cnt := (tot - fds) div spc,
             sb_fat_type := fat_type_of ((tot - fds) div spc)\<rparr>))"

definition FatPrecalculateFSBValues :: "FatSB \<Rightarrow> FatSB option" where
  "FatPrecalculateFSBValues sb = map_option (\<lambda>sb. sb\<lparr>start_search_cluster := 2\<rparr>) (precalculate sb)"


section \<open>Initialising the file system block\<close>

text \<open>The ASCII strings MSWIN4.1, FAT12, FAT16 and FAT32.\<close>

definition msw_name :: bytes where
  "msw_name = [0x4D, 0x53, 0x57, 0x49, 0x4E, 0x34, 0x2E, 0x31]"

definition fat_str :: "byte \<Rightarrow> byte \<Rightarrow> bytes" where
  "fat_str a b = [0x46, 0x41, 0x54, a, b, 0x20, 0x20, 0x20]"

definition ext16_for :: "FatDirEntry \<Rightarrow> bytes \<Rightarrow> FatBPB_16Ext" where
  "ext16_for label str = \<lparr>x16_drv_num = 0, x16_reserved1 = 0, x16_boot_sig = 0x29,
     x16_volume_id = 0, x16_volume_label = fd_name label @ fd_extension label,
     x16_filesystem_type = str\<rparr>"

definition init_fat12 :: "FatDirEntry \<Rightarrow> Fat12BPBSpec \<Rightarrow> FatSB \<Rightarrow> FatSB" where
  "init_fat12 label t sb = sb\<lparr>sb_fat_type := TYPE_FAT12,
     bpb := (bpb sb)\<lparr>jump := [0xEB, 0x3C, 0x90], oem_name := msw_name,
       bytes_per_sector := s12_bytes_per_sector t, sectors_per_cluster := s12_sectors_per_cluster t,
       reserved_sectors_cnt := s12_reserved_sectors_cnt t, fat_cnt := s12_fat_cnt t,
       root_entries_cnt := s12_root_entries_cnt t, media_type := s12_media_type t,
       sectors_per_fat16 := s12_sectors_per_fat16 t, sectors_per_track := s12_sectors_per_track t,
       heads_per_cylinder := s12_heads_per_cylinder t, hidden_sectors_cnt := 0,
       total_sectors_cnt16 :=
         (if sint (partition_size sb) < 0x10000 then s12_total_sectors_cnt16 t else 0),
       total_sectors_cnt32 :=
         (if sint (partition_size sb) < 0x10000 then 0 else ucast (s12_total_sectors_cnt16 t))\<rparr>,
     bpb16 := ext16_for label (fat_str 0x31 0x32), start_search_cluster := 2\<rparr>"

text \<open>\<open>tmp1 + (tmp2 - 1)) / tmp2\<close>; a divisor of 0 is excluded by the callers.\<close>

definition sectors_for_fat :: "u32 \<Rightarrow> u32 \<Rightarrow> u32 \<Rightarrow> u32" where
  "sectors_for_fat sz fixed tmp2 = (sz - fixed + (tmp2 - 1)) div tmp2"

definition init_fat16 :: "FatDirEntry \<Rightarrow> u32 \<Rightarrow> FatSB \<Rightarrow> FatSB" where
  "init_fat16 label spc sb = sb\<lparr>sb_fat_type := TYPE_FAT16,
     bpb := (bpb sb)\<lparr>jump := [0xEB, 0x3C, 0x90], oem_name := msw_name,
       bytes_per_sector := 512, sectors_per_cluster := ucast spc, reserved_sectors_cnt := 1,
       fat_cnt := 2, root_entries_cnt := 512, media_type := 0xF8,
       sectors_per_fat16 :=
         ucast (sectors_for_fat (partition_size sb) (1 + (512 * 32 + 511) div 512) (256 * spc + 2)),
       sectors_per_track := 0, heads_per_cylinder := 0, hidden_sectors_cnt := 0,
       total_sectors_cnt16 :=
         (if sint (partition_size sb) < 0x10000 then ucast (partition_size sb) else 0),
       total_sectors_cnt32 :=
         (if sint (partition_size sb) < 0x10000 then 0 else partition_size sb)\<rparr>,
     bpb16 := ext16_for label (fat_str 0x31 0x36), start_search_cluster := 2\<rparr>"

definition init_fat32 :: "FatDirEntry \<Rightarrow> u32 \<Rightarrow> FatSB \<Rightarrow> FatSB option" where
  "init_fat32 label spc sb =
     (let spf = sectors_for_fat (partition_size sb) (32 + (0 * 32 + 511) div 512) ((256 * spc + 2) div 2);
          data = partition_size sb - (32 + 2 * sectors_per_fat sb + (0 * 32 + 511) div 512)
      in
      if (ucast (ucast spc :: byte) :: u32) = 0 then None
      else Some (sb\<lparr>sb_fat_type := TYPE_FAT32,
     bpb := (bpb sb)\<lparr>jump := [0xEB, 0x58, 0x90], oem_name := msw_name,
       bytes_per_sector := 512, sectors_per_cluster := ucast spc, reserved_sectors_cnt := 32,
       fat_cnt := 2, root_entries_cnt := 0, total_sectors_cnt16 := 0, media_type := 0xF8,
       sectors_per_fat16 := 0, sectors_per_track := 0, heads_per_cylinder := 0,
       hidden_sectors_cnt := 0, total_sectors_cnt32 := partition_size sb\<rparr>,
     bpb32 := \<lparr>sectors_per_fat32 = spf, ext_flags = 0, fs_version = 0, root_cluster = 2,
       fs_info = 1, boot_sector_backup = 6, x32_reserved = replicate 48 0, x32_drv_num = 0,
       x32_reserved1 = 0, x32_boot_sig = 0x29, x32_volume_id = 0,
       x32_volume_label = fd_name label @ fd_extension label,
       x32_filesystem_type = fat_str 0x33 0x32\<rparr>,
     fsi := \<lparr>lead_sig = 0x41615252, fsi_reserved1 = replicate 480 0, struc_sig = 0x61417272,
       free_cnt = data div ucast (ucast spc :: byte) - 1, next_free = 2,
       fsi_reserved2 = replicate 12 0, trail_sig = 0xAA550000\<rparr>,
     start_search_cluster := 2\<rparr>))"

text \<open>
  The part of \<open>InitializeFatSB\<close> that chooses the type and fills in the boot record; the partition
  size is compared as a signed number.
\<close>

definition fill_bpb :: "FatDirEntry \<Rightarrow> FatSB \<Rightarrow> (int \<times> FatSB) option" where
  "fill_bpb label sb =
     (let psize = partition_size sb in
      if sint psize \<le> 8400 then
        Some (case find (\<lambda>t. sint psize = int (unat (s12_total_sectors_cnt16 t))) fat12_bpb of
                Some t \<Rightarrow> (0, init_fat12 label t sb) | None \<Rightarrow> (- 1, sb))
      else if sint psize \<le> 1048576 then do {
        spc \<leftarrow> find_spc psize dsksz_to_spc_fat16 0;
        Some (if spc = 0 then (- 1, sb\<lparr>sb_fat_type := TYPE_FAT16\<rparr>) else (0, init_fat16 label spc sb))
      } else do {
        spc \<leftarrow> find_spc psize dsksz_to_spc_fat32 0;
        if spc = 0 then Some (- 1, sb\<lparr>sb_fat_type := TYPE_FAT32\<rparr>)
        else map_option (Pair 0) (init_fat32 label spc sb)
      })"

definition InitializeFatSB ::
    "FatDirEntry \<Rightarrow> 'd fat_state \<Rightarrow> (int \<times> 'd fat_state) option" where
  "InitializeFatSB label s = do {
     (rc, sb) \<leftarrow> fill_bpb label (fsb s);
     if rc \<noteq> 0 then Some (- 1, s\<lparr>fsb := sb\<rparr>)
     else do {
       sb \<leftarrow> FatPrecalculateFSBValues sb;
       Some (0, s\<lparr>fsb := sb, node_list := []\<rparr>)
     }
   }"


section \<open>Writing the structures\<close>

fun erase_loop :: "'d block_device \<Rightarrow> nat \<Rightarrow> u32 \<Rightarrow> 'd fat_state \<Rightarrow> 'd fat_state option" where
  "erase_loop dv 0 t s = Some s"
| "erase_loop dv (Suc n) t s = do {
     (rc, s) \<leftarrow> writeSector dv (Some (replicate 512 0)) t 0 512 s;
     erase_loop dv n (t + 1) s
   }"

definition FatEraseDisk :: "'d block_device \<Rightarrow> 'd fat_state \<Rightarrow> (int \<times> 'd fat_state) option" where
  "FatEraseDisk dv s = do {
     s \<leftarrow> erase_loop dv (unat (partition_size (fsb s))) 0 s;
     Some (0, s)
   }"

text \<open>The backup of the first \<open>n\<close> sectors, from sector \<open>t\<close>.\<close>

fun backup_loop :: "'d block_device \<Rightarrow> nat \<Rightarrow> u32 \<Rightarrow> 'd fat_state \<Rightarrow> 'd fat_state option" where
  "backup_loop dv 0 t s = Some s"
| "backup_loop dv (Suc n) t s = do {
     (rc, bs, s) \<leftarrow> readSector dv t 0 512 s;
     (rc, s) \<leftarrow> writeSector dv (Some bs) (6 + t) 0 512 s;
     backup_loop dv n (t + 1) s
   }"

definition FatWriteBootRecord :: "'d block_device \<Rightarrow> 'd fat_state \<Rightarrow> (int \<times> 'd fat_state) option" where
  "FatWriteBootRecord dv s = do {
     (rc, sector, s) \<leftarrow> readSector dv 0 0 512 s;
     sector \<leftarrow> store (bpb_bytes (fat_be s) (bpb (fsb s))) 0 sector;
     sector \<leftarrow> (if sb_fat_type (fsb s) = TYPE_FAT32
               then store (bpb32_bytes (fat_be s) (bpb32 (fsb s))) 36 sector
               else store (bpb16_bytes (fat_be s) (bpb16 (fsb s))) 36 sector);
     sector \<leftarrow> store [0x55, 0xAA] 510 sector;
     (rc, s) \<leftarrow> writeSector dv (Some sector) 0 0 512 s;
     if sb_fat_type (fsb s) = TYPE_FAT32 then do {
       (rc, s) \<leftarrow> writeSector dv (Some (fsi_bytes (fat_be s) (fsi (fsb s)))) 1 0 512 s;
       (rc, s) \<leftarrow> writeSector dv (Some [0x55, 0xAA]) 2 510 2 s;
       s \<leftarrow> backup_loop dv 3 0 s;
       Some (0, s)
     } else Some (0, s)
   }"

definition FatInitFATs :: "'d block_device \<Rightarrow> 'd fat_state \<Rightarrow> (int \<times> 'd fat_state) option" where
  "FatInitFATs dv s = do {
     let media = or (ucast (media_type (bpb (fsb s))))
                    (case sb_fat_type (fsb s) of
                       TYPE_FAT12 \<Rightarrow> 0xF00 | TYPE_FAT16 \<Rightarrow> 0xFF00 | TYPE_FAT32 \<Rightarrow> 0xFFFFFF00);
     (rc, s) \<leftarrow> WriteFATEntry dv 0 media s;
     (rc, s) \<leftarrow> WriteFATEntry dv 1 CLUSTER_EOC s;
     if sb_fat_type (fsb s) = TYPE_FAT32 then do {
       (rc, s) \<leftarrow> WriteFATEntry dv 2 CLUSTER_EOC s;
       Some (0, s)
     } else Some (0, s)
   }"

definition FatInitRootDirectory ::
    "'d block_device \<Rightarrow> FatDirEntry \<Rightarrow> 'd fat_state \<Rightarrow> (int \<times> 'd fat_state) option" where
  "FatInitRootDirectory dv label s = do {
     (status, pos, s) \<leftarrow> FatCreateDirEntry dv ROOT_NODE
        (zero_dirent\<lparr>fd_name := fd_name label, fd_extension := fd_extension label,
                     fd_attributes := ATTR_VOLUME_ID\<rparr>) s;
     Some (0, s)
   }"

text \<open>
  \<open>FatFormat\<close>: \<open>d0\<close> is the uninitialised local \<open>label_dirent\<close>, the label None is the null pointer.
  With a label it returns -1 whether or not the label is a good name.
\<close>

definition NO_NAME :: bytes where
  "NO_NAME = [0x4E, 0x4F, 0x20, 0x4E, 0x41, 0x4D, 0x45, 0]"

definition label_dirent ::
    "bool \<Rightarrow> FatDirEntry \<Rightarrow> bytes option \<Rightarrow> (bool \<times> FatDirEntry) option" where
  "label_dirent sc d0 label =
     (case label of
        None \<Rightarrow> do { (rc, d) \<leftarrow> FatASCIIZToDirEntry sc d0 NO_NAME; Some (rc = 0, d) }
      | Some l \<Rightarrow> do { (rc, d) \<leftarrow> FatASCIIZToDirEntry sc d0 l; Some (False, d) })"

definition FatFormat ::
    "'d block_device \<Rightarrow> bool \<Rightarrow> FatDirEntry \<Rightarrow> bytes option \<Rightarrow> 'd fat_state \<Rightarrow> (int \<times> 'd fat_state) option" where
  "FatFormat dv sc d0 label s =
     (case label_dirent sc d0 label of
        None \<Rightarrow> None
      | Some (False, d) \<Rightarrow> Some (- 1, s)
      | Some (True, d) \<Rightarrow> do {
          (rc, s) \<leftarrow> InitializeFatSB d s;
          if rc \<noteq> 0 then Some (- 1, s)
          else do {
            (rc, s) \<leftarrow> FatEraseDisk dv s;
            (rc, s) \<leftarrow> FatWriteBootRecord dv s;
            (rc, s) \<leftarrow> FatInitFATs dv s;
            (rc, s) \<leftarrow> FatInitRootDirectory dv d s;
            Some (0, s)
          }
        })"

end
