(* ===== verification/FatNode.thy ===== *)
theory FatNode
  imports FatDir
begin

text \<open>
  node.c and lookup.c of fatfs: the nodes in core, their reference counts, and the lookup of a name
  in a directory.
\<close>

section \<open>Nodes\<close>

text \<open>The loop of \<open>FindNode\<close> over the node list.\<close>

fun find_node :: "u32 \<Rightarrow> nat list \<Rightarrow> 'd fat_state \<Rightarrow> nat option option" where
  "find_node ino [] s = Some None"
| "find_node ino (i # is) s =
     (case the_node i s of
        None \<Rightarrow> None
      | Some n \<Rightarrow> if fn_inode_nr n = ino then Some (Some i) else find_node ino is s)"

definition FindNode :: "u32 \<Rightarrow> 'd fat_state \<Rightarrow> (nat option \<times> 'd fat_state) option" where
  "FindNode ino s = do {
     r \<leftarrow> find_node ino (node_list s) s;
     (case r of
        None \<Rightarrow> Some (None, s)
      | Some i \<Rightarrow> Some (Some i, upd_node i (\<lambda>n. n\<lparr>fn_reference_cnt := fn_reference_cnt n + 1\<rparr>) s))
   }"

definition InitRootNode :: "'d fat_state \<Rightarrow> 'd fat_state" where
  "InitRootNode s =
     (upd_node ROOT_NODE (\<lambda>n. n\<lparr>
        fn_dirent := zero_dirent\<lparr>fd_attributes := ATTR_DIRECTORY\<rparr>, fn_inode_nr := 0,
        fn_reference_cnt := 1, fn_dirent_sector := 0, fn_dirent_offset := 0,
        fn_hint_cluster := 0, fn_hint_offset := 0, fn_is_root := True\<rparr>) s)
     \<lparr>node_list := ROOT_NODE # node_list s\<rparr>"

text \<open>
  \<open>AllocNode\<close>. \<open>mal\<close> is what \<open>malloc\<close> does: None when it fails, else the old contents of the memory
  in the field \<open>is_root\<close>, which is never set. A result None inside is NULL.
\<close>

definition AllocNode ::
    "bool option \<Rightarrow> FatDirEntry \<Rightarrow> u32 \<Rightarrow> u32 \<Rightarrow> 'd fat_state \<Rightarrow> nat option \<times> 'd fat_state" where
  "AllocNode mal d sector offset s =
     (case mal of
        None \<Rightarrow> (None, s)
      | Some junk \<Rightarrow>
          (let cluster = GetFirstCluster d (fsb s) in
           if cluster = CLUSTER_EOC \<or> cluster = CLUSTER_BAD then (None, s)
           else let i = length (node_heap s) in
             (Some i, s\<lparr>node_heap := node_heap s @
                  [Some \<lparr>fn_inode_nr = cluster, fn_is_root = junk, fn_dirent_sector = sector,
                         fn_dirent_offset = offset, fn_dirent = d, fn_hint_cluster = 0,
                         fn_hint_offset = 0, fn_reference_cnt = 1\<rparr>],
                node_list := node_list s @ [i]\<rparr>)))"

definition FreeNode :: "nat \<Rightarrow> 'd fat_state \<Rightarrow> 'd fat_state option" where
  "FreeNode i s = do {
     n \<leftarrow> the_node i s;
     let s = upd_node i (\<lambda>n. n\<lparr>fn_reference_cnt := fn_reference_cnt n - 1\<rparr>) s;
     Some (if i \<noteq> ROOT_NODE \<and> fn_reference_cnt n - 1 = 0
           then s\<lparr>node_list := remove1 i (node_list s), node_heap := (node_heap s)[i := None]\<rparr>
           else s)
   }"


section \<open>Lookup\<close>

text \<open>What is done with the entry that has the name.\<close>

definition lookup_hit ::
    "bool option \<Rightarrow> FatDirEntry \<Rightarrow> u32 \<Rightarrow> u32 \<Rightarrow> 'd fat_state \<Rightarrow>
     (int \<times> nat option \<times> 'd fat_state) option" where
  "lookup_hit mal d sector offset s =
     (let cluster = GetFirstCluster d (fsb s) in
      if cluster = CLUSTER_EOC \<or> cluster = CLUSTER_BAD then Some (- EIO, None, s)
      else do {
        (r, s) \<leftarrow> FindNode cluster s;
        let (r, s) = (case r of Some i \<Rightarrow> (Some i, s) | None \<Rightarrow> AllocNode mal d sector offset s);
        (case r of
           None \<Rightarrow> Some (- 1, None, s)
         | Some i \<Rightarrow>
             Some (0, Some i, upd_node i (\<lambda>n. n\<lparr>
               fn_inode_nr := or (push_bit 16 (ucast (fd_first_cluster_hi d))) (ucast (fd_first_cluster_lo d)),
               fn_hint_cluster := 0, fn_hint_offset := 0, fn_dirent := d\<rparr>) s))
      })"

partial_function (option) lookup_loop ::
    "'d block_device \<Rightarrow> bool option \<Rightarrow> nat \<Rightarrow> bytes \<Rightarrow> u32 \<Rightarrow> 'd fat_state \<Rightarrow>
     (int \<times> nat option \<times> 'd fat_state) option" where
  "lookup_loop dv mal i name offset s = do {
     (rc, r, s) \<leftarrow> fat_dir_read dv i offset s;
     (case r of
        None \<Rightarrow> Some (- 1, None, s)
      | Some (d, sector, sector_offset) \<Rightarrow>
          if fd_name d ! 0 = DIRENTRY_FREE \<or> fd_name d ! 0 = DIRENTRY_DELETED
          then lookup_loop dv mal i name (offset + 1) s
          else do {
            hit \<leftarrow> fat_cmp_dirent d name;
            if hit then lookup_hit mal d sector sector_offset s
            else lookup_loop dv mal i name (offset + 1) s
          })
   }"

definition lookup :: "'d block_device \<Rightarrow> bool option \<Rightarrow> nat \<Rightarrow> bytes \<Rightarrow> 'd fat_state \<Rightarrow>
    (int \<times> nat option \<times> 'd fat_state) option" where
  "lookup dv mal i name s = lookup_loop dv mal i name 0 s"

end
