(* ===== verification/FatInit.thy ===== *)
theory FatInit
  imports FatFormat FatNode
begin

text \<open>
  init.c of fatfs: finding the FAT partition in the master boot record, and starting the handler.
\<close>

section \<open>The partition table\<close>

record MBRPartitionEntry =
  mbe_status :: byte
  mbe_chs :: bytes
  mbe_partition_type :: byte
  mbe_chs_last :: bytes
  mbe_lba :: u32
  mbe_nsectors :: u32

definition mbe_read :: "bool \<Rightarrow> bytes \<Rightarrow> MBRPartitionEntry option" where
  "mbe_read be bs = do {
     (st, bs) \<leftarrow> p8 bs; (ch, bs) \<leftarrow> pbytes 3 bs; (ty, bs) \<leftarrow> p8 bs; (cl, bs) \<leftarrow> pbytes 3 bs;
     (lb, bs) \<leftarrow> p32 be bs; (ns, bs) \<leftarrow> p32 be bs;
     Some \<lparr>mbe_status = st, mbe_chs = ch, mbe_partition_type = ty, mbe_chs_last = cl,
           mbe_lba = lb, mbe_nsectors = ns\<rparr>
   }"

text \<open>The checks of \<open>detectPartition\<close> on a boot record.\<close>

definition bpb_valid :: "FatSB \<Rightarrow> bool" where
  "bpb_valid sb \<longleftrightarrow>
     (let b = bpb sb in
      bytes_per_sector b = 512 \<and>
      1 \<le> sectors_per_cluster b \<and> sectors_per_cluster b \<le> 128 \<and>
      and (sectors_per_cluster b) (sectors_per_cluster b - 1) = 0 \<and>
      reserved_sectors_cnt b \<noteq> 0 \<and> fat_cnt b \<noteq> 0 \<and>
      (media_type b = 0 \<or> media_type b = 1 \<or> 0xF0 \<le> media_type b) \<and>
      (total_sectors_cnt16 b \<noteq> 0 \<or> total_sectors_cnt16 b = 0 \<and> total_sectors_cnt32 b \<noteq> 0) \<and>
      (sectors_per_fat16 b \<noteq> 0 \<or> sectors_per_fat16 b = 0 \<and> sectors_per_fat32 (bpb32 sb) \<noteq> 0))"

text \<open>
  One turn of the loop of \<open>detectPartition\<close>: whether a FAT file system was found. Fields set before
  a check fails keep their values.
\<close>

definition detect_entry ::
    "'d block_device \<Rightarrow> MBRPartitionEntry \<Rightarrow> 'd fat_state \<Rightarrow> (bool \<times> 'd fat_state) option" where
  "detect_entry dv e s =
     (if mbe_partition_type e = 0 then Some (False, s)
      else do {
        let s = upd_fsb (\<lambda>b. b\<lparr>partition_start := mbe_lba e, partition_size := mbe_nsectors e\<rparr>) s;
        (r, buf, c) \<leftarrow> blockRead dv 512 (partition_start (fsb s)) (block_cache s);
        let s = s\<lparr>block_cache := c\<rparr>;
        b \<leftarrow> bpb_read (fat_be s) buf;
        b16 \<leftarrow> bpb16_read (fat_be s) (drop 36 buf);
        b32 \<leftarrow> bpb32_read (fat_be s) (drop 36 buf);
        let s = upd_fsb (\<lambda>sb. sb\<lparr>bpb := b, bpb16 := b16, bpb32 := b32\<rparr>) s;
        if \<not> bpb_valid (fsb s) then Some (False, s)
        else do {
          sb \<leftarrow> precalculate (fsb s);
          let s = s\<lparr>fsb := sb\<rparr>;
          if sb_fat_type sb = TYPE_FAT12 then Some (False, s)
          else if sb_fat_type sb = TYPE_FAT32 \<and> fs_version (bpb32 sb) \<noteq> 0 then Some (False, s)
          else if sb_fat_type sb \<noteq> TYPE_FAT32 \<and> root_entries_cnt (bpb sb) = 0 then Some (False, s)
          else Some (True, InitRootNode s)
        }
      })"

fun detect_loop ::
    "'d block_device \<Rightarrow> MBRPartitionEntry list \<Rightarrow> 'd fat_state \<Rightarrow> (int \<times> 'd fat_state) option" where
  "detect_loop dv [] s = Some (- 1, s)"
| "detect_loop dv (e # es) s = do {
     (found, s) \<leftarrow> detect_entry dv e s;
     if found then Some (0, s) else detect_loop dv es s
   }"

definition detectPartition :: "'d block_device \<Rightarrow> 'd fat_state \<Rightarrow> (int \<times> 'd fat_state) option" where
  "detectPartition dv s = do {
     (r, boot, c) \<leftarrow> blockRead dv 512 0 (block_cache s);
     let s = s\<lparr>block_cache := c\<rparr>;
     e0 \<leftarrow> mbe_read (fat_be s) (drop 446 boot);
     e1 \<leftarrow> mbe_read (fat_be s) (drop 462 boot);
     e2 \<leftarrow> mbe_read (fat_be s) (drop 478 boot);
     e3 \<leftarrow> mbe_read (fat_be s) (drop 494 boot);
     detect_loop dv [e0, e1, e2, e3] s
   }"

text \<open>
  \<open>init\<close>, once the arguments have been read and the device is open: \<open>mem\<close> is the memory of the
  cache, \<open>uid\<close>, \<open>gid\<close> and \<open>fmt\<close> are what \<open>processArgs\<close> found. It exits when no partition is found.
\<close>

definition TEST_LABEL :: bytes where
  "TEST_LABEL = [0x54, 0x45, 0x53, 0x54, 0]"

definition fat_init ::
    "'d block_device \<Rightarrow> bool \<Rightarrow> bool \<Rightarrow> bytes option \<Rightarrow> FatDirEntry \<Rightarrow> int \<Rightarrow> int \<Rightarrow> bool \<Rightarrow> 'd \<Rightarrow>
     'd fat_state option" where
  "fat_init dv be sc mem d0 uid gid fmt d = do {
     c \<leftarrow> CreateCache mem 64 512 0 0 1 0 512 d;
     let s = (fat_globals be c)\<lparr>fat_uid := uid, fat_gid := gid\<rparr>;
     s \<leftarrow> (if fmt then do { (rc, s) \<leftarrow> FatFormat dv sc d0 (Some TEST_LABEL) s; Some s } else Some s);
     (rc, s) \<leftarrow> detectPartition dv s;
     if rc = - 1 then None else Some s
   }"

end
