(* ===== verification/FatFile.thy ===== *)
theory FatFile
  imports FatNode
begin

text \<open>
  file.c of fatfs: reading and writing files, making and truncating them.
\<close>

section \<open>Reading\<close>

text \<open>The number of bytes of the next transfer: at most a sector, and inside it.\<close>

definition transfer_nbytes :: "u32 \<Rightarrow> u32 \<Rightarrow> u32" where
  "transfer_nbytes left sector_offset =
     (let n = (if 512 < left then 512 else left)
      in if n < 512 - sector_offset then n else 512 - sector_offset)"

lemma transfer_nbytes_le: "transfer_nbytes left so \<le> left"
  by (auto simp: transfer_nbytes_def Let_def)

text \<open>The loop of \<open>readFile\<close> with \<open>left\<close> bytes to read; a transfer of no bytes goes on for ever.\<close>

function fat_read_loop ::
    "'d block_device \<Rightarrow> nat \<Rightarrow> u32 \<Rightarrow> u32 \<Rightarrow> 'd fat_state \<Rightarrow> (bytes \<times> 'd fat_state) option" where
  "fat_read_loop dv i left offset s =
     (if left = 0 then Some ([], s)
      else do {
        (r, s') \<leftarrow> FindCluster dv i offset s;
        (case r of
           None \<Rightarrow> Some ([], s')
         | Some cluster \<Rightarrow>
             (let (sector, sector_offset) = cluster_position cluster offset s';
                  n = transfer_nbytes left sector_offset
              in if n = 0 then None
              else do {
                (rc, bs, s'') \<leftarrow> readSector dv sector sector_offset n s';
                if rc \<noteq> 0 then Some ([], s'')
                else do {
                  (rest, s''') \<leftarrow> fat_read_loop dv i (left - n) (offset + n) s'';
                  Some (bs @ rest, s''')
                }
              }))
      })"
  by pat_completeness auto
termination
proof (relation "measure (\<lambda>(dv, i, left, offset, s). unat left)", goal_cases)
  case (2 dv i left offset s r y s' cluster sector sector_offset ya n)
  then have "n \<noteq> 0" "n \<le> left" by (auto simp: transfer_nbytes_le)
  then show ?case using 2(1) by (simp add: unat_sub word_le_nat_alt unat_gt_0)
qed simp

declare fat_read_loop.simps [simp del]

text \<open>\<open>readFile\<close>: the bytes read; their number is what is returned.\<close>

definition readFile ::
    "'d block_device \<Rightarrow> nat \<Rightarrow> u32 \<Rightarrow> u32 \<Rightarrow> 'd fat_state \<Rightarrow> (bytes \<times> 'd fat_state) option" where
  "readFile dv i count offset s = do {
     n \<leftarrow> the_node i s;
     let sz = fd_size (fn_dirent n);
     fat_read_loop dv i (if sz \<le> offset then 0 else if count < sz - offset then count else sz - offset)
       offset s
   }"


section \<open>Writing\<close>

text \<open>
  The inner loop of \<open>writeFile\<close>: clusters are appended until there is one for the offset; None
  inside when the volume is full.
\<close>

partial_function (option) write_cluster ::
    "'d block_device \<Rightarrow> nat \<Rightarrow> u32 \<Rightarrow> 'd fat_state \<Rightarrow> (u32 option \<times> 'd fat_state) option" where
  "write_cluster dv i offset s = do {
     (r, s) \<leftarrow> FindCluster dv i offset s;
     (case r of
        Some cluster \<Rightarrow> Some (Some cluster, s)
      | None \<Rightarrow> do {
          (r, s) \<leftarrow> AppendCluster dv i s;
          (case r of
             None \<Rightarrow> Some (None, s)
           | Some cluster \<Rightarrow> write_cluster dv i offset s)
        })
   }"

text \<open>
  The loop of \<open>writeFile\<close> with \<open>left\<close> bytes to write: whether it ran to its end, the number of bytes
  left and the offset reached.
\<close>

function fat_write_loop ::
    "'d block_device \<Rightarrow> nat \<Rightarrow> bytes \<Rightarrow> u32 \<Rightarrow> u32 \<Rightarrow> 'd fat_state \<Rightarrow>
     (bool \<times> u32 \<times> u32 \<times> 'd fat_state) option" where
  "fat_write_loop dv i src left offset s =
     (if left = 0 then Some (True, 0, offset, s)
      else do {
        (r, s') \<leftarrow> write_cluster dv i offset s;
        (case r of
           None \<Rightarrow> Some (False, left, offset, s')
         | Some cluster \<Rightarrow>
             (let (sector, sector_offset) = cluster_position cluster offset s';
                  n = transfer_nbytes left sector_offset
              in if n = 0 then None
              else do {
                (rc, s'') \<leftarrow> writeSector dv (Some src) sector sector_offset n s';
                if rc \<noteq> 0 then Some (False, left, offset, s'')
                else fat_write_loop dv i (drop (unat n) src) (left - n) (offset + n) s''
              }))
      })"
  by pat_completeness auto
termination
proof (relation "measure (\<lambda>(dv, i, src, left, offset, s). unat left)", goal_cases)
  case (2 dv i src left offset s r y s' cluster sector sector_offset ya n)
  then have "n \<noteq> 0" "n \<le> left" by (auto simp: transfer_nbytes_le)
  then show ?case using 2(1) by (simp add: unat_sub word_le_nat_alt unat_gt_0)
qed simp

declare fat_write_loop.simps [simp del]

text \<open>Clearing the gap behind the end of the file; the status is false for the early return.\<close>

definition clear_gap ::
    "'d block_device \<Rightarrow> nat \<Rightarrow> u32 \<Rightarrow> u32 \<Rightarrow> 'd fat_state \<Rightarrow> (bool \<times> 'd fat_state) option" where
  "clear_gap dv i sz offset s =
     (if cluster_bytes s = 0 then None
      else do {
        let nbytes_to_clear = cluster_bytes s - sz mod cluster_bytes s;
        (r, s) \<leftarrow> FindCluster dv i sz s;
        (case r of
           None \<Rightarrow> Some (True, s)
         | Some cluster \<Rightarrow> do {
             let (sector, sector_offset) = cluster_position cluster offset s;
             (rc, s) \<leftarrow> writeSector dv None sector sector_offset nbytes_to_clear s;
             Some (rc = 0, s)
           })
      })"

definition writeFile ::
    "'d block_device \<Rightarrow> nat \<Rightarrow> bytes \<Rightarrow> u32 \<Rightarrow> u32 \<Rightarrow> 'd fat_state \<Rightarrow> (u32 \<times> 'd fat_state) option" where
  "writeFile dv i buf count offset s = do {
     n \<leftarrow> the_node i s;
     (ok, s) \<leftarrow> (if fd_size (fn_dirent n) < offset then clear_gap dv i (fd_size (fn_dirent n)) offset s
                else Some (True, s));
     if \<not> ok then Some (- 1, s)
     else do {
       (complete, left, offset, s) \<leftarrow> fat_write_loop dv i buf count offset s;
       if \<not> complete then Some (count - left, s)
       else do {
         n \<leftarrow> the_node i s;
         Some (count, if fd_size (fn_dirent n) < offset
                      then upd_dirent i (\<lambda>d. d\<lparr>fd_size := offset\<rparr>) s else s)
       }
     }
   }"


section \<open>Creating and truncating\<close>

text \<open>\<open>d0\<close> is the uninitialised local \<open>dirent\<close>.\<close>

definition createFile ::
    "'d block_device \<Rightarrow> bool \<Rightarrow> bool option \<Rightarrow> FatDirEntry \<Rightarrow> nat \<Rightarrow> bytes \<Rightarrow> 'd fat_state \<Rightarrow>
     (nat option \<times> 'd fat_state) option" where
  "createFile dv sc mal d0 parent name s = do {
     (rc, d) \<leftarrow> FatASCIIZToDirEntry sc d0 name;
     if rc \<noteq> 0 then Some (None, s)
     else do {
       let d = d\<lparr>fd_attributes := 0, fd_reserved := 0, fd_first_cluster_hi := 0,
                 fd_first_cluster_lo := 0, fd_size := 0\<rparr>;
       let d = SetFirstCluster CLUSTER_EOC (fsb s) d;
       (status, pos, s) \<leftarrow> FatCreateDirEntry dv parent d s;
       if status \<noteq> 1 then Some (None, s)
       else (case AllocNode mal d (fst pos) (snd pos) s of
          (Some i, s) \<Rightarrow> do { (rc, s) \<leftarrow> FlushDirent dv parent s; Some (Some i, s) }
        | (None, s) \<Rightarrow> do { s \<leftarrow> FatDeleteDirEntry dv (fst pos) (snd pos) s; Some (None, s) })
     }
   }"

text \<open>The node after its clusters were freed.\<close>

definition cut_node ::
    "'d block_device \<Rightarrow> nat \<Rightarrow> (FatDirEntry \<Rightarrow> FatDirEntry) \<Rightarrow> 'd fat_state \<Rightarrow> (int \<times> 'd fat_state) option" where
  "cut_node dv i f s =
     FlushDirent dv i
       (upd_node i (\<lambda>n. n\<lparr>fn_hint_cluster := 0, fn_hint_offset := 0\<rparr>) (upd_dirent i f s))"

definition truncateFile ::
    "'d block_device \<Rightarrow> nat \<Rightarrow> u32 \<Rightarrow> 'd fat_state \<Rightarrow> (int \<times> 'd fat_state) option" where
  "truncateFile dv i sz s = do {
     n \<leftarrow> the_node i s;
     if sz = 0 then do {
       s \<leftarrow> FreeClusters dv (GetFirstCluster (fn_dirent n) (fsb s)) s;
       cut_node dv i (\<lambda>d. (SetFirstCluster CLUSTER_EOC (fsb s) d)\<lparr>fd_size := 0\<rparr>) s
     } else do {
       (r, s) \<leftarrow> FindCluster dv i sz s;
       (case r of
          None \<Rightarrow> Some (0, s)
        | Some cluster \<Rightarrow>
            if sz mod cluster_bytes s = 0 then do {
              (r, s) \<leftarrow> FindCluster dv i (sz - 1) s;
              (case r of
                 None \<Rightarrow> Some (0, s)
               | Some cluster \<Rightarrow> do {
                   s \<leftarrow> FreeClusters dv cluster s;
                   cut_node dv i (\<lambda>d. d\<lparr>fd_size := sz\<rparr>) s
                 })
            } else do {
              s \<leftarrow> FreeClusters dv cluster s;
              cut_node dv i (\<lambda>d. d\<lparr>fd_size := sz\<rparr>) s
            })
     }
   }"

definition extendFile :: "'d block_device \<Rightarrow> nat \<Rightarrow> u32 \<Rightarrow> 'd fat_state \<Rightarrow> (u32 \<times> 'd fat_state) option" where
  "extendFile dv i len s = writeFile dv i [] 0 len s"

end
