(* ===== verification/FatMain.thy ===== *)
theory FatMain
  imports FatNode FatFile Ipc
begin

text \<open>
  main.c of fatfs: the request handlers and the dispatch of the main loop. A handler gives the
  messages it sends and the new state; None is a handler with no defined result.
\<close>

type_synonym 'd fat_result = "(ipc_out list \<times> 'd fat_state) option"

text \<open>
  What a request meets outside the handler: the result of \<open>writemsg\<close>, of \<open>malloc\<close> (with the old
  contents of the byte that \<open>AllocNode\<close> leaves unset), the contents of the stack where the locals
  \<open>name\<close>, \<open>dirent\<close>, \<open>dot\<close>, \<open>dotdot\<close> and \<open>reply.args.readdir.nbytes_read\<close> lie, the offset of
  \<open>d_name\<close> in \<open>struct dirent\<close>, and whether \<open>char\<close> is signed.
\<close>

record fat_world =
  fw_writemsg :: "nat \<Rightarrow> int"
  fw_malloc :: "bool option"
  fw_stack :: "nat \<Rightarrow> byte"
  fw_dirent :: FatDirEntry
  fw_dot :: FatDirEntry
  fw_dotdot :: FatDirEntry
  fw_nbytes_read :: nat
  fw_name_offset :: nat
  fw_signed_char :: bool


section \<open>Lookup, close and create\<close>

definition node_reply :: "FatNode \<Rightarrow> 'd fat_state \<Rightarrow> node_info" where
  "node_reply n s = \<lparr>ni_inode_nr = uint (fn_inode_nr n), ni_size = uint (fd_size (fn_dirent n)),
     ni_mode = (if and (fd_attributes (fn_dirent n)) ATTR_DIRECTORY \<noteq> 0
                then or S_IRWXUGO S_IFDIR else S_IRWXUGO),
     ni_uid = fat_uid s, ni_gid = fat_gid s\<rparr>"

definition fatLookup ::
    "'d block_device \<Rightarrow> fat_world \<Rightarrow> u32 \<Rightarrow> nat \<Rightarrow> bytes \<Rightarrow> 'd fat_state \<Rightarrow> 'd fat_result" where
  "fatLookup dv w dir_nr name_sz payload s = do {
     name \<leftarrow> read_name (fw_stack w) name_sz payload;
     (r, s) \<leftarrow> FindNode dir_nr s;
     (case r of
        None \<Rightarrow> Some ([ReplyMsg (- 1) JunkBody], s)
      | Some dirnode \<Rightarrow> do {
          (rc, r, s) \<leftarrow> lookup dv (fw_malloc w) dirnode name s;
          if rc = 0 then do {
            i \<leftarrow> r;
            n \<leftarrow> the_node i s;
            Some ([ReplyMsg 0 (NodeBody (node_reply n s))], s)
          }
          else Some ([ReplyMsg (- ENOENT) NoBody], s)
        })
   }"

definition fatClose :: "'d fat_state \<Rightarrow> 'd fat_result" where
  "fatClose s = Some ([ReplyMsg 0 NoBody], s)"

definition fatCreate :: "'d fat_state \<Rightarrow> 'd fat_result" where
  "fatCreate s = Some ([ReplyMsg (- ENOTSUP) NoBody], s)"


section \<open>Reading and writing\<close>

text \<open>The bytes read are sent only when there are more than one.\<close>

definition fatRead ::
    "'d block_device \<Rightarrow> fat_world \<Rightarrow> u32 \<Rightarrow> u32 \<Rightarrow> u32 \<Rightarrow> 'd fat_state \<Rightarrow> 'd fat_result" where
  "fatRead dv w inode_nr offset sz s = do {
     (r, s) \<leftarrow> FindNode inode_nr s;
     (case r of
        None \<Rightarrow> Some ([ReplyMsg (- EINVAL) NoBody], s)
      | Some i \<Rightarrow> do {
          (bs, s) \<leftarrow> readFile dv i (if 0x10000 < sz then 0x10000 else sz) offset s;
          Some (if 1 < length bs
                then [WriteBytes bs 0, ReplyMsg (fw_writemsg w (length bs)) NoBody]
                else [ReplyMsg (int (length bs)) NoBody], s)
        })
   }"

text \<open>The message is read into the 512 bytes of \<open>write_buf\<close>; more than that has no result.\<close>

definition fatWrite ::
    "'d block_device \<Rightarrow> u32 \<Rightarrow> u32 \<Rightarrow> u32 \<Rightarrow> bytes \<Rightarrow> 'd fat_state \<Rightarrow> 'd fat_result" where
  "fatWrite dv inode_nr offset sz payload s = do {
     (r, s) \<leftarrow> FindNode inode_nr s;
     (case r of
        None \<Rightarrow> Some ([ReplyMsg (- EINVAL) NoBody], s)
      | Some i \<Rightarrow> do {
          buf \<leftarrow> readmsg_into (write_buf s) (unat sz) payload;
          (n, s) \<leftarrow> writeFile dv i buf sz offset (s\<lparr>write_buf := buf\<rparr>);
          Some ([ReplyMsg (sint n) NoBody], s)
        })
   }"


section \<open>Directories\<close>

definition fat_dirent :: "nat \<Rightarrow> FatDirEntry \<Rightarrow> u32 \<Rightarrow> dirent" where
  "fat_dirent dno d cookie = \<lparr>d_name = FatDirEntryToASCIIZ d,
     d_ino = uint (or (push_bit 16 (ucast (fd_first_cluster_hi d))) (ucast (fd_first_cluster_lo d)) :: u32),
     d_cookie = sint cookie,
     d_reclen = ALIGN_UP (dno + length (FatDirEntryToASCIIZ d) + 1) 16\<rparr>"

text \<open>
  The loop of \<open>fatReadDir\<close>, with the size and the records packed so far; a record that does not fit
  the 4096 bytes of \<open>dirents_buf\<close> has no result.
\<close>

partial_function (option) fat_readdir_loop ::
    "'d block_device \<Rightarrow> nat \<Rightarrow> nat \<Rightarrow> u32 \<Rightarrow> nat \<Rightarrow> dirent list \<Rightarrow> 'd fat_state \<Rightarrow>
     (nat \<times> u32 \<times> dirent list \<times> 'd fat_state) option" where
  "fat_readdir_loop dv dno i cookie sz acc s =
     (if sz < DIRENTS_BUF_SZ - 64 then do {
        (rc, r, s) \<leftarrow> fat_dir_read dv i cookie s;
        (case r of
           None \<Rightarrow> Some (sz, cookie, acc, s)
         | Some (d, _, _) \<Rightarrow>
             if fd_name d ! 0 = DIRENTRY_FREE \<or> fd_name d ! 0 = DIRENTRY_DELETED \<or>
                and (fd_attributes d) ATTR_VOLUME_ID \<noteq> 0
             then fat_readdir_loop dv dno i (cookie + 1) sz acc s
             else if DIRENTS_BUF_SZ < sz + d_reclen (fat_dirent dno d cookie) then None
             else fat_readdir_loop dv dno i (cookie + 1) (sz + d_reclen (fat_dirent dno d cookie))
                    (acc @ [fat_dirent dno d cookie]) s)
      } else Some (sz, cookie, acc, s))"

text \<open>
  \<open>fatReadDir\<close>: the number of bytes handed to \<open>writemsg\<close> is a field of \<open>reply\<close> that was never set.
  A null node has no result.
\<close>

definition fatReadDir ::
    "'d block_device \<Rightarrow> fat_world \<Rightarrow> u32 \<Rightarrow> u32 \<Rightarrow> 'd fat_state \<Rightarrow> 'd fat_result" where
  "fatReadDir dv w inode_nr offset s = do {
     (r, s) \<leftarrow> FindNode inode_nr s;
     i \<leftarrow> r;
     (sz, cookie, ds, s) \<leftarrow> fat_readdir_loop dv (fw_name_offset w) i offset 0 [] s;
     if DIRENTS_BUF_SZ < fw_nbytes_read w then None
     else Some ([WriteDirents ds (int (fw_nbytes_read w)),
                 ReplyMsg (int sz) (ReaddirBody (sint cookie))], s)
   }"

definition fatMkNod :: "'d fat_state \<Rightarrow> 'd fat_result" where
  "fatMkNod s = Some ([ReplyMsg (- ENOTSUP) NoBody], s)"

definition fatRename :: "'d fat_state \<Rightarrow> 'd fat_result" where
  "fatRename s = Some ([ReplyMsg (- ENOTSUP) NoBody], s)"

text \<open>\<open>fatTruncate\<close>, which the main loop never calls; a null node has no result.\<close>

definition fatTruncate :: "'d block_device \<Rightarrow> u32 \<Rightarrow> u32 \<Rightarrow> 'd fat_state \<Rightarrow> 'd fat_result" where
  "fatTruncate dv inode_nr sz s = do {
     (r, s) \<leftarrow> FindNode inode_nr s;
     i \<leftarrow> r;
     n \<leftarrow> the_node i s;
     (status, s) \<leftarrow>
       (if sz = fd_size (fn_dirent n) then Some (0, s)
        else if sint sz < 0 then Some (- EINVAL, s)
        else if sz < fd_size (fn_dirent n) then truncateFile dv i sz s
        else do { (n, s) \<leftarrow> extendFile dv i sz s; Some (sint n, s) });
     Some ([ReplyMsg status NoBody], s)
   }"

text \<open>
  The entries . and .. that \<open>fatMkDir\<close> makes, over the uninitialised locals \<open>dot\<close> and \<open>dotdot\<close>.
\<close>

definition dots_entry :: "bytes \<Rightarrow> u32 \<Rightarrow> FatSB \<Rightarrow> FatDirEntry \<Rightarrow> FatDirEntry" where
  "dots_entry name cluster sb d =
     (SetFirstCluster cluster sb (d\<lparr>fd_attributes := ATTR_DIRECTORY, fd_reserved := 0,
        fd_first_cluster_hi := 0, fd_first_cluster_lo := 0, fd_size := 0\<rparr>))
     \<lparr>fd_name := name, fd_extension := replicate 3 0x20\<rparr>"

text \<open>What \<open>fatMkDir\<close> does with the new node: whether both entries were made.\<close>

definition make_dots ::
    "'d block_device \<Rightarrow> fat_world \<Rightarrow> nat \<Rightarrow> nat \<Rightarrow> 'd fat_state \<Rightarrow> (bool \<times> 'd fat_state) option" where
  "make_dots dv w parent i s = do {
     n \<leftarrow> the_node i s;
     p \<leftarrow> the_node parent s;
     let dot = dots_entry (0x2E # replicate 7 0x20) (GetFirstCluster (fn_dirent n) (fsb s)) (fsb s) (fw_dot w);
     let dotdot = dots_entry (0x2E # 0x2E # replicate 6 0x20)
           (if parent = ROOT_NODE then 0 else GetFirstCluster (fn_dirent p) (fsb s)) (fsb s) (fw_dotdot w);
     (st1, pos1, s) \<leftarrow> FatCreateDirEntry dv i dot s;
     if st1 \<noteq> 1 then Some (False, s)
     else do {
       (st2, pos2, s) \<leftarrow> FatCreateDirEntry dv i dotdot s;
       Some (st2 = 1, s)
     }
   }"

text \<open>\<open>fatMkDir\<close>: the status is -EINVAL when the directory was made, and 0 when it was not.\<close>

definition fatMkDir ::
    "'d block_device \<Rightarrow> fat_world \<Rightarrow> u32 \<Rightarrow> nat \<Rightarrow> bytes \<Rightarrow> 'd fat_state \<Rightarrow> 'd fat_result" where
  "fatMkDir dv w dir_nr name_sz payload s = do {
     name \<leftarrow> read_name (fw_stack w) name_sz payload;
     (r, s) \<leftarrow> FindNode dir_nr s;
     (rc, d) \<leftarrow> FatASCIIZToDirEntry (fw_signed_char w) (fw_dirent w) name;
     if rc \<noteq> 0 then Some ([ReplyMsg (- EINVAL) NoBody], s)
     else do {
       let d = SetFirstCluster CLUSTER_EOC (fsb s)
                 (d\<lparr>fd_attributes := ATTR_DIRECTORY, fd_reserved := 0, fd_size := 0\<rparr>);
       parent \<leftarrow> r;
       (status, (sector, sector_offset), s) \<leftarrow> FatCreateDirEntry dv parent d s;
       if status \<noteq> 1 then Some ([ReplyMsg 0 NoBody], s)
       else (case AllocNode (fw_malloc w) d sector sector_offset s of
          (None, s) \<Rightarrow> do {
            s \<leftarrow> FatDeleteDirEntry dv sector sector_offset s;
            Some ([ReplyMsg 0 NoBody], s)
          }
        | (Some i, s) \<Rightarrow> do {
            (made, s) \<leftarrow> make_dots dv w parent i s;
            if made then do {
              (rc, s) \<leftarrow> FlushDirent dv parent s;
              Some ([ReplyMsg (- EINVAL) NoBody], s)
            } else do {
              n \<leftarrow> the_node i s;
              s \<leftarrow> FreeClusters dv (GetFirstCluster (fn_dirent n) (fsb s)) s;
              s \<leftarrow> FreeNode i s;
              s \<leftarrow> FatDeleteDirEntry dv sector sector_offset s;
              Some ([ReplyMsg 0 NoBody], s)
            }
          })
     }
   }"


section \<open>Removing\<close>

text \<open>What \<open>fatUnlink\<close> and \<open>fatRmDir\<close> do to remove a node.\<close>

definition remove_node ::
    "'d block_device \<Rightarrow> nat \<Rightarrow> nat \<Rightarrow> 'd fat_state \<Rightarrow> 'd fat_state option" where
  "remove_node dv parent i s = do {
     n \<leftarrow> the_node i s;
     s \<leftarrow> FreeClusters dv (GetFirstCluster (fn_dirent n) (fsb s)) s;
     let s = upd_dirent i (\<lambda>d. d\<lparr>fd_name := (fd_name d)[0 := DIRENTRY_DELETED]\<rparr>) s;
     (rc, s) \<leftarrow> FlushDirent dv parent s;
     (rc, s) \<leftarrow> FlushDirent dv i s;
     FreeNode i s
   }"

text \<open>The lookup that both start with: the handler's early replies, or the parent and the node.\<close>

definition find_entry ::
    "'d block_device \<Rightarrow> fat_world \<Rightarrow> u32 \<Rightarrow> nat \<Rightarrow> bytes \<Rightarrow> 'd fat_state \<Rightarrow>
     ((int + nat \<times> nat) \<times> 'd fat_state) option" where
  "find_entry dv w dir_nr name_sz payload s = do {
     (r, s) \<leftarrow> FindNode dir_nr s;
     (case r of
        None \<Rightarrow> Some (Inl (- EINVAL), s)
      | Some parent \<Rightarrow> do {
          name \<leftarrow> read_name (fw_stack w) name_sz payload;
          (rc, r, s) \<leftarrow> lookup dv (fw_malloc w) parent name s;
          if rc \<noteq> 0 then Some (Inl (- ENOENT), s)
          else do { i \<leftarrow> r; Some (Inr (parent, i), s) }
        })
   }"

definition fatUnlink ::
    "'d block_device \<Rightarrow> fat_world \<Rightarrow> u32 \<Rightarrow> nat \<Rightarrow> bytes \<Rightarrow> 'd fat_state \<Rightarrow> 'd fat_result" where
  "fatUnlink dv w dir_nr name_sz payload s = do {
     (r, s) \<leftarrow> find_entry dv w dir_nr name_sz payload s;
     (case r of
        Inl status \<Rightarrow> Some ([ReplyMsg status NoBody], s)
      | Inr (parent, i) \<Rightarrow> do {
          n \<leftarrow> the_node i s;
          if and (fd_attributes (fn_dirent n)) ATTR_DIRECTORY = 0 \<and> fn_reference_cnt n = 1 then do {
            s \<leftarrow> remove_node dv parent i s;
            Some ([ReplyMsg 0 NoBody], s)
          } else do {
            s \<leftarrow> FreeNode i s;
            Some ([ReplyMsg (if and (fd_attributes (fn_dirent n)) ATTR_DIRECTORY = 0
                             then - EBUSY else - EISDIR) NoBody], s)
          }
        })
   }"

text \<open>\<open>fatRmDir\<close>: the status is -EINVAL when the directory was removed.\<close>

definition fatRmDir ::
    "'d block_device \<Rightarrow> fat_world \<Rightarrow> u32 \<Rightarrow> nat \<Rightarrow> bytes \<Rightarrow> 'd fat_state \<Rightarrow> 'd fat_result" where
  "fatRmDir dv w dir_nr name_sz payload s = do {
     (r, s) \<leftarrow> find_entry dv w dir_nr name_sz payload s;
     (case r of
        Inl status \<Rightarrow> Some ([ReplyMsg status NoBody], s)
      | Inr (parent, i) \<Rightarrow> do {
          n \<leftarrow> the_node i s;
          (status, s) \<leftarrow>
            (if i = ROOT_NODE then Some (- EINVAL, s)
             else if and (fd_attributes (fn_dirent n)) ATTR_DIRECTORY = 0 then Some (- ENOTDIR, s)
             else if fn_reference_cnt n \<noteq> 1 then Some (- EBUSY, s)
             else do {
               (empty, s) \<leftarrow> IsDirEmpty dv i s;
               Some (if empty = 0 then 0 else - EEXIST, s)
             });
          s \<leftarrow> (if status = 0 then remove_node dv parent i s else FreeNode i s);
          Some ([ReplyMsg (if status = 0 then - EINVAL else status) NoBody], s)
        })
   }"


section \<open>Dispatch\<close>

text \<open>
  A request with the fields its handler reads. \<open>FatCreateReq\<close> carries the fields of a read request,
  which lie in the same union: the case for it has no \<open>break\<close>.
\<close>

datatype fat_req =
    FatLookupReq u32 nat bytes
  | FatCloseReq
  | FatCreateReq u32 u32 u32
  | FatReadReq u32 u32 u32
  | FatWriteReq u32 u32 u32 bytes
  | FatReadDirReq u32 u32
  | FatUnlinkReq u32 nat bytes
  | FatRmDirReq u32 nat bytes
  | FatMkDirReq u32 nat bytes
  | FatMkNodReq
  | FatRenameReq
  | FatOtherReq

fun fat_step :: "'d block_device \<Rightarrow> fat_world \<Rightarrow> fat_req \<Rightarrow> 'd fat_state \<Rightarrow> 'd fat_result" where
  "fat_step dv w (FatLookupReq d n p) s = fatLookup dv w d n p s"
| "fat_step dv w FatCloseReq s = fatClose s"
| "fat_step dv w (FatCreateReq ino off n) s = do {
     (out, s) \<leftarrow> fatCreate s;
     (out', s) \<leftarrow> fatRead dv w ino off n s;
     Some (out @ out', s)
   }"
| "fat_step dv w (FatReadReq ino off n) s = fatRead dv w ino off n s"
| "fat_step dv w (FatWriteReq ino off n p) s = fatWrite dv ino off n p s"
| "fat_step dv w (FatReadDirReq ino off) s = fatReadDir dv w ino off s"
| "fat_step dv w (FatUnlinkReq d n p) s = fatUnlink dv w d n p s"
| "fat_step dv w (FatRmDirReq d n p) s = fatRmDir dv w d n p s"
| "fat_step dv w (FatMkDirReq d n p) s = fatMkDir dv w d n p s"
| "fat_step dv w FatMkNodReq s = fatMkNod s"
| "fat_step dv w FatRenameReq s = fatRename s"
| "fat_step dv w FatOtherReq s = None"

end
