(* ===== verification/Disk.thy ===== *)
theory Disk
  imports Prelude
begin

text \<open>
  A store of bytes read and written through sectors, as an interface: the sector cache of fatfs
  keeps it for the whole device, \<open>readSector\<close> and \<open>writeSector\<close> for a partition, and the file
  allocation table, the directories and the files are proved over it.
\<close>

section \<open>Bytes by address\<close>

definition rd_bytes :: "nat \<Rightarrow> nat \<Rightarrow> (nat \<Rightarrow> byte) \<Rightarrow> bytes" where
  "rd_bytes a n f = map f [a..<a + n]"

definition wr_bytes :: "nat \<Rightarrow> bytes \<Rightarrow> (nat \<Rightarrow> byte) \<Rightarrow> nat \<Rightarrow> byte" where
  "wr_bytes a xs f i = (if a \<le> i \<and> i < a + length xs then xs ! (i - a) else f i)"

lemma length_rd_bytes [buf_simps, simp]: "length (rd_bytes a n f) = n"
  by (simp add: rd_bytes_def)

lemma nth_rd_bytes [buf_simps, simp]: "i < n \<Longrightarrow> rd_bytes a n f ! i = f (a + i)"
  by (simp add: rd_bytes_def)

lemma rd_bytes_cong: "(\<And>i. a \<le> i \<Longrightarrow> i < a + n \<Longrightarrow> f i = g i) \<Longrightarrow> rd_bytes a n f = rd_bytes a n g"
  by (simp add: rd_bytes_def)

lemma rd_bytes_append: "rd_bytes a m f @ rd_bytes (a + m) n f = rd_bytes a (m + n) f"
  using upt_add_eq_append [of a "a + m" n] by (simp add: rd_bytes_def add.assoc)

lemma rd_bytes_0 [simp]: "rd_bytes a 0 f = []"
  by (simp add: rd_bytes_def)

lemma wr_bytes_Nil [simp]: "wr_bytes a [] f = f"
  by (rule ext) (auto simp: wr_bytes_def)

lemma wr_bytes_append: "wr_bytes (a + length xs) ys (wr_bytes a xs f) = wr_bytes a (xs @ ys) f"
  by (auto simp: wr_bytes_def fun_eq_iff nth_append diff_diff_left)

lemma rd_wr_same [simp]: "n = length xs \<Longrightarrow> rd_bytes a n (wr_bytes a xs f) = xs"
  by (intro nth_equalityI) (simp_all add: wr_bytes_def)

lemma rd_wr_other:
  "b + n \<le> a \<or> a + length xs \<le> b \<Longrightarrow> rd_bytes b n (wr_bytes a xs f) = rd_bytes b n f"
  by (intro rd_bytes_cong) (auto simp: wr_bytes_def)

lemma wr_bytes_other: "i < a \<or> a + length xs \<le> i \<Longrightarrow> wr_bytes a xs f i = f i"
  by (auto simp: wr_bytes_def)

lemma wr_bytes_rd [simp]: "wr_bytes a (rd_bytes a n f) f = f"
  by (auto simp: wr_bytes_def fun_eq_iff)


section \<open>The interface\<close>

text \<open>
  \<open>content\<close> is the abstract store of \<open>cap\<close> bytes, \<open>rest\<close> what reading and writing leave alone; a
  position is a sector and an offset in it, and null data stands for zeros.
\<close>

definition pos_of :: "u32 \<Rightarrow> u32 \<Rightarrow> nat" where
  "pos_of sector off = unat sector * 512 + unat off"

definition src_bytes :: "bytes option \<Rightarrow> nat \<Rightarrow> bytes" where
  "src_bytes mem n = (case mem of None \<Rightarrow> replicate n 0 | Some bs \<Rightarrow> take n bs)"

definition src_fits :: "bytes option \<Rightarrow> nat \<Rightarrow> bool" where
  "src_fits mem n \<longleftrightarrow> (case mem of None \<Rightarrow> True | Some bs \<Rightarrow> n \<le> length bs)"

lemma length_src_bytes [simp]: "src_fits mem n \<Longrightarrow> length (src_bytes mem n) = n"
  by (auto simp: src_bytes_def src_fits_def split: option.splits)

lemma src_simps [simp]:
  "src_bytes (Some bs) n = take n bs" "src_bytes None n = replicate n 0"
  "src_fits (Some bs) n \<longleftrightarrow> n \<le> length bs" "src_fits None n"
  by (simp_all add: src_bytes_def src_fits_def)

lemma src_bytes_0 [simp]: "src_bytes mem 0 = []"
  by (cases mem) simp_all

locale byte_store =
  fixes ok :: "'s \<Rightarrow> bool"
    and content :: "'s \<Rightarrow> nat \<Rightarrow> byte"
    and cap :: nat
    and rest :: "'s \<Rightarrow> 'r"
    and rd :: "u32 \<Rightarrow> u32 \<Rightarrow> u32 \<Rightarrow> 's \<Rightarrow> (int \<times> bytes \<times> 's) option"
    and wr :: "bytes option \<Rightarrow> u32 \<Rightarrow> u32 \<Rightarrow> u32 \<Rightarrow> 's \<Rightarrow> (int \<times> 's) option"
  assumes rd_ok: "ok s \<Longrightarrow> off < 512 \<Longrightarrow> pos_of sector off + unat n \<le> cap \<Longrightarrow>
      \<exists>s'. rd sector off n s = Some (0, rd_bytes (pos_of sector off) (unat n) (content s), s') \<and>
        ok s' \<and> content s' = content s \<and> rest s' = rest s"
    and wr_ok: "ok s \<Longrightarrow> off < 512 \<Longrightarrow> pos_of sector off + unat n \<le> cap \<Longrightarrow> src_fits mem (unat n) \<Longrightarrow>
      \<exists>s'. wr mem sector off n s = Some (0, s') \<and> ok s' \<and>
        content s' = wr_bytes (pos_of sector off) (src_bytes mem (unat n)) (content s) \<and> rest s' = rest s"
begin

text \<open>A read delivers what was last written there, and writes elsewhere do not matter.\<close>

theorem write_read_same:
  assumes "ok s" and "off < 512" and "pos_of sector off + unat n \<le> cap" and "length bs = unat n"
  obtains s' s'' where "wr (Some bs) sector off n s = Some (0, s')"
    "rd sector off n s' = Some (0, bs, s'')" "ok s''" "content s'' = content s'"
proof -
  from wr_ok [OF assms(1-3), of "Some bs"] assms(4) obtain s' where
    w: "wr (Some bs) sector off n s = Some (0, s')" "ok s'"
    "content s' = wr_bytes (pos_of sector off) bs (content s)" by auto
  from rd_ok [OF w(2) assms(2,3)] obtain s'' where
    "rd sector off n s' = Some (0, rd_bytes (pos_of sector off) (unat n) (content s'), s'')"
    "ok s''" "content s'' = content s'" by auto
  with w assms(4) that show ?thesis by simp
qed

theorem write_read_other:
  assumes "ok s" and "off < 512" and "pos_of sector off + unat n \<le> cap" and "src_fits mem (unat n)"
    and "off' < 512" and "pos_of sector' off' + unat n' \<le> cap"
    and "pos_of sector off + unat n \<le> pos_of sector' off' \<or> pos_of sector' off' + unat n' \<le> pos_of sector off"
  obtains s' s'' where "wr mem sector off n s = Some (0, s')"
    "rd sector' off' n' s' = Some (0, rd_bytes (pos_of sector' off') (unat n') (content s), s'')"
proof -
  from wr_ok [OF assms(1-4)] obtain s' where w: "wr mem sector off n s = Some (0, s')" "ok s'"
    "content s' = wr_bytes (pos_of sector off) (src_bytes mem (unat n)) (content s)" by auto
  from rd_ok [OF w(2) assms(5,6)] obtain s'' where
    "rd sector' off' n' s' = Some (0, rd_bytes (pos_of sector' off') (unat n') (content s'), s'')"
    by auto
  moreover have "rd_bytes (pos_of sector' off') (unat n') (content s') =
      rd_bytes (pos_of sector' off') (unat n') (content s)"
    unfolding w(3) using assms(4,7) by (intro rd_wr_other) auto
  ultimately show ?thesis using w(1) that by simp
qed

end

end
