(* ===== verification/FatCache.thy ===== *)
theory FatCache
  imports FatTypes Disk
begin

text \<open>
  What the sector cache of fatfs promises: the invariant of its lists, the bytes a cache stands for,
  and that reading and writing through it refine a plain store of bytes.
\<close>

section \<open>The invariant\<close>

definition lists_ok :: "'d fat_cache \<Rightarrow> bool" where
  "lists_ok c \<longleftrightarrow>
     0 < length (blk_table c) \<and> length (hash_list c) = 64 \<and>
     distinct (lru_list c) \<and> distinct (free_list c) \<and> set (lru_list c) \<inter> set (free_list c) = {} \<and>
     set (lru_list c) \<union> set (free_list c) = {..<length (blk_table c)} \<and>
     inj_on (\<lambda>i. bk_sector (the_blk i c)) (set (lru_list c)) \<and>
     (\<forall>h < 64. distinct (hash_list c ! h) \<and>
        set (hash_list c ! h) = {i \<in> set (lru_list c). blk_hash (bk_sector (the_blk i c)) = h}) \<and>
     distinct (dirty_list c) \<and> set (dirty_list c) = {i \<in> set (lru_list c). bk_dirty (the_blk i c)}"

definition data_ok :: "'d block_device \<Rightarrow> nat \<Rightarrow> 'd fat_cache \<Rightarrow> bool" where
  "data_ok dv cap c \<longleftrightarrow>
     blk_size c = 512 \<and> (\<forall>b \<in> set (blk_table c). length (bk_mem b) = 512) \<and>
     (\<forall>i \<in> set (lru_list c). 0 \<le> bk_sector (the_blk i c) \<and> bk_sector (the_blk i c) < int cap \<and>
        (\<not> bk_dirty (the_blk i c) \<longrightarrow>
           bk_mem (the_blk i c) = dv_read dv (media c) (nat (bk_sector (the_blk i c)) * 512)))"

definition cache_ok :: "'d block_device \<Rightarrow> nat \<Rightarrow> 'd fat_cache \<Rightarrow> bool" where
  "cache_ok dv cap c \<longleftrightarrow> device_contract dv cap \<and> lists_ok c \<and> data_ok dv cap c"

text \<open>The bytes of a sector as the cache gives them.\<close>

definition sector_bytes :: "'d block_device \<Rightarrow> 'd fat_cache \<Rightarrow> nat \<Rightarrow> bytes" where
  "sector_bytes dv c n =
     (case find (\<lambda>i. bk_sector (the_blk i c) = int n) (lru_list c) of
        Some i \<Rightarrow> bk_mem (the_blk i c)
      | None \<Rightarrow> dv_read dv (media c) (n * 512))"

text \<open>The device holds every byte that was written.\<close>

definition device_current :: "'d block_device \<Rightarrow> nat \<Rightarrow> 'd fat_cache \<Rightarrow> bool" where
  "device_current dv cap c \<longleftrightarrow> (\<forall>n < cap. dv_read dv (media c) (n * 512) = sector_bytes dv c n)"

lemma find_SomeD: "find P xs = Some x \<Longrightarrow> x \<in> set xs \<and> P x"
  by (induction xs) (auto split: if_splits)

lemma find_unique:
  assumes "i \<in> set xs" and "P i" and unique: "\<And>j. j \<in> set xs \<Longrightarrow> P j \<Longrightarrow> j = i"
  shows "find P xs = Some i"
proof (cases "find P xs")
  case None
  with assms(1,2) show ?thesis by (metis find_None_iff)
next
  case (Some j)
  then have "j \<in> set xs" "P j" by (auto dest: find_SomeD)
  with Some unique show ?thesis by simp
qed

lemma sector_bytes_cached:
  assumes "lists_ok c" and "i \<in> set (lru_list c)" and "bk_sector (the_blk i c) = int n"
  shows "sector_bytes dv c n = bk_mem (the_blk i c)"
proof -
  have "find (\<lambda>i. bk_sector (the_blk i c) = int n) (lru_list c) = Some i"
    using assms by (intro find_unique) (auto simp: lists_ok_def inj_on_def)
  then show ?thesis by (simp add: sector_bytes_def)
qed

lemma sector_bytes_device:
  "(\<And>i. i \<in> set (lru_list c) \<Longrightarrow> bk_sector (the_blk i c) \<noteq> int n) \<Longrightarrow>
   sector_bytes dv c n = dv_read dv (media c) (n * 512)"
  using find_None_iff [of "\<lambda>i. bk_sector (the_blk i c) = int n" "lru_list c"]
  by (simp add: sector_bytes_def)

lemma length_mem:
  "data_ok dv cap c \<Longrightarrow> i < length (blk_table c) \<Longrightarrow> length (bk_mem (the_blk i c)) = 512"
  by (simp add: data_ok_def the_blk_def)

lemma lru_bound: "lists_ok c \<Longrightarrow> i \<in> set (lru_list c) \<Longrightarrow> i < length (blk_table c)"
  by (auto simp: lists_ok_def)

lemma length_sector_bytes:
  assumes "cache_ok dv cap c" and "n < cap"
  shows "length (sector_bytes dv c n) = 512"
proof (cases "\<exists>i \<in> set (lru_list c). bk_sector (the_blk i c) = int n")
  case True
  then obtain i where "i \<in> set (lru_list c)" "bk_sector (the_blk i c) = int n" by blast
  with assms show ?thesis
    using sector_bytes_cached [of c i n dv] length_mem [of dv cap c i] lru_bound [of c i]
    by (simp add: cache_ok_def)
next
  case False
  then have "sector_bytes dv c n = dv_read dv (media c) (n * 512)" by (intro sector_bytes_device) auto
  with assms show ?thesis by (simp add: cache_ok_def device_contract_def)
qed

text \<open>A change of the order of the LRU list is invisible.\<close>

lemma lists_ok_lru:
  assumes "lists_ok c" and "set l = set (lru_list c)" and "distinct l"
  shows "lists_ok (c\<lparr>lru_list := l\<rparr>)"
  using assms unfolding lists_ok_def by (simp add: the_blk_def)

lemma cache_ok_lru:
  "cache_ok dv cap c \<Longrightarrow> set l = set (lru_list c) \<Longrightarrow> distinct l \<Longrightarrow> cache_ok dv cap (c\<lparr>lru_list := l\<rparr>)"
  using lists_ok_lru [of c l] by (auto simp: cache_ok_def data_ok_def the_blk_def)

lemma sector_bytes_cong:
  assumes "lists_ok c" and "lists_ok c'"
    and "set (lru_list c') = set (lru_list c)" and "blk_table c' = blk_table c" and "media c' = media c"
  shows "sector_bytes dv c' n = sector_bytes dv c n"
proof (cases "\<exists>i \<in> set (lru_list c). bk_sector (the_blk i c) = int n")
  case True
  then obtain i where i: "i \<in> set (lru_list c)" "bk_sector (the_blk i c) = int n" by blast
  then have "i \<in> set (lru_list c')" "bk_sector (the_blk i c') = int n"
    using assms(3,4) by (simp_all add: the_blk_def)
  with i assms show ?thesis
    using sector_bytes_cached [of c i n dv] sector_bytes_cached [of c' i n dv] by (simp add: the_blk_def)
next
  case False
  then have "sector_bytes dv c n = dv_read dv (media c) (n * 512)"
    "sector_bytes dv c' n = dv_read dv (media c') (n * 512)"
    using assms(3,4) by (auto intro!: sector_bytes_device simp: the_blk_def)
  with assms show ?thesis by simp
qed


section \<open>Getting a block\<close>

lemma chain_find:
  assumes "lists_ok c"
  shows "find (\<lambda>i. bk_sector (the_blk i c) = n) (hash_list c ! blk_hash n) =
    find (\<lambda>i. bk_sector (the_blk i c) = n) (lru_list c)" (is "find ?P ?chain = find ?P ?lru")
proof -
  have "blk_hash n < 64" by (simp add: blk_hash_def)
  with assms have chain: "set ?chain = {i \<in> set ?lru. blk_hash (bk_sector (the_blk i c)) = blk_hash n}"
    by (simp add: lists_ok_def)
  show ?thesis
  proof (cases "find ?P ?lru")
    case None
    then have "find ?P ?chain = None" unfolding find_None_iff chain by blast
    with None show ?thesis by simp
  next
    case (Some i)
    then have "i \<in> set ?lru" "?P i" using find_SomeD [OF Some] by simp_all
    note i = this
    from assms have inj: "inj_on (\<lambda>i. bk_sector (the_blk i c)) (set ?lru)"
      by (simp only: lists_ok_def)
    have "find ?P ?chain = Some i"
    proof (rule find_unique)
      show "i \<in> set ?chain" using i by (simp add: chain)
      show "?P i" by (rule i(2))
      show "j = i" if "j \<in> set ?chain" "?P j" for j
        using inj that i unfolding chain by (metis (mono_tags, lifting) inj_onD mem_Collect_eq)
    qed
    with Some show ?thesis by simp
  qed
qed

text \<open>The state after the least recently used block has been written back and freed.\<close>

lemma evict_blk_eq:
  assumes "lists_ok c" and "data_ok dv cap c" and "lru_list c \<noteq> []"
  defines "i \<equiv> last (lru_list c)"
  shows "evict_blk dv c = Some (c\<lparr>
    blk_table := (blk_table c)[i := (the_blk i c)\<lparr>bk_dirty := False, bk_in_use := False\<rparr>],
    lru_list := remove1 i (lru_list c), dirty_list := remove1 i (dirty_list c),
    free_list := i # free_list c,
    hash_list := (hash_list c)[blk_hash (bk_sector (the_blk i c)) :=
                    remove1 i (hash_list c ! blk_hash (bk_sector (the_blk i c)))],
    media := (if bk_dirty (the_blk i c)
              then dv_write dv (nat (bk_sector (the_blk i c)) * 512) (bk_mem (the_blk i c)) (media c)
              else media c)\<rparr>)"
proof -
  have i: "i \<in> set (lru_list c)" "i < length (blk_table c)"
    using assms(1,3) lru_bound [of c i] by (auto simp: i_def)
  note m = length_mem [OF assms(2) i(2)]
  from i assms(2) have s: "\<not> bk_sector (the_blk i c) < 0" by (auto simp: data_ok_def)
  show ?thesis
  proof (cases "bk_dirty (the_blk i c)")
    case True
    with i m s assms(3) show ?thesis
      by (simp add: evict_blk_def Let_def upd_blk_def upd_hash_def the_blk_def BufWriteSector_def
          flip: i_def)
  next
    case False
    with assms(1) i have "remove1 i (dirty_list c) = dirty_list c"
      by (simp add: lists_ok_def remove1_idem)
    with False i m s assms(3) show ?thesis
      by (simp add: evict_blk_def Let_def upd_blk_def upd_hash_def the_blk_def flip: i_def)
        (cases "blk_table c ! i"; cases c; simp)
  qed
qed


lemma evict_lists_ok:
  assumes "lists_ok c" and "data_ok dv cap c" and "lru_list c \<noteq> []" and "evict_blk dv c = Some c'"
  shows "lists_ok c'"
proof -
  define i where "i = last (lru_list c)"
  have i: "i \<in> set (lru_list c)" "i < length (blk_table c)"
    using assms(1,3) lru_bound [of c i] by (auto simp: i_def)
  have other: "(blk_table c)[i := x] ! j = blk_table c ! j" if "j \<noteq> i" for j x
    using that by simp
  note eq = evict_blk_eq [OF assms(1-3), folded i_def]
  have c': "lru_list c' = remove1 i (lru_list c)" "dirty_list c' = remove1 i (dirty_list c)"
    "free_list c' = i # free_list c" "length (blk_table c') = length (blk_table c)"
    "length (hash_list c') = length (hash_list c)"
    using assms(4) eq by auto
  have b: "the_blk j c' = the_blk j c" if "j \<noteq> i" for j
    using assms(4) eq that by (auto simp: the_blk_def)
  have bs: "bk_sector (the_blk j c') = bk_sector (the_blk j c)" for j
    using assms(4) eq i(2) by (cases "j = i") (auto simp: the_blk_def)
  have h: "hash_list c' ! k = (if k = blk_hash (bk_sector (the_blk i c))
      then remove1 i (hash_list c ! k) else hash_list c ! k)" if "k < length (hash_list c)" for k
    using assms(4) eq that by auto
  from assms(1) have l: "distinct (lru_list c)" by (simp add: lists_ok_def)
  have s: "set (lru_list c') = set (lru_list c) - {i}" unfolding c' using l by (rule set_remove1_eq)
  show ?thesis unfolding lists_ok_def
  proof (intro conjI allI impI)
    show "0 < length (blk_table c')" "length (hash_list c') = 64"
      using assms(1) unfolding c' by (simp_all add: lists_ok_def)
    show "distinct (lru_list c')" "distinct (free_list c')" "distinct (dirty_list c')"
      using assms(1) i unfolding c' lists_ok_def by auto
    show "set (lru_list c') \<inter> set (free_list c') = {}"
      "set (lru_list c') \<union> set (free_list c') = {..<length (blk_table c')}"
      unfolding s c' using assms(1) i by (auto simp: lists_ok_def)
    have "inj_on (\<lambda>i. bk_sector (the_blk i c)) (set (lru_list c'))"
      unfolding s using assms(1) by (auto simp: lists_ok_def intro: inj_on_subset)
    then show "inj_on (\<lambda>i. bk_sector (the_blk i c')) (set (lru_list c'))"
      using b unfolding s by (simp add: inj_on_def)
    fix k :: nat assume k: "k < 64"
    then have kl: "k < length (hash_list c)" using assms(1) by (simp add: lists_ok_def)
    from k assms(1) have ch: "distinct (hash_list c ! k)"
      "set (hash_list c ! k) = {i \<in> set (lru_list c). blk_hash (bk_sector (the_blk i c)) = k}"
      by (simp_all add: lists_ok_def)
    then show "distinct (hash_list c' ! k)" using h [OF kl] by (auto simp: distinct_remove1)
    have "i \<notin> set (hash_list c ! k)" if "k \<noteq> blk_hash (bk_sector (the_blk i c))"
      unfolding ch(2) using that by simp
    then have "set (hash_list c' ! k) = set (hash_list c ! k) - {i}"
      using ch(1) unfolding h [OF kl] by (cases "k = blk_hash (bk_sector (the_blk i c))") simp_all
    also have "\<dots> = {i \<in> set (lru_list c'). blk_hash (bk_sector (the_blk i c')) = k}"
      unfolding ch(2) s bs by blast
    finally show "set (hash_list c' ! k) =
      {i \<in> set (lru_list c'). blk_hash (bk_sector (the_blk i c')) = k}" .
  next
    have "set (dirty_list c') = set (dirty_list c) - {i}"
      unfolding c' using assms(1) by (intro set_remove1_eq) (simp add: lists_ok_def)
    moreover have "set (dirty_list c) = {i \<in> set (lru_list c). bk_dirty (the_blk i c)}"
      using assms(1) by (simp only: lists_ok_def)
    ultimately show "set (dirty_list c') = {i \<in> set (lru_list c'). bk_dirty (the_blk i c')}"
      using b unfolding s by auto
  qed
qed


lemma evict_data_ok:
  assumes "device_contract dv cap" and "lists_ok c" and "data_ok dv cap c" and "lru_list c \<noteq> []"
    and "evict_blk dv c = Some c'"
  shows "data_ok dv cap c'" and "n < cap \<Longrightarrow> sector_bytes dv c' n = sector_bytes dv c n"
    and "device_current dv cap c \<Longrightarrow> device_current dv cap c'"
proof -
  define i where "i = last (lru_list c)"
  define sec where "sec = nat (bk_sector (the_blk i c))"
  have i: "i \<in> set (lru_list c)" "i < length (blk_table c)"
    using assms(2,4) lru_bound [of c i] by (auto simp: i_def)
  note eq = evict_blk_eq [OF assms(2-4), folded i_def, folded sec_def]
  have c': "lru_list c' = remove1 i (lru_list c)" "blk_size c' = blk_size c"
    "media c' = (if bk_dirty (the_blk i c) then dv_write dv (sec * 512) (bk_mem (the_blk i c)) (media c)
                 else media c)"
    "blk_table c' = (blk_table c)[i := (the_blk i c)\<lparr>bk_dirty := False, bk_in_use := False\<rparr>]"
    using assms(5) eq by auto
  have b: "the_blk j c' = the_blk j c" if "j \<noteq> i" for j
    using that by (simp add: the_blk_def c')
  have s: "set (lru_list c') = set (lru_list c) - {i}"
    unfolding c' using assms(2) by (intro set_remove1_eq) (simp add: lists_ok_def)
  from i assms(3) have sec: "bk_sector (the_blk i c) = int sec" "sec < cap"
    by (auto simp: data_ok_def sec_def)
  have inj: "bk_sector (the_blk j c) \<noteq> int sec" if "j \<in> set (lru_list c)" "j \<noteq> i" for j
    using assms(2) i(1) that sec(1) by (auto simp: lists_ok_def inj_on_def)
  have dev: "dv_read dv (media c') (m * 512) =
      (if m = sec \<and> bk_dirty (the_blk i c) then bk_mem (the_blk i c) else dv_read dv (media c) (m * 512))"
    if "m < cap" for m
    using assms(1) sec(2) that length_mem [OF assms(3) i(2)] by (simp add: device_contract_def c')
  show "data_ok dv cap c'" unfolding data_ok_def
  proof (intro conjI ballI)
    show "blk_size c' = 512" using assms(3) by (simp add: data_ok_def c')
    show "length (bk_mem x) = 512" if "x \<in> set (blk_table c')" for x
      using that assms(3) length_mem [OF assms(3) i(2)] set_update_subset_insert
      unfolding c' data_ok_def by fastforce
    fix j assume j: "j \<in> set (lru_list c')"
    with assms(3) have jd: "0 \<le> bk_sector (the_blk j c)" "bk_sector (the_blk j c) < int cap"
      "\<not> bk_dirty (the_blk j c) \<Longrightarrow>
         bk_mem (the_blk j c) = dv_read dv (media c) (nat (bk_sector (the_blk j c)) * 512)"
      by (auto simp: s data_ok_def)
    from j have bj: "the_blk j c' = the_blk j c" by (intro b) (simp add: s)
    show "0 \<le> bk_sector (the_blk j c')" "bk_sector (the_blk j c') < int cap"
      using jd bj by simp_all
    have "nat (bk_sector (the_blk j c)) \<noteq> sec" using inj [of j] j jd(1) by (auto simp: s)
    then have "dv_read dv (media c') (nat (bk_sector (the_blk j c)) * 512) =
        dv_read dv (media c) (nat (bk_sector (the_blk j c)) * 512)"
      using dev [of "nat (bk_sector (the_blk j c))"] jd(1,2) by simp
    with jd(3) show "\<not> bk_dirty (the_blk j c') \<longrightarrow>
        bk_mem (the_blk j c') = dv_read dv (media c') (nat (bk_sector (the_blk j c')) * 512)"
      by (simp add: bj)
  qed
  note lc' = evict_lists_ok [OF assms(2-5)]
  show view: "sector_bytes dv c' n = sector_bytes dv c n" if "n < cap" for n
  proof (cases "\<exists>j \<in> set (lru_list c). bk_sector (the_blk j c) = int n")
    case True
    then obtain j where j: "j \<in> set (lru_list c)" "bk_sector (the_blk j c) = int n" by blast
    then have old: "sector_bytes dv c n = bk_mem (the_blk j c)" by (intro sector_bytes_cached [OF assms(2)])
    show ?thesis
    proof (cases "j = i")
      case True
      with j(2) sec(1) have n: "n = sec" by simp
      have "sector_bytes dv c' n = dv_read dv (media c') (n * 512)"
        using inj unfolding n by (intro sector_bytes_device) (auto simp: s b)
      moreover have "bk_dirty (the_blk i c) \<or> bk_mem (the_blk i c) = dv_read dv (media c) (sec * 512)"
        using assms(3) i(1) by (auto simp: data_ok_def sec_def)
      ultimately show ?thesis using dev [of n] sec(2) old True by (auto simp: n)
    next
      case False
      with j have "sector_bytes dv c' n = bk_mem (the_blk j c')"
        by (intro sector_bytes_cached [OF lc']) (simp_all add: s b)
      with old False show ?thesis by (simp add: b)
    qed
  next
    case False
    then have "sector_bytes dv c n = dv_read dv (media c) (n * 512)"
      "sector_bytes dv c' n = dv_read dv (media c') (n * 512)" "n \<noteq> sec"
      using i(1) sec(1) by (auto intro!: sector_bytes_device simp: s b)
    then show ?thesis using dev [OF that] by auto
  qed
  assume cur: "device_current dv cap c"
  have "sector_bytes dv c sec = bk_mem (the_blk i c)"
    by (rule sector_bytes_cached [OF assms(2) i(1) sec(1)])
  with cur view dev show "device_current dv cap c'" by (auto simp: device_current_def)
qed


text \<open>The state after a block from the free list has been given to a sector and read.\<close>

lemma load_blk_eq:
  assumes "device_contract dv cap" and "data_ok dv cap c" and "unat block < cap"
    and "free_list c = i # fs" and "i < length (blk_table c)"
    and "blk_hash (int (unat block)) < length (hash_list c)"
  shows "load_blk dv block c = Some (Some i, c\<lparr>
    blk_table := (blk_table c)[i := (the_blk i c)\<lparr>bk_sector := int (unat block), bk_dirty := False,
       bk_mem := dv_read dv (media c) (unat block * 512), bk_in_use := True\<rparr>],
    lru_list := i # lru_list c, free_list := fs,
    hash_list := (hash_list c)[blk_hash (int (unat block)) :=
                    i # hash_list c ! blk_hash (int (unat block))]\<rparr>)"
proof -
  have len: "length (dv_read dv (media c) (unat block * 512)) = 512"
    using assms(1,3) by (simp add: device_contract_def)
  have "length (bk_mem (the_blk i c)) = 512" by (rule length_mem [OF assms(2,5)])
  with len have "store (take 512 (dv_read dv (media c) (unat block * 512))) 0 (bk_mem (the_blk i c)) =
      Some (dv_read dv (media c) (unat block * 512))"
    by (simp add: store_def splice_def)
  with assms(4-6) show ?thesis
    by (simp add: load_blk_def Let_def upd_blk_def upd_hash_def the_blk_def BufReadSector_def)
      (cases "blk_table c ! i"; cases c; simp)
qed

lemma load_blk_ok:
  assumes "cache_ok dv cap c" and "unat block < cap" and "free_list c \<noteq> []"
    and fresh: "\<And>j. j \<in> set (lru_list c) \<Longrightarrow> bk_sector (the_blk j c) \<noteq> int (unat block)"
  obtains i c' where "load_blk dv block c = Some (Some i, c')" "cache_ok dv cap c'"
    "i \<in> set (lru_list c')" "bk_sector (the_blk i c') = int (unat block)"
    "\<And>n. n < cap \<Longrightarrow> sector_bytes dv c' n = sector_bytes dv c n"
    "writethru_critical c' = writethru_critical c" "writeback_delay c' = writeback_delay c"
    "buffer_cnt c' = buffer_cnt c" "media c' = media c" "dirty_list c' = dirty_list c"
proof -
  obtain i fs where fl: "free_list c = i # fs" using assms(3) by (cases "free_list c") auto
  note l = assms(1) [unfolded cache_ok_def, THEN conjunct2, THEN conjunct1]
    and d = assms(1) [unfolded cache_ok_def, THEN conjunct2, THEN conjunct2]
    and dc = assms(1) [unfolded cache_ok_def, THEN conjunct1]
  have cap: "uint block < int cap"
    using assms(2) of_nat_less_iff [where 'a = int, of "unat block" cap] by (simp del: of_nat_less_iff)
  define h where "h = blk_hash (int (unat block))"
  have h: "h < 64" by (simp add: h_def blk_hash_def)
  from l fl have i: "i < length (blk_table c)" "i \<notin> set (lru_list c)" "i \<notin> set fs" "distinct fs"
    by (auto simp: lists_ok_def)
  from l have hl: "length (hash_list c) = 64" by (simp add: lists_ok_def)
  define b where "b = (the_blk i c)\<lparr>bk_sector := int (unat block), bk_dirty := False,
       bk_mem := dv_read dv (media c) (unat block * 512), bk_in_use := True\<rparr>"
  define c' where "c' = c\<lparr>blk_table := (blk_table c)[i := b], lru_list := i # lru_list c,
    free_list := fs, hash_list := (hash_list c)[h := i # hash_list c ! h]\<rparr>"
  have eq: "load_blk dv block c = Some (Some i, c')"
    unfolding c'_def b_def h_def by (rule load_blk_eq [OF dc d assms(2) fl i(1)]) (use h hl in \<open>simp add: h_def\<close>)
  have bi: "the_blk i c' = b" and bj: "\<And>j. j \<noteq> i \<Longrightarrow> the_blk j c' = the_blk j c"
    using i by (simp_all add: the_blk_def c'_def)
  have bm: "bk_sector b = int (unat block)" "\<not> bk_dirty b"
    "bk_mem b = dv_read dv (media c) (unat block * 512)" by (simp_all add: b_def)
  have lru: "lru_list c' = i # lru_list c" and dirty: "dirty_list c' = dirty_list c"
    and med: "media c' = media c" by (simp_all add: c'_def)
  have bl: "the_blk j c' = the_blk j c" if "j \<in> set (lru_list c)" for j
    using that i(2) by (intro bj) auto
  have l': "lists_ok c'" unfolding lists_ok_def
  proof (intro conjI allI impI)
    show "0 < length (blk_table c')" "length (hash_list c') = 64"
      using i(1) hl by (auto simp: c'_def)
    show "distinct (lru_list c')" "distinct (free_list c')" "distinct (dirty_list c')"
      using l i by (simp_all add: c'_def lists_ok_def)
    show "set (lru_list c') \<inter> set (free_list c') = {}"
      "set (lru_list c') \<union> set (free_list c') = {..<length (blk_table c')}"
      using l fl i by (auto simp: c'_def lists_ok_def)
    have "inj_on (\<lambda>i. bk_sector (the_blk i c')) (set (lru_list c))"
      using l bl by (simp add: lists_ok_def inj_on_def)
    moreover have "bk_sector (the_blk i c') \<notin> (\<lambda>i. bk_sector (the_blk i c')) ` set (lru_list c)"
    proof
      assume "bk_sector (the_blk i c') \<in> (\<lambda>i. bk_sector (the_blk i c')) ` set (lru_list c)"
      then obtain j where "j \<in> set (lru_list c)" "bk_sector (the_blk i c') = bk_sector (the_blk j c')"
        by (rule imageE)
      with fresh [of j] bl [of j] bi bm(1) show False by simp
    qed
    ultimately show "inj_on (\<lambda>i. bk_sector (the_blk i c')) (set (lru_list c'))"
      using i(2) unfolding lru by simp
    show "set (dirty_list c') = {j \<in> set (lru_list c'). bk_dirty (the_blk j c')}"
      using l bl bi bm unfolding lru dirty lists_ok_def by auto
    fix k :: nat assume k: "k < 64"
    from k l have ch: "distinct (hash_list c ! k)"
      "set (hash_list c ! k) = {j \<in> set (lru_list c). blk_hash (bk_sector (the_blk j c)) = k}"
      by (simp_all add: lists_ok_def)
    have hk: "hash_list c' ! k = (if k = h then i # hash_list c ! k else hash_list c ! k)"
      using k hl h by (simp add: c'_def)
    show "distinct (hash_list c' ! k)" unfolding hk using ch i(2) by auto
    have "set (hash_list c' ! k) = set (hash_list c ! k) \<union> {j. j = i \<and> k = h}" unfolding hk by auto
    also have "\<dots> = {j \<in> set (lru_list c'). blk_hash (bk_sector (the_blk j c')) = k}"
      unfolding ch(2) lru using bl bi bm(1) by (auto simp: h_def)
    finally show "set (hash_list c' ! k) = {j \<in> set (lru_list c'). blk_hash (bk_sector (the_blk j c')) = k}" .
  qed
  have d': "data_ok dv cap c'" unfolding data_ok_def
  proof (intro conjI ballI)
    show "blk_size c' = 512" using d by (simp add: c'_def data_ok_def)
    show "length (bk_mem x) = 512" if "x \<in> set (blk_table c')" for x
      using that d dc assms(2) bm(3) set_update_subset_insert
      unfolding c'_def data_ok_def device_contract_def by fastforce
    fix j assume j: "j \<in> set (lru_list c')"
    have "0 \<le> bk_sector (the_blk j c') \<and> bk_sector (the_blk j c') < int cap \<and>
        (\<not> bk_dirty (the_blk j c') \<longrightarrow>
           bk_mem (the_blk j c') = dv_read dv (media c) (nat (bk_sector (the_blk j c')) * 512))"
    proof (cases "j = i")
      case True
      then show ?thesis using cap by (simp add: bi bm)
    next
      case False
      with j have "j \<in> set (lru_list c)" by (simp add: c'_def)
      with d bl show ?thesis by (simp add: data_ok_def)
    qed
    then show "0 \<le> bk_sector (the_blk j c')" "bk_sector (the_blk j c') < int cap"
      "\<not> bk_dirty (the_blk j c') \<longrightarrow>
         bk_mem (the_blk j c') = dv_read dv (media c') (nat (bk_sector (the_blk j c')) * 512)"
      unfolding med by simp_all
  qed
  have "sector_bytes dv c' n = sector_bytes dv c n" if "n < cap" for n
  proof (cases "\<exists>j \<in> set (lru_list c). bk_sector (the_blk j c) = int n")
    case True
    then obtain j where j: "j \<in> set (lru_list c)" "bk_sector (the_blk j c) = int n" by blast
    then have "sector_bytes dv c' n = bk_mem (the_blk j c')"
      by (intro sector_bytes_cached [OF l']) (simp_all add: bl, simp add: c'_def)
    with j l show ?thesis by (simp add: bl sector_bytes_cached)
  next
    case False
    then have old: "sector_bytes dv c n = dv_read dv (media c) (n * 512)"
      by (intro sector_bytes_device) auto
    show ?thesis
    proof (cases "n = unat block")
      case True
      then have "sector_bytes dv c' n = bk_mem (the_blk i c')"
        by (intro sector_bytes_cached [OF l']) (simp_all add: bi bm, simp add: c'_def)
      with old True show ?thesis by (simp add: bi bm)
    next
      case neq: False
      then have un: "uint block \<noteq> int n" by (metis of_nat_eq_iff uint_nat)
      have "sector_bytes dv c' n = dv_read dv (media c') (n * 512)"
      proof (rule sector_bytes_device)
        fix j assume "j \<in> set (lru_list c')"
        then have "j = i \<or> j \<in> set (lru_list c)" by (simp add: c'_def)
        with False un show "bk_sector (the_blk j c') \<noteq> int n" using bl by (auto simp: bi bm)
      qed
      with old show ?thesis by (simp add: c'_def)
    qed
  qed
  moreover have "cache_ok dv cap c'" using dc l' d' by (simp add: cache_ok_def)
  moreover have "i \<in> set (lru_list c')" "writethru_critical c' = writethru_critical c"
    "writeback_delay c' = writeback_delay c" "buffer_cnt c' = buffer_cnt c" "media c' = media c"
    "dirty_list c' = dirty_list c"
    by (simp_all add: c'_def)
  ultimately show ?thesis using eq bi bm(1) that by simp
qed


text \<open>Getting a block: it holds the bytes of the sector, and no sector changes.\<close>

lemma BufGetBlock_ok:
  assumes "cache_ok dv cap c" and "unat block < cap"
  obtains i c' where "BufGetBlock dv block c = Some (Some i, c')" "cache_ok dv cap c'"
    "i \<in> set (lru_list c')" "bk_sector (the_blk i c') = int (unat block)"
    "\<And>n. n < cap \<Longrightarrow> sector_bytes dv c' n = sector_bytes dv c n"
    "device_current dv cap c \<Longrightarrow> device_current dv cap c'"
    "writethru_critical c' = writethru_critical c" "writeback_delay c' = writeback_delay c"
    "buffer_cnt c' = buffer_cnt c"
proof -
  from assms(1) have dc: "device_contract dv cap" and l: "lists_ok c" and d: "data_ok dv cap c"
    by (simp_all add: cache_ok_def)
  show ?thesis
  proof (cases "find (\<lambda>i. bk_sector (the_blk i c) = int (unat block)) (lru_list c)")
    case (Some i)
    then have i: "i \<in> set (lru_list c)" "bk_sector (the_blk i c) = int (unat block)"
      using find_SomeD [OF Some] by simp_all
    define c' where "c' = c\<lparr>lru_list := i # remove1 i (lru_list c)\<rparr>"
    have eq: "BufGetBlock dv block c = Some (Some i, c')"
      using Some chain_find [OF l] by (simp add: BufGetBlock_def c'_def)
    have "distinct (lru_list c)" using l by (simp add: lists_ok_def)
    then have s: "set (i # remove1 i (lru_list c)) = set (lru_list c)" "distinct (i # remove1 i (lru_list c))"
      using i(1) by (auto simp: set_remove1_eq)
    have ok': "cache_ok dv cap c'" unfolding c'_def by (rule cache_ok_lru [OF assms(1) s])
    have l': "lists_ok c'" unfolding c'_def by (rule lists_ok_lru [OF l s])
    have view: "sector_bytes dv c' n = sector_bytes dv c n" for n
      using s(1) by (intro sector_bytes_cong l l') (simp_all add: c'_def)
    moreover have "device_current dv cap c \<Longrightarrow> device_current dv cap c'"
      unfolding device_current_def view by (simp add: c'_def)
    moreover have "i \<in> set (lru_list c')" "bk_sector (the_blk i c') = int (unat block)"
      "writethru_critical c' = writethru_critical c" "writeback_delay c' = writeback_delay c"
      "buffer_cnt c' = buffer_cnt c"
      using i(2) by (simp_all add: c'_def the_blk_def)
    ultimately show ?thesis using eq ok' that by blast
  next
    case None
    then have fresh: "\<And>i. i \<in> set (lru_list c) \<Longrightarrow> bk_sector (the_blk i c) \<noteq> int (unat block)"
      unfolding find_None_iff by blast
    have eq: "BufGetBlock dv block c =
        (if free_list c = [] then evict_blk dv c else Some c) \<bind> load_blk dv block"
      using None chain_find [OF l] by (simp add: BufGetBlock_def)
    show ?thesis
    proof (cases "free_list c = []")
      case False
      from load_blk_ok [OF assms False fresh] obtain i c' where
        "load_blk dv block c = Some (Some i, c')" "cache_ok dv cap c'" "i \<in> set (lru_list c')"
        "bk_sector (the_blk i c') = int (unat block)"
        "\<And>n. n < cap \<Longrightarrow> sector_bytes dv c' n = sector_bytes dv c n"
        "writethru_critical c' = writethru_critical c" "writeback_delay c' = writeback_delay c"
        "buffer_cnt c' = buffer_cnt c" "media c' = media c" by metis
      with eq False that show ?thesis by (simp add: device_current_def)
    next
      case True
      with l have ne: "lru_list c \<noteq> []" by (auto simp: lists_ok_def)
      note ev = evict_blk_eq [OF l d ne]
      then obtain c1 where c1: "evict_blk dv c = Some c1" by blast
      have ok1: "cache_ok dv cap c1"
        using dc evict_lists_ok [OF l d ne c1] evict_data_ok(1) [OF dc l d ne c1]
        by (simp add: cache_ok_def)
      have s1: "sector_bytes dv c1 n = sector_bytes dv c n" if "n < cap" for n
        by (rule evict_data_ok(2) [OF dc l d ne c1 that])
      have f1: "free_list c1 \<noteq> []" "writethru_critical c1 = writethru_critical c"
        "writeback_delay c1 = writeback_delay c" "buffer_cnt c1 = buffer_cnt c"
        using ev c1 by auto
      have "bk_sector (the_blk j c1) = bk_sector (the_blk j c)" for j
        using ev c1 lru_bound [OF l, of "last (lru_list c)"] ne
        by (cases "j = last (lru_list c)") (auto simp: the_blk_def)
      moreover have "set (lru_list c1) \<subseteq> set (lru_list c)"
        using ev c1 set_remove1_subset by fastforce
      ultimately have "bk_sector (the_blk j c1) \<noteq> int (unat block)" if "j \<in> set (lru_list c1)" for j
        using fresh that by auto
      from load_blk_ok [OF ok1 assms(2) f1(1) this] obtain i c' where
        "load_blk dv block c1 = Some (Some i, c')" "cache_ok dv cap c'" "i \<in> set (lru_list c')"
        "bk_sector (the_blk i c') = int (unat block)"
        "\<And>n. n < cap \<Longrightarrow> sector_bytes dv c' n = sector_bytes dv c1 n"
        "writethru_critical c' = writethru_critical c1" "writeback_delay c' = writeback_delay c1"
        "buffer_cnt c' = buffer_cnt c1" "media c' = media c1" by metis
      with eq True c1 s1 f1 evict_data_ok(3) [OF dc l d ne c1] that show ?thesis
        by (simp add: device_current_def)
    qed
  qed
qed



section \<open>Changing and putting back a block\<close>

text \<open>A block that is given new bytes, and is either dirty or written to the device.\<close>

lemma modify_blk_ok:
  assumes ok: "cache_ok dv cap c" and i: "i \<in> set (lru_list c)"
    and sec: "bk_sector (the_blk i c) = int sec" and m: "length m = 512"
    and lru: "set (lru_list c') = set (lru_list c)" "distinct (lru_list c')"
    and tab: "blk_table c' = (blk_table c)[i := (the_blk i c)\<lparr>bk_mem := m, bk_dirty := d\<rparr>]"
    and same: "free_list c' = free_list c" "hash_list c' = hash_list c" "blk_size c' = blk_size c"
    and dirty: "distinct (dirty_list c')"
      "set (dirty_list c') = (if d then insert i (set (dirty_list c)) else set (dirty_list c) - {i})"
    and med: "media c' = (if w then dv_write dv (sec * 512) m (media c) else media c)" and dw: "d \<or> w"
  shows "cache_ok dv cap c'"
    and "n < cap \<Longrightarrow> sector_bytes dv c' n = (if n = sec then m else sector_bytes dv c n)"
    and "w \<Longrightarrow> device_current dv cap c \<Longrightarrow> device_current dv cap c'"
proof -
  from ok have dc: "device_contract dv cap" and l: "lists_ok c" and dt: "data_ok dv cap c"
    by (simp_all add: cache_ok_def)
  have ib: "i < length (blk_table c)" by (rule lru_bound [OF l i])
  have bi: "the_blk i c' = (the_blk i c)\<lparr>bk_mem := m, bk_dirty := d\<rparr>"
    and bj: "\<And>j. j \<noteq> i \<Longrightarrow> the_blk j c' = the_blk j c"
    using ib by (simp_all add: the_blk_def tab)
  have bs: "bk_sector (the_blk j c') = bk_sector (the_blk j c)" for j
    by (cases "j = i") (simp_all add: bi bj)
  from dt i sec have sc: "sec < cap" by (auto simp: data_ok_def)
  have inj: "bk_sector (the_blk j c) \<noteq> int sec" if "j \<in> set (lru_list c)" "j \<noteq> i" for j
    using l i that sec by (auto simp: lists_ok_def inj_on_def)
  have dev: "dv_read dv (media c') (k * 512) = (if k = sec \<and> w then m else dv_read dv (media c) (k * 512))"
    if "k < cap" for k
    using dc sc that m by (simp add: device_contract_def med)
  have dd: "set (dirty_list c) = {i \<in> set (lru_list c). bk_dirty (the_blk i c)}"
    using l by (simp only: lists_ok_def)
  have bd: "bk_dirty (the_blk j c') = (if j = i then d else bk_dirty (the_blk j c))" for j
    by (simp add: bi bj)
  have "set (dirty_list c') = {j \<in> set (lru_list c'). bk_dirty (the_blk j c')}"
    unfolding lru dirty dd bd using i by auto
  with l lru dirty(1) have l': "lists_ok c'"
    by (simp add: lists_ok_def same bs tab)
  have "data_ok dv cap c'" unfolding data_ok_def
  proof (intro conjI ballI)
    show "blk_size c' = 512" using dt by (simp add: same data_ok_def)
    show "length (bk_mem x) = 512" if "x \<in> set (blk_table c')" for x
      using that dt m set_update_subset_insert unfolding tab data_ok_def by fastforce
    fix j assume "j \<in> set (lru_list c')"
    then have j: "j \<in> set (lru_list c)" by (simp add: lru)
    from dt j have jd: "0 \<le> bk_sector (the_blk j c)" "bk_sector (the_blk j c) < int cap"
      "\<not> bk_dirty (the_blk j c) \<Longrightarrow>
         bk_mem (the_blk j c) = dv_read dv (media c) (nat (bk_sector (the_blk j c)) * 512)"
      by (auto simp: data_ok_def)
    show "0 \<le> bk_sector (the_blk j c')" "bk_sector (the_blk j c') < int cap" unfolding bs by fact+
    show "\<not> bk_dirty (the_blk j c') \<longrightarrow>
        bk_mem (the_blk j c') = dv_read dv (media c') (nat (bk_sector (the_blk j c')) * 512)"
    proof (cases "j = i")
      case True
      with dw dev [OF sc] sec show ?thesis by (auto simp: bi)
    next
      case False
      have "nat (bk_sector (the_blk j c)) \<noteq> sec" using inj [OF j False] jd(1) by auto
      with dev [of "nat (bk_sector (the_blk j c))"] jd show ?thesis by (simp add: bj [OF False])
    qed
  qed
  with dc l' show "cache_ok dv cap c'" by (simp add: cache_ok_def)
  show view: "sector_bytes dv c' n = (if n = sec then m else sector_bytes dv c n)" if n: "n < cap" for n
  proof (cases "\<exists>j \<in> set (lru_list c). bk_sector (the_blk j c) = int n")
    case True
    then obtain j where j: "j \<in> set (lru_list c)" "bk_sector (the_blk j c) = int n" by blast
    then have "sector_bytes dv c n = bk_mem (the_blk j c)"
      "sector_bytes dv c' n = bk_mem (the_blk j c')"
      using sector_bytes_cached [OF l] sector_bytes_cached [OF l'] by (simp_all add: lru bs)
    with j inj [OF j(1)] sec show ?thesis by (cases "j = i") (auto simp: bi bj)
  next
    case False
    then have "sector_bytes dv c n = dv_read dv (media c) (n * 512)"
      "sector_bytes dv c' n = dv_read dv (media c') (n * 512)" "n \<noteq> sec"
      using i sec by (auto intro!: sector_bytes_device simp: lru bs)
    with dev [OF n] show ?thesis by simp
  qed
  assume "w" "device_current dv cap c"
  with view dev show "device_current dv cap c'" by (simp add: device_current_def)
qed

text \<open>The state after a block with new bytes has been put back.\<close>

lemma BufPutBlock_eq:
  assumes ib: "i < length (blk_table c)" and sec: "bk_sector (the_blk i c) = int sec" and m: "length m = 512"
    and mode: "and mode BUF_IMMED = 0 \<or> writethru_critical c \<noteq> 0"
    and nd: "\<not> bk_dirty (the_blk i c) \<Longrightarrow> remove1 i (dirty_list c) = dirty_list c"
  shows "BufPutBlock dv i mode (upd_blk i (\<lambda>b. b\<lparr>bk_mem := m\<rparr>) c) = Some (True, c\<lparr>
    lru_list := (if and mode BUF_ONESHOT \<noteq> 0 then remove1 i (lru_list c) @ [i] else lru_list c),
    blk_table := (blk_table c)[i := (the_blk i c)\<lparr>bk_mem := m, bk_dirty := and mode BUF_IMMED = 0\<rparr>],
    dirty_list := (if and mode BUF_IMMED \<noteq> 0 then remove1 i (dirty_list c)
                   else if bk_dirty (the_blk i c) then dirty_list c else dirty_list c @ [i]),
    media := (if and mode BUF_IMMED \<noteq> 0 \<or> writeback_delay c = 0
              then dv_write dv (sec * 512) m (media c) else media c)\<rparr>)"
proof -
  have b: "b\<lparr>bk_mem := m, bk_dirty := True\<rparr> = b\<lparr>bk_mem := m\<rparr>" if "bk_dirty b" for b
    using that by (cases b) simp
  have b': "b\<lparr>bk_mem := m, bk_dirty := False\<rparr> = b\<lparr>bk_mem := m\<rparr>" if "\<not> bk_dirty b" for b
    using that by (cases b) simp
  define one where "one = (and mode BUF_ONESHOT \<noteq> 0)"
  define imm where "imm = (and mode BUF_IMMED \<noteq> 0)"
  have im: "(and mode BUF_IMMED = 0) = (\<not> imm)" by (simp add: imm_def)
  show ?thesis
    using ib sec m mode nd unfolding BufPutBlock_def one_def [symmetric] imm_def [symmetric] im
    by (cases imm; cases one; cases "bk_dirty (the_blk i c)")
      (simp_all add: Let_def upd_blk_def the_blk_def BufWriteSector_def b b')
qed

text \<open>
  \<open>BufPutBlock\<close> with the modes for which it keeps what was written: not immediately without
  write-through.
\<close>

lemma BufPutBlock_ok:
  assumes ok: "cache_ok dv cap c" and i: "i \<in> set (lru_list c)"
    and sec: "bk_sector (the_blk i c) = int sec" and m: "length m = 512"
    and mode: "and mode BUF_IMMED = 0 \<or> writethru_critical c \<noteq> 0"
  obtains c' where "BufPutBlock dv i mode (upd_blk i (\<lambda>b. b\<lparr>bk_mem := m\<rparr>) c) = Some (True, c')"
    "cache_ok dv cap c'"
    "\<And>n. n < cap \<Longrightarrow> sector_bytes dv c' n = (if n = sec then m else sector_bytes dv c n)"
    "writeback_delay c = 0 \<Longrightarrow> device_current dv cap c \<Longrightarrow> device_current dv cap c'"
    "writethru_critical c' = writethru_critical c" "writeback_delay c' = writeback_delay c"
    "buffer_cnt c' = buffer_cnt c"
proof -
  from ok have l: "lists_ok c" by (simp add: cache_ok_def)
  have ib: "i < length (blk_table c)" by (rule lru_bound [OF l i])
  have ld: "distinct (lru_list c)" "distinct (dirty_list c)"
    "set (dirty_list c) = {i \<in> set (lru_list c). bk_dirty (the_blk i c)}"
    using l by (simp_all add: lists_ok_def)
  define lru where "lru = (if and mode BUF_ONESHOT \<noteq> 0 then remove1 i (lru_list c) @ [i] else lru_list c)"
  have lru: "set lru = set (lru_list c)" "distinct lru"
    using ld i by (auto simp: lru_def set_remove1_eq)
  define imm where "imm = (and mode BUF_IMMED \<noteq> 0)"
  define w where "w = (imm \<or> writeback_delay c = 0)"
  define c' where "c' = c\<lparr>lru_list := lru,
    blk_table := (blk_table c)[i := (the_blk i c)\<lparr>bk_mem := m, bk_dirty := \<not> imm\<rparr>],
    dirty_list := (if imm then remove1 i (dirty_list c)
                   else if bk_dirty (the_blk i c) then dirty_list c else dirty_list c @ [i]),
    media := (if w then dv_write dv (sec * 512) m (media c) else media c)\<rparr>"
  have fl: "lru_list c' = lru" "free_list c' = free_list c" "hash_list c' = hash_list c"
    "blk_size c' = blk_size c"
    "blk_table c' = (blk_table c)[i := (the_blk i c)\<lparr>bk_mem := m, bk_dirty := \<not> imm\<rparr>]"
    "media c' = (if w then dv_write dv (sec * 512) m (media c) else media c)"
    "dirty_list c' = (if imm then remove1 i (dirty_list c)
                      else if bk_dirty (the_blk i c) then dirty_list c else dirty_list c @ [i])"
    by (simp_all add: c'_def)
  have dl: "distinct (dirty_list c')"
    "set (dirty_list c') = (if \<not> imm then insert i (set (dirty_list c)) else set (dirty_list c) - {i})"
    using ld i unfolding fl by (auto simp: set_remove1_eq)
  have dw: "\<not> imm \<or> w" by (simp add: w_def)
  note mod = modify_blk_ok [OF ok i sec m, of c' "\<not> imm" w, unfolded fl(1), OF lru fl(5,2-4) dl fl(6) dw]
  have nd: "remove1 i (dirty_list c) = dirty_list c" if "\<not> bk_dirty (the_blk i c)"
    using ld that by (simp add: remove1_idem)
  have "BufPutBlock dv i mode (upd_blk i (\<lambda>b. b\<lparr>bk_mem := m\<rparr>) c) = Some (True, c')"
    using BufPutBlock_eq [OF ib sec m mode nd] by (simp add: c'_def lru_def imm_def w_def)
  moreover have "device_current dv cap c'" if "writeback_delay c = 0" "device_current dv cap c"
    using that by (intro mod(3)) (simp_all add: w_def)
  moreover note mod(1,2)
  ultimately show ?thesis using that by (simp add: c'_def)
qed



section \<open>Reading and writing ranges\<close>

text \<open>The bytes of the whole device as the cache gives them; no byte lies behind its end.\<close>

definition disk_byte :: "'d block_device \<Rightarrow> nat \<Rightarrow> 'd fat_cache \<Rightarrow> nat \<Rightarrow> byte" where
  "disk_byte dv cap c a = (if a < cap * 512 then sector_bytes dv c (a div 512) ! (a mod 512) else 0)"

definition cache_rest :: "'d fat_cache \<Rightarrow> u32 \<times> u32 \<times> u32" where
  "cache_rest c = (writethru_critical c, writeback_delay c, buffer_cnt c)"

lemma disk_byte_cong:
  "(\<And>n. n < cap \<Longrightarrow> sector_bytes dv c' n = sector_bytes dv c n) \<Longrightarrow> disk_byte dv cap c' = disk_byte dv cap c"
  by (rule ext) (simp add: disk_byte_def)

lemma rd_sector:
  assumes "cache_ok dv cap c" and "n < cap" and "off + k \<le> 512"
  shows "rd_bytes (n * 512 + off) k (disk_byte dv cap c) = slice off k (sector_bytes dv c n)"
proof (rule nth_equalityI)
  show "length (rd_bytes (n * 512 + off) k (disk_byte dv cap c)) = length (slice off k (sector_bytes dv c n))"
    using assms length_sector_bytes [of dv cap c n] by simp
  fix i assume "i < length (rd_bytes (n * 512 + off) k (disk_byte dv cap c))"
  then have i: "i < k" by simp
  with assms(2,3) have a: "n * 512 + off + i < cap * 512" by simp
  have "(n * 512 + (off + i)) div 512 = n" "(n * 512 + (off + i)) mod 512 = off + i"
    using i assms(3) by (simp_all add: div_mult_self3)
  with i a show "rd_bytes (n * 512 + off) k (disk_byte dv cap c) ! i = slice off k (sector_bytes dv c n) ! i"
    using assms length_sector_bytes [of dv cap c n]
    by (simp add: disk_byte_def slice_def add.assoc)
qed

lemma wr_sector:
  assumes ok: "cache_ok dv cap c" and n: "n < cap" and fits: "off + length bs \<le> 512"
    and new: "\<And>k. k < cap \<Longrightarrow> sector_bytes dv c' k =
      (if k = n then splice off bs (sector_bytes dv c n) else sector_bytes dv c k)"
  shows "disk_byte dv cap c' = wr_bytes (n * 512 + off) bs (disk_byte dv cap c)"
proof (rule ext)
  fix a
  have len: "length (sector_bytes dv c n) = 512" by (rule length_sector_bytes [OF ok n])
  show "disk_byte dv cap c' a = wr_bytes (n * 512 + off) bs (disk_byte dv cap c) a"
  proof (cases "a < cap * 512")
    case False
    with n fits show ?thesis by (auto simp: disk_byte_def wr_bytes_def)
  next
    case True
    then have ac: "a div 512 < cap" by (simp add: less_mult_imp_div_less)
    show ?thesis
    proof (cases "a div 512 = n")
      case False
      then have "\<not> (n * 512 + off \<le> a \<and> a < n * 512 + off + length bs)"
        using fits by auto
      with True False ac new [of "a div 512"] show ?thesis by (auto simp: disk_byte_def wr_bytes_def)
    next
      case eq: True
      then have "a = n * 512 + a mod 512" by (metis div_mult_mod_eq)
      then obtain r where r: "a = n * 512 + r" "r < 512" by (metis mod_less_divisor zero_less_numeral)
      then have "a mod 512 = r" by simp
      with True eq r n new [of n] len fits show ?thesis
        by (simp add: disk_byte_def wr_bytes_def nth_splice)
    qed
  qed
qed


lemma cache_block: "cache_ok dv cap c \<Longrightarrow> blk_size c = 512"
  by (simp add: cache_ok_def data_ok_def)

text \<open>The number of bytes of the next block, in natural numbers.\<close>

lemma unat_blk_chunk:
  assumes "(off :: u32) < 512"
  shows "unat (blk_chunk 512 off n) = min (unat n) (512 - unat off)"
proof -
  have "unat (512 - off) = 512 - unat off"
    using assms by (subst unat_sub) (simp_all add: word_le_nat_alt word_less_nat_alt)
  then show ?thesis by (auto simp: blk_chunk_def word_less_nat_alt)
qed

text \<open>What remains after the first block: either nothing, or it starts in the next sector.\<close>

lemma chunk_rest:
  assumes "(off :: u32) < 512" and "cap \<le> 4294967296"
    and "pos_of block off + unat n \<le> cap * 512" and "n \<noteq> 0"
  defines "k \<equiv> unat (blk_chunk 512 off n)"
  shows "unat block < cap" and "unat off + k \<le> 512" and "k \<le> unat n" and "0 < k"
    and "unat (n - blk_chunk 512 off n) = unat n - k"
    and "n - blk_chunk 512 off n \<noteq> 0 \<Longrightarrow> pos_of (block + 1) 0 = pos_of block off + k"
proof -
  have o: "unat off < 512" using assms(1) by (simp add: word_less_nat_alt)
  have n: "0 < unat n" using assms(4) by (simp add: unat_gt_0)
  have k: "k = min (unat n) (512 - unat off)" unfolding k_def by (rule unat_blk_chunk [OF assms(1)])
  show bc: "unat block < cap" using assms(3) n by (simp add: pos_of_def)
  show "unat off + k \<le> 512" "k \<le> unat n" "0 < k" using k o n by auto
  show r: "unat (n - blk_chunk 512 off n) = unat n - k"
    unfolding k_def by (rule unat_sub) (rule blk_chunk_le)
  assume "n - blk_chunk 512 off n \<noteq> 0"
  then have "0 < unat n - k" using r by (metis gr0I unat_eq_zero)
  then have kk: "k = 512 - unat off" "512 - unat off < unat n" using k by auto
  then have "unat block * 512 + 512 < cap * 512" using assms(3) o by (simp add: pos_of_def)
  then have "Suc (unat block) < 4294967296" using assms(2) by simp
  then have "unat (block + 1) = Suc (unat block)" by (simp add: unat_word_ariths)
  then show "pos_of (block + 1) 0 = pos_of block off + k" using kk(1) o by (simp add: pos_of_def)
qed

theorem BufReadBlocks_ok:
  "cache_ok dv cap c \<Longrightarrow> off < 512 \<Longrightarrow> pos_of block off + unat n \<le> cap * 512 \<Longrightarrow>
   \<exists>c'. BufReadBlocks dv block off n c =
       Some (0, rd_bytes (pos_of block off) (unat n) (disk_byte dv cap c), c') \<and>
     cache_ok dv cap c' \<and> disk_byte dv cap c' = disk_byte dv cap c \<and> cache_rest c' = cache_rest c \<and>
     (device_current dv cap c \<longrightarrow> device_current dv cap c')"
proof (induction "unat n" arbitrary: block off n c rule: less_induct)
  case less
  note ok = less.prems(1)
  have cap: "cap \<le> 4294967296" using ok by (simp add: cache_ok_def device_contract_def)
  show ?case
  proof (cases "n = 0")
    case True
    with ok show ?thesis by (simp add: BufReadBlocks.simps)
  next
    case False
    define m where "m = blk_chunk 512 off n"
    note ch = chunk_rest [OF less.prems(2) cap less.prems(3) False, folded m_def]
    from BufGetBlock_ok [OF ok ch(1)] obtain i c1 where
      g: "BufGetBlock dv block c = Some (Some i, c1)" and ok1: "cache_ok dv cap c1"
      and i: "i \<in> set (lru_list c1)" "bk_sector (the_blk i c1) = int (unat block)"
      and sb: "\<And>n. n < cap \<Longrightarrow> sector_bytes dv c1 n = sector_bytes dv c n"
      and cur1: "device_current dv cap c \<Longrightarrow> device_current dv cap c1"
      and rest: "writethru_critical c1 = writethru_critical c" "writeback_delay c1 = writeback_delay c"
        "buffer_cnt c1 = buffer_cnt c" by metis
    have mem: "bk_mem (the_blk i c1) = sector_bytes dv c (unat block)"
      using sector_bytes_cached [of c1 i "unat block" dv] i ok1 sb [OF ch(1)] by (simp add: cache_ok_def)
    have len: "length (bk_mem (the_blk i c1)) = 512"
      unfolding mem by (rule length_sector_bytes [OF ok ch(1)])
    have db: "disk_byte dv cap c1 = disk_byte dv cap c" by (rule disk_byte_cong) (rule sb)
    have first: "slice (unat off) (unat m) (bk_mem (the_blk i c1)) =
        rd_bytes (pos_of block off) (unat m) (disk_byte dv cap c)"
      unfolding mem using rd_sector [OF ok ch(1,2)] by (simp add: pos_of_def)
    have "\<exists>c'. BufReadBlocks dv (block + 1) 0 (n - m) c1 =
          Some (0, rd_bytes (pos_of block off + unat m) (unat n - unat m) (disk_byte dv cap c), c') \<and>
        cache_ok dv cap c' \<and> disk_byte dv cap c' = disk_byte dv cap c \<and> cache_rest c' = cache_rest c1 \<and>
        (device_current dv cap c1 \<longrightarrow> device_current dv cap c')"
    proof (cases "n - m = 0")
      case True
      with ch(5) have "unat n - unat m = 0" by simp
      with True ok1 db show ?thesis by (simp add: BufReadBlocks.simps)
    next
      case False
      note p = ch(6) [OF False]
      have "unat (n - m) < unat n" using ch(3-5) by simp
      moreover have "pos_of (block + 1) 0 + unat (n - m) \<le> cap * 512"
        using less.prems(3) ch(3,5) p by simp
      ultimately show ?thesis using less.hyps [of "n - m" c1 0 "block + 1"] ok1 ch(5) p db by simp
    qed
    then obtain c' where c': "BufReadBlocks dv (block + 1) 0 (n - m) c1 =
          Some (0, rd_bytes (pos_of block off + unat m) (unat n - unat m) (disk_byte dv cap c), c')"
        "cache_ok dv cap c'" "disk_byte dv cap c' = disk_byte dv cap c" "cache_rest c' = cache_rest c1"
        "device_current dv cap c1 \<longrightarrow> device_current dv cap c'"
      by blast
    have "BufReadBlocks dv block off n c =
        Some (0, rd_bytes (pos_of block off) (unat m) (disk_byte dv cap c) @
                 rd_bytes (pos_of block off + unat m) (unat n - unat m) (disk_byte dv cap c), c')"
      using False g len ch(2) c'(1) first
      by (subst BufReadBlocks.simps) (simp add: cache_block [OF ok] Let_def flip: m_def)
    with c'(2-5) rest cur1 ch(3) show ?thesis by (simp add: rd_bytes_append cache_rest_def)
  qed
qed


lemma src_bytes_split:
  "src_fits mem n \<Longrightarrow> k \<le> n \<Longrightarrow>
   src_bytes mem k @ src_bytes (map_option (drop k) mem) (n - k) = src_bytes mem n"
  by (cases mem) (simp_all add: src_fits_def take_add [symmetric] replicate_add [symmetric])

lemma src_fits_drop: "src_fits mem n \<Longrightarrow> src_fits (map_option (drop k) mem) (n - k)"
  by (cases mem) auto

theorem BufWriteBlocks_ok:
  "cache_ok dv cap c \<Longrightarrow> off < 512 \<Longrightarrow> pos_of block off + unat n \<le> cap * 512 \<Longrightarrow>
   src_fits mem (unat n) \<Longrightarrow> and mode BUF_IMMED = 0 \<or> writethru_critical c \<noteq> 0 \<Longrightarrow>
   \<exists>c'. BufWriteBlocks dv mem block off n mode c = Some (0, c') \<and> cache_ok dv cap c' \<and>
     disk_byte dv cap c' = wr_bytes (pos_of block off) (src_bytes mem (unat n)) (disk_byte dv cap c) \<and>
     cache_rest c' = cache_rest c \<and>
     (writeback_delay c = 0 \<longrightarrow> device_current dv cap c \<longrightarrow> device_current dv cap c')"
proof (induction "unat n" arbitrary: block off n c mem rule: less_induct)
  case less
  note ok = less.prems(1)
  have cap: "cap \<le> 4294967296" using ok by (simp add: cache_ok_def device_contract_def)
  show ?case
  proof (cases "n = 0")
    case True
    with ok less.prems(4) show ?thesis
      using length_src_bytes [OF less.prems(4)] by (simp add: BufWriteBlocks.simps)
  next
    case False
    define m where "m = blk_chunk 512 off n"
    note ch = chunk_rest [OF less.prems(2) cap less.prems(3) False, folded m_def]
    define src where "src = src_bytes mem (unat m)"
    have fits: "src_fits mem (unat m)" using less.prems(4) ch(3) by (auto simp: src_fits_def split: option.splits)
    then have ls: "length src = unat m" by (simp add: src_def)
    from BufGetBlock_ok [OF ok ch(1)] obtain i c1 where
      g: "BufGetBlock dv block c = Some (Some i, c1)" and ok1: "cache_ok dv cap c1"
      and i: "i \<in> set (lru_list c1)" "bk_sector (the_blk i c1) = int (unat block)"
      and sb: "\<And>n. n < cap \<Longrightarrow> sector_bytes dv c1 n = sector_bytes dv c n"
      and cur1: "device_current dv cap c \<Longrightarrow> device_current dv cap c1"
      and rest: "writethru_critical c1 = writethru_critical c" "writeback_delay c1 = writeback_delay c"
        "buffer_cnt c1 = buffer_cnt c" by metis
    have mem: "bk_mem (the_blk i c1) = sector_bytes dv c (unat block)"
      using sector_bytes_cached [of c1 i "unat block" dv] i ok1 sb [OF ch(1)] by (simp add: cache_ok_def)
    have len: "length (bk_mem (the_blk i c1)) = 512"
      unfolding mem by (rule length_sector_bytes [OF ok ch(1)])
    have st: "store src (unat off) (bk_mem (the_blk i c1)) =
        Some (splice (unat off) src (sector_bytes dv c (unat block)))"
      using len ls ch(2) by (simp add: store_def mem)
    define new where "new = splice (unat off) src (sector_bytes dv c (unat block))"
    have ln: "length new = 512" using len ls ch(2) by (simp add: new_def mem)
    have md: "and mode BUF_IMMED = 0 \<or> writethru_critical c1 \<noteq> 0"
      using less.prems(5) rest(1) by simp
    obtain c2 where
      p: "BufPutBlock dv i mode (upd_blk i (\<lambda>b. b\<lparr>bk_mem := new\<rparr>) c1) = Some (True, c2)"
      and ok2: "cache_ok dv cap c2"
      and sb2: "\<And>n. n < cap \<Longrightarrow> sector_bytes dv c2 n = (if n = unat block then new else sector_bytes dv c1 n)"
      and cur2: "writeback_delay c1 = 0 \<Longrightarrow> device_current dv cap c1 \<Longrightarrow> device_current dv cap c2"
      and rest2: "writethru_critical c2 = writethru_critical c1" "writeback_delay c2 = writeback_delay c1"
        "buffer_cnt c2 = buffer_cnt c1" by (rule BufPutBlock_ok [OF ok1 i ln md]) (rule that; blast)
    have db: "disk_byte dv cap c2 = wr_bytes (pos_of block off) src (disk_byte dv cap c)"
      unfolding pos_of_def using ls ch(2) sb sb2
      by (intro wr_sector [OF ok ch(1)]) (simp_all add: new_def)
    define mem' where "mem' = map_option (drop (unat m)) mem"
    have fits': "src_fits mem' (unat (n - m))"
      unfolding mem'_def ch(5) by (rule src_fits_drop [OF less.prems(4)])
    have "\<exists>c'. BufWriteBlocks dv mem' (block + 1) 0 (n - m) mode c2 = Some (0, c') \<and> cache_ok dv cap c' \<and>
        disk_byte dv cap c' = wr_bytes (pos_of block off + unat m) (src_bytes mem' (unat n - unat m))
          (disk_byte dv cap c2) \<and> cache_rest c' = cache_rest c2 \<and>
        (writeback_delay c2 = 0 \<longrightarrow> device_current dv cap c2 \<longrightarrow> device_current dv cap c')"
    proof (cases "n - m = 0")
      case True
      with ch(5) have "unat n - unat m = 0" by simp
      with True ok2 fits' show ?thesis
        using length_src_bytes [OF fits'] by (simp add: BufWriteBlocks.simps)
    next
      case False
      note q = ch(6) [OF False]
      have "unat (n - m) < unat n" using ch(3-5) by simp
      moreover have "pos_of (block + 1) 0 + unat (n - m) \<le> cap * 512"
        using less.prems(3) ch(3,5) q by simp
      ultimately show ?thesis
        using less.hyps [of "n - m" c2 0 "block + 1" mem'] ok2 fits' less.prems(5) ch(5) q rest(1) rest2(1)
        by simp
    qed
    then obtain c' where c': "BufWriteBlocks dv mem' (block + 1) 0 (n - m) mode c2 = Some (0, c')"
        "cache_ok dv cap c'"
        "disk_byte dv cap c' = wr_bytes (pos_of block off + unat m) (src_bytes mem' (unat n - unat m))
          (disk_byte dv cap c2)" "cache_rest c' = cache_rest c2"
        "writeback_delay c2 = 0 \<longrightarrow> device_current dv cap c2 \<longrightarrow> device_current dv cap c'" by blast
    have src: "(case mem of None \<Rightarrow> Some (replicate (unat m) 0)
        | Some a \<Rightarrow> if length a < unat m then None else Some (take (unat m) a)) = Some src"
      using fits by (auto simp: src_def src_bytes_def src_fits_def split: option.splits)
    have "BufWriteBlocks dv mem block off n mode c = Some (0, c')"
      using False g st src p c'(1)
      by (subst BufWriteBlocks.simps)
        (simp add: cache_block [OF ok] Let_def new_def mem'_def flip: m_def)
    moreover have "disk_byte dv cap c' =
        wr_bytes (pos_of block off) (src_bytes mem (unat n)) (disk_byte dv cap c)"
      using wr_bytes_append [of "pos_of block off" src "src_bytes mem' (unat n - unat m)" "disk_byte dv cap c"]
        src_bytes_split [OF less.prems(4) ch(3)] ls
      unfolding c'(3) db by (simp add: src_def mem'_def)
    ultimately show ?thesis using c'(2,4,5) rest rest2 cur1 cur2 by (simp add: cache_rest_def)
  qed
qed

text \<open>The sector cache keeps the interface of a store of bytes, for the mode the callers use.\<close>

interpretation cache_store: byte_store "cache_ok dv cap" "disk_byte dv cap" "cap * 512" cache_rest
    "BufReadBlocks dv" "\<lambda>mem sector off n. BufWriteBlocks dv mem sector off n 0"
  for dv :: "'d block_device" and cap :: nat
proof unfold_locales
  fix c :: "'d fat_cache" and off sector n :: u32
  assume "cache_ok dv cap c" "off < 512" "pos_of sector off + unat n \<le> cap * 512"
  note a = this
  from BufReadBlocks_ok [OF a] obtain c' where "BufReadBlocks dv sector off n c =
      Some (0, rd_bytes (pos_of sector off) (unat n) (disk_byte dv cap c), c')"
    "cache_ok dv cap c'" "disk_byte dv cap c' = disk_byte dv cap c" "cache_rest c' = cache_rest c" by blast
  then show "\<exists>c'. BufReadBlocks dv sector off n c =
      Some (0, rd_bytes (pos_of sector off) (unat n) (disk_byte dv cap c), c') \<and>
    cache_ok dv cap c' \<and> disk_byte dv cap c' = disk_byte dv cap c \<and> cache_rest c' = cache_rest c"
    by simp
  fix mem assume "src_fits mem (unat n)"
  from BufWriteBlocks_ok [OF a this, of 0] show "\<exists>c'. BufWriteBlocks dv mem sector off n 0 c = Some (0, c') \<and>
    cache_ok dv cap c' \<and>
    disk_byte dv cap c' = wr_bytes (pos_of sector off) (src_bytes mem (unat n)) (disk_byte dv cap c) \<and>
    cache_rest c' = cache_rest c" by auto
qed



section \<open>A new cache, and flushing\<close>

lemma CreateCache_ok:
  assumes "device_contract dv cap" and "cnt \<noteq> 0" and "length mem = unat cnt * 512"
  obtains c where "CreateCache (Some mem) cnt 512 st en wt wb mx d = Some c" "cache_ok dv cap c"
    "\<And>n. sector_bytes dv c n = dv_read dv d (n * 512)" "device_current dv cap c"
    "cache_rest c = (wt, wb, cnt)"
proof -
  obtain c where c: "CreateCache (Some mem) cnt 512 st en wt wb mx d = Some c"
    using assms(2) by (simp add: CreateCache_def)
  have f: "lru_list c = []" "free_list c = [0..<unat cnt]" "dirty_list c = []"
    "hash_list c = replicate 64 []" "length (blk_table c) = unat cnt" "blk_size c = 512" "media c = d"
    "cache_rest c = (wt, wb, cnt)"
    and tab: "blk_table c = map (\<lambda>t. \<lparr>bk_sector = - 1, bk_dirty = False,
        bk_mem = slice (t * 512) 512 mem, bk_in_use = False\<rparr>) [0..<unat cnt]"
    using c assms(2) by (auto simp: CreateCache_def cache_rest_def)
  have "length (bk_mem b) = 512" if "b \<in> set (blk_table c)" for b
    using that assms(3) unfolding tab by auto
  moreover have "lists_ok c"
    using assms(2) unfolding lists_ok_def f by (auto simp: unat_gt_0 atLeast0LessThan)
  ultimately have "cache_ok dv cap c"
    using assms(1) by (simp add: cache_ok_def data_ok_def f)
  moreover have view: "sector_bytes dv c n = dv_read dv d (n * 512)" for n
    using sector_bytes_device [of c n dv] by (simp add: f)
  moreover have "device_current dv cap c" by (simp add: device_current_def view f)
  ultimately show ?thesis using c f(8) that by blast
qed

lemma clean_device_current:
  assumes ok: "cache_ok dv cap c" and "dirty_list c = []"
  shows "device_current dv cap c"
  unfolding device_current_def
proof (intro allI impI)
  fix n assume n: "n < cap"
  from ok have l: "lists_ok c" and d: "data_ok dv cap c" by (simp_all add: cache_ok_def)
  show "dv_read dv (media c) (n * 512) = sector_bytes dv c n"
  proof (cases "\<exists>j \<in> set (lru_list c). bk_sector (the_blk j c) = int n")
    case True
    then obtain j where j: "j \<in> set (lru_list c)" "bk_sector (the_blk j c) = int n" by blast
    have "\<not> bk_dirty (the_blk j c)" using l j(1) assms(2) by (auto simp: lists_ok_def)
    with d j have "bk_mem (the_blk j c) = dv_read dv (media c) (n * 512)" by (auto simp: data_ok_def)
    with sector_bytes_cached [OF l j] show ?thesis by simp
  next
    case False
    then show ?thesis by (intro sector_bytes_device [symmetric]) auto
  qed
qed

lemma sync_blks_ok:
  "cache_ok dv cap c \<Longrightarrow> dirty_list c = l \<Longrightarrow>
   \<exists>c'. sync_blks dv l c = Some c' \<and> cache_ok dv cap c' \<and> dirty_list c' = [] \<and>
     disk_byte dv cap c' = disk_byte dv cap c \<and> cache_rest c' = cache_rest c"
proof (induction l arbitrary: c)
  case Nil
  then show ?case by simp
next
  case (Cons i l)
  note ok = Cons.prems(1)
  from ok have ls: "lists_ok c" and d: "data_ok dv cap c" by (simp_all add: cache_ok_def)
  from ls Cons.prems(2) have i: "i \<in> set (lru_list c)" "distinct (i # l)" "distinct (lru_list c)"
    by (auto simp: lists_ok_def)
  have ib: "i < length (blk_table c)" by (rule lru_bound [OF ls i(1)])
  define sec where "sec = nat (bk_sector (the_blk i c))"
  have sec: "bk_sector (the_blk i c) = int sec" using d i(1) by (auto simp: data_ok_def sec_def)
  have m: "length (bk_mem (the_blk i c)) = 512" by (rule length_mem [OF d ib])
  define c1 where "c1 = c\<lparr>blk_table := (blk_table c)[i := (the_blk i c)\<lparr>bk_dirty := False\<rparr>],
    dirty_list := l, media := dv_write dv (sec * 512) (bk_mem (the_blk i c)) (media c)\<rparr>"
  have eq: "sync_blks dv (i # l) c = sync_blks dv l c1"
    using ib sec m by (simp add: Let_def upd_blk_def the_blk_def BufWriteSector_def c1_def)
  have b: "b\<lparr>bk_mem := bk_mem b, bk_dirty := x\<rparr> = b\<lparr>bk_dirty := x\<rparr>" for b x by (cases b) simp
  have f: "blk_table c1 = (blk_table c)[i := (the_blk i c)\<lparr>bk_mem := bk_mem (the_blk i c), bk_dirty := False\<rparr>]"
    "set (lru_list c1) = set (lru_list c)" "distinct (lru_list c1)" "free_list c1 = free_list c"
    "hash_list c1 = hash_list c" "blk_size c1 = blk_size c" "dirty_list c1 = l" "cache_rest c1 = cache_rest c"
    "media c1 = (if True then dv_write dv (sec * 512) (bk_mem (the_blk i c)) (media c) else media c)"
    using i(3) by (simp_all add: c1_def b cache_rest_def)
  have dl: "distinct (dirty_list c1)" "set (dirty_list c1) =
      (if False then insert i (set (dirty_list c)) else set (dirty_list c) - {i})"
    using i(2) Cons.prems(2) by (auto simp: f)
  note mod = modify_blk_ok [OF ok i(1) sec m f(2,3,1,4-6) dl f(9)]
  have ok1: "cache_ok dv cap c1" by (rule mod(1)) simp
  have "sector_bytes dv c1 n = sector_bytes dv c n" if "n < cap" for n
    using mod(2) [OF _ that] sector_bytes_cached [OF ls i(1) sec, of dv] by simp
  then have "disk_byte dv cap c1 = disk_byte dv cap c" by (rule disk_byte_cong)
  with Cons.IH [OF ok1 f(7)] show ?case unfolding eq f(8) by simp
qed

end
