(* ===== verification/FatStore.thy ===== *)
theory FatStore
  imports FatCache
begin

text \<open>
  What the rest of fatfs gets from its sector cache: runs of operations compared with a plain store
  of bytes, when the device is up to date, and the sectors of a partition as a store of their own.
\<close>

section \<open>Runs of the cache\<close>

datatype cache_op =
    CacheRead u32 u32 u32
  | CacheWrite "bytes option" u32 u32 u32
  | CacheSync

text \<open>An operation inside a device of \<open>cap\<close> sectors.\<close>

fun op_fits :: "nat \<Rightarrow> cache_op \<Rightarrow> bool" where
  "op_fits cap (CacheRead sector off n) \<longleftrightarrow> off < 512 \<and> pos_of sector off + unat n \<le> cap * 512"
| "op_fits cap (CacheWrite mem sector off n) \<longleftrightarrow>
     off < 512 \<and> pos_of sector off + unat n \<le> cap * 512 \<and> src_fits mem (unat n)"
| "op_fits cap CacheSync \<longleftrightarrow> True"

text \<open>The code's side of a run: the statuses and the bytes read, and the cache after it.\<close>

fun cache_step :: "'d block_device \<Rightarrow> cache_op \<Rightarrow> 'd fat_cache \<Rightarrow> ((int \<times> bytes) \<times> 'd fat_cache) option" where
  "cache_step dv (CacheRead sector off n) c = do {
     (rc, bs, c) \<leftarrow> BufReadBlocks dv sector off n c;
     Some ((rc, bs), c)
   }"
| "cache_step dv (CacheWrite mem sector off n) c = do {
     (rc, c) \<leftarrow> BufWriteBlocks dv mem sector off n 0 c;
     Some ((rc, []), c)
   }"
| "cache_step dv CacheSync c = do { c \<leftarrow> SyncCache dv c; Some ((0, []), c) }"

fun cache_run :: "'d block_device \<Rightarrow> cache_op list \<Rightarrow> 'd fat_cache \<Rightarrow> ((int \<times> bytes) list \<times> 'd fat_cache) option" where
  "cache_run dv [] c = Some ([], c)"
| "cache_run dv (p # ps) c = do {
     (out, c) \<leftarrow> cache_step dv p c;
     (outs, c) \<leftarrow> cache_run dv ps c;
     Some (out # outs, c)
   }"

text \<open>The abstract side: a function from addresses to bytes.\<close>

fun flat_step :: "cache_op \<Rightarrow> (nat \<Rightarrow> byte) \<Rightarrow> (int \<times> bytes) \<times> (nat \<Rightarrow> byte)" where
  "flat_step (CacheRead sector off n) f = ((0, rd_bytes (pos_of sector off) (unat n) f), f)"
| "flat_step (CacheWrite mem sector off n) f =
     ((0, []), wr_bytes (pos_of sector off) (src_bytes mem (unat n)) f)"
| "flat_step CacheSync f = ((0, []), f)"

fun flat_run :: "cache_op list \<Rightarrow> (nat \<Rightarrow> byte) \<Rightarrow> (int \<times> bytes) list \<times> (nat \<Rightarrow> byte)" where
  "flat_run [] f = ([], f)"
| "flat_run (p # ps) f =
     (let (out, f) = flat_step p f; (outs, f) = flat_run ps f in (out # outs, f))"

lemma SyncCache_ok:
  assumes "cache_ok dv cap c"
  shows "\<exists>c'. SyncCache dv c = Some c' \<and> cache_ok dv cap c' \<and> device_current dv cap c' \<and>
    disk_byte dv cap c' = disk_byte dv cap c \<and> cache_rest c' = cache_rest c"
  using sync_blks_ok [OF assms refl] clean_device_current by (auto simp: SyncCache_def)

text \<open>Each operation simulates its abstract counterpart.\<close>

lemma cache_step_ok:
  assumes ok: "cache_ok dv cap c" and "op_fits cap p"
  obtains out c' where "cache_step dv p c = Some (out, c')" "cache_ok dv cap c'"
    "flat_step p (disk_byte dv cap c) = (out, disk_byte dv cap c')" "cache_rest c' = cache_rest c"
    "writeback_delay c = 0 \<Longrightarrow> device_current dv cap c \<Longrightarrow> device_current dv cap c'"
proof (cases p)
  case (CacheRead sector off n)
  with assms(2) have f: "off < 512" "pos_of sector off + unat n \<le> cap * 512" by simp_all
  from BufReadBlocks_ok [OF ok f] obtain c' where r:
    "BufReadBlocks dv sector off n c =
       Some (0, rd_bytes (pos_of sector off) (unat n) (disk_byte dv cap c), c')"
    "cache_ok dv cap c'" "disk_byte dv cap c' = disk_byte dv cap c" "cache_rest c' = cache_rest c"
    "device_current dv cap c \<longrightarrow> device_current dv cap c'" by blast
  show ?thesis
    by (rule that [of "(0, rd_bytes (pos_of sector off) (unat n) (disk_byte dv cap c))" c'])
      (use CacheRead r in simp_all)
next
  case (CacheWrite mem sector off n)
  with assms(2) have f: "off < 512" "pos_of sector off + unat n \<le> cap * 512" "src_fits mem (unat n)"
    by simp_all
  from BufWriteBlocks_ok [OF ok f, of 0] obtain c' where w:
    "BufWriteBlocks dv mem sector off n 0 c = Some (0, c')" "cache_ok dv cap c'"
    "disk_byte dv cap c' = wr_bytes (pos_of sector off) (src_bytes mem (unat n)) (disk_byte dv cap c)"
    "cache_rest c' = cache_rest c"
    "writeback_delay c = 0 \<longrightarrow> device_current dv cap c \<longrightarrow> device_current dv cap c'" by auto
  show ?thesis by (rule that [of "(0, [])" c']) (use CacheWrite w in simp_all)
next
  case CacheSync
  from SyncCache_ok [OF ok] obtain c' where y:
    "SyncCache dv c = Some c'" "cache_ok dv cap c'" "device_current dv cap c'"
    "disk_byte dv cap c' = disk_byte dv cap c" "cache_rest c' = cache_rest c" by blast
  show ?thesis by (rule that [of "(0, [])" c']) (use CacheSync y in simp_all)
qed

lemma cache_run_ok:
  "cache_ok dv cap c \<Longrightarrow> list_all (op_fits cap) ps \<Longrightarrow>
   \<exists>outs c'. cache_run dv ps c = Some (outs, c') \<and> cache_ok dv cap c' \<and>
     flat_run ps (disk_byte dv cap c) = (outs, disk_byte dv cap c') \<and> cache_rest c' = cache_rest c \<and>
     (writeback_delay c = 0 \<longrightarrow> device_current dv cap c \<longrightarrow> device_current dv cap c')"
proof (induction ps arbitrary: c)
  case Nil
  then show ?case by simp
next
  case (Cons p ps)
  from cache_step_ok [OF Cons.prems(1), of p] Cons.prems(2) obtain out c1 where
    s: "cache_step dv p c = Some (out, c1)" "cache_ok dv cap c1"
      "flat_step p (disk_byte dv cap c) = (out, disk_byte dv cap c1)" "cache_rest c1 = cache_rest c"
      "writeback_delay c = 0 \<Longrightarrow> device_current dv cap c \<Longrightarrow> device_current dv cap c1" by auto
  from Cons.IH [OF s(2)] Cons.prems(2) obtain outs c2 where
    "cache_run dv ps c1 = Some (outs, c2)" "cache_ok dv cap c2"
      "flat_run ps (disk_byte dv cap c1) = (outs, disk_byte dv cap c2)" "cache_rest c2 = cache_rest c1"
      "writeback_delay c1 = 0 \<longrightarrow> device_current dv cap c1 \<longrightarrow> device_current dv cap c2" by auto
  with s show ?case by (auto simp: cache_rest_def)
qed

text \<open>What the device itself holds.\<close>

definition device_byte :: "'d block_device \<Rightarrow> nat \<Rightarrow> 'd \<Rightarrow> nat \<Rightarrow> byte" where
  "device_byte dv cap d a = (if a < cap * 512 then dv_read dv d (a div 512 * 512) ! (a mod 512) else 0)"

lemma device_current_byte:
  "device_current dv cap c \<Longrightarrow> device_byte dv cap (media c) = disk_byte dv cap c"
  by (rule ext) (simp add: device_byte_def disk_byte_def device_current_def less_mult_imp_div_less)

text \<open>A device in memory, for the witnesses: 128 sectors, at first all zero.\<close>

definition memory_device :: "(nat \<Rightarrow> byte) block_device" where
  "memory_device = \<lparr>dv_read = \<lambda>d pos. rd_bytes pos 512 d, dv_write = wr_bytes\<rparr>"

lemma memory_device_contract: "device_contract memory_device 128"
  by (auto simp: device_contract_def memory_device_def intro: rd_wr_other)

definition memory_cache :: "u32 \<Rightarrow> (nat \<Rightarrow> byte) fat_cache" where
  "memory_cache wb = the (CreateCache (Some (replicate 32768 0)) 64 512 0 0 1 wb 512 (\<lambda>_. 0))"

lemma memory_cache_eq:
  "CreateCache (Some (replicate 32768 0)) 64 512 0 0 1 wb 512 (\<lambda>_. 0) = Some (memory_cache wb)"
  by (simp add: memory_cache_def CreateCache_def)

lemma memory_cache_ok: "cache_ok memory_device 128 (memory_cache wb)"
proof -
  from CreateCache_ok [OF memory_device_contract, of 64 "replicate 32768 0" 0 0 1 wb 512 "\<lambda>_. 0"]
  show ?thesis by (simp add: memory_cache_eq)
qed

text \<open>C28.
  The sector cache is invisible: any sequence of reads, writes and flushes that stays on the device
  runs to its end from a new cache, reports success, and reads exactly the bytes that a plain array
  of bytes, at first the contents of the device, would give.
\<close>

theorem cache_refines_bytes:
  assumes "device_contract dv cap" and "cnt \<noteq> 0" and "length mem = unat cnt * 512"
    and "CreateCache (Some mem) cnt 512 st en wt wb mx d = Some c" and "list_all (op_fits cap) ps"
  shows "\<exists>outs c'. cache_run dv ps c = Some (outs, c') \<and>
    flat_run ps (device_byte dv cap d) = (outs, disk_byte dv cap c')"
proof -
  from CreateCache_ok [OF assms(1-3), of st en wt wb mx d] assms(4) have
    "cache_ok dv cap c" "\<And>n. sector_bytes dv c n = dv_read dv d (n * 512)" by auto
  moreover from this(2) have "disk_byte dv cap c = device_byte dv cap d"
    by (intro ext) (simp add: disk_byte_def device_byte_def)
  ultimately show ?thesis using cache_run_ok [of dv cap c ps] assms(5) by auto
qed

lemma cache_refines_bytes_witness:
  "\<exists>outs c'. cache_run memory_device
       [CacheWrite (Some [1, 2, 3]) 1 511 3, CacheRead 2 0 2, CacheSync] (memory_cache 0) = Some (outs, c') \<and>
     flat_run [CacheWrite (Some [1, 2, 3]) 1 511 3, CacheRead 2 0 2, CacheSync]
       (device_byte memory_device 128 (\<lambda>_. 0)) = (outs, disk_byte memory_device 128 c')"
  by (rule cache_refines_bytes [OF memory_device_contract _ _ memory_cache_eq]) (simp_all add: pos_of_def)

text \<open>C32.
  With the parameters \<open>init\<close> gives to \<open>CreateCache\<close> nothing is ever lost by a crash: after any
  sequence of reads, writes and flushes the device itself holds the bytes that were written.
\<close>

theorem init_cache_writes_through:
  assumes "device_contract dv cap" and "length mem = 32768" and "list_all (op_fits cap) ps"
    and "CreateCache (Some mem) 64 512 0 0 1 0 512 d = Some c" and "cache_run dv ps c = Some (outs, c')"
  shows "device_byte dv cap (media c') = snd (flat_run ps (device_byte dv cap d))"
proof -
  from CreateCache_ok [OF assms(1), of 64 mem 0 0 1 0 512 d] assms(2,4) have
    c: "cache_ok dv cap c" "\<And>n. sector_bytes dv c n = dv_read dv d (n * 512)"
      "device_current dv cap c" "cache_rest c = (1, 0, 64)" by auto
  from c(2) have "disk_byte dv cap c = device_byte dv cap d"
    by (intro ext) (simp add: disk_byte_def device_byte_def)
  with cache_run_ok [OF c(1) assms(3)] c(3,4) assms(5) device_current_byte [of dv cap c'] show ?thesis
    by (auto simp: cache_rest_def)
qed

lemma init_cache_writes_through_witness:
  "\<exists>outs c'. cache_run memory_device [CacheWrite (Some [1, 2, 3]) 1 511 3] (memory_cache 0) = Some (outs, c') \<and>
     device_byte memory_device 128 (media c') =
       snd (flat_run [CacheWrite (Some [1, 2, 3]) 1 511 3] (device_byte memory_device 128 (\<lambda>_. 0)))"
proof -
  have fits: "list_all (op_fits 128) [CacheWrite (Some [1, 2, 3]) 1 511 3]" by (simp add: pos_of_def)
  from cache_run_ok [OF memory_cache_ok this] obtain outs c' where
    r: "cache_run memory_device [CacheWrite (Some [1, 2, 3]) 1 511 3] (memory_cache 0) = Some (outs, c')"
    by blast
  from init_cache_writes_through [OF memory_device_contract _ fits memory_cache_eq r] r show ?thesis by simp
qed

text \<open>C33.
  With any other parameters a flush makes up for it: after \<open>SyncCache\<close>, which always returns, the
  device holds what the cache stands for, and the cache stands for the same bytes as before.
\<close>

theorem sync_makes_device_current:
  assumes "cache_ok dv cap c"
  shows "\<exists>c'. SyncCache dv c = Some c' \<and> device_byte dv cap (media c') = disk_byte dv cap c \<and>
    disk_byte dv cap c' = disk_byte dv cap c"
  using SyncCache_ok [OF assms] device_current_byte [of dv cap] by metis


lemma sync_makes_device_current_witness:
  "\<exists>outs c c'. cache_run memory_device [CacheWrite (Some [7]) 3 0 1] (memory_cache 5) = Some (outs, c) \<and>
     SyncCache memory_device c = Some c' \<and>
     device_byte memory_device 128 (media c') = disk_byte memory_device 128 c"
proof -
  have fits: "list_all (op_fits 128) [CacheWrite (Some [7]) 3 0 1]" by (simp add: pos_of_def)
  from cache_run_ok [OF memory_cache_ok this] obtain outs c where
    r: "cache_run memory_device [CacheWrite (Some [7]) 3 0 1] (memory_cache 5) = Some (outs, c)"
    "cache_ok memory_device 128 c" by blast
  from sync_makes_device_current [OF r(2)] r(1) show ?thesis by blast
qed


section \<open>The sectors of a partition\<close>

text \<open>
  The partition of \<open>psz\<close> sectors at \<open>fsb.partition_start\<close>, whose sectors \<open>readSector\<close> and
  \<open>writeSector\<close> count from 0.
\<close>

definition part_ok :: "'d block_device \<Rightarrow> nat \<Rightarrow> nat \<Rightarrow> 'd fat_state \<Rightarrow> bool" where
  "part_ok dv cap psz s \<longleftrightarrow>
     cache_ok dv cap (block_cache s) \<and> unat (partition_start (fsb s)) + psz \<le> cap"

definition part_byte :: "'d block_device \<Rightarrow> nat \<Rightarrow> nat \<Rightarrow> 'd fat_state \<Rightarrow> nat \<Rightarrow> byte" where
  "part_byte dv cap psz s a =
     (if a < psz * 512 then disk_byte dv cap (block_cache s) (unat (partition_start (fsb s)) * 512 + a)
      else 0)"

definition part_rest :: "'d fat_state \<Rightarrow> bool \<times> int \<times> int \<times> bytes \<times> FatSB \<times> FatNode option list \<times> nat list \<times> u32 \<times> u32 \<times> u32" where
  "part_rest s = (fat_be s, fat_uid s, fat_gid s, write_buf s, fsb s, node_heap s, node_list s,
                  cache_rest (block_cache s))"

lemma part_pos:
  assumes "part_ok dv cap psz s" and "off < 512" and "pos_of sector off + unat n \<le> psz * 512" and "n \<noteq> 0"
  shows "pos_of (sector + partition_start (fsb s)) off = unat (partition_start (fsb s)) * 512 + pos_of sector off"
    and "pos_of (sector + partition_start (fsb s)) off + unat n \<le> cap * 512"
proof -
  from assms(1) have cap: "cap \<le> 4294967296" "unat (partition_start (fsb s)) + psz \<le> cap"
    by (simp_all add: part_ok_def cache_ok_def device_contract_def)
  have "0 < unat n" using assms(4) by (simp add: unat_gt_0)
  with assms(3) have "unat sector < psz" by (simp add: pos_of_def)
  with cap have "unat sector + unat (partition_start (fsb s)) < 4294967296" by simp
  then have "unat (sector + partition_start (fsb s)) = unat sector + unat (partition_start (fsb s))"
    by (simp add: unat_word_ariths)
  then show "pos_of (sector + partition_start (fsb s)) off =
      unat (partition_start (fsb s)) * 512 + pos_of sector off" by (simp add: pos_of_def)
  with assms(3) cap(2) show "pos_of (sector + partition_start (fsb s)) off + unat n \<le> cap * 512" by simp
qed

lemma part_rd:
  assumes "part_ok dv cap psz s" and "a + n \<le> psz * 512"
  shows "rd_bytes (unat (partition_start (fsb s)) * 512 + a) n (disk_byte dv cap (block_cache s)) =
    rd_bytes a n (part_byte dv cap psz s)"
  using assms by (intro nth_equalityI) (simp_all add: part_byte_def add.assoc)

lemma part_wr:
  assumes "disk_byte dv cap (block_cache s') =
      wr_bytes (unat (partition_start (fsb s)) * 512 + a) bs (disk_byte dv cap (block_cache s))"
    and "partition_start (fsb s') = partition_start (fsb s)" and "a + length bs \<le> psz * 512"
  shows "part_byte dv cap psz s' = wr_bytes a bs (part_byte dv cap psz s)"
  using assms by (intro ext) (auto simp: part_byte_def wr_bytes_def)

lemma readSector_ok:
  assumes "part_ok dv cap psz s" and "off < 512" and "pos_of sector off + unat n \<le> psz * 512"
  shows "\<exists>s'. readSector dv sector off n s =
      Some (0, rd_bytes (pos_of sector off) (unat n) (part_byte dv cap psz s), s') \<and>
    part_ok dv cap psz s' \<and> part_byte dv cap psz s' = part_byte dv cap psz s \<and> part_rest s' = part_rest s \<and>
    disk_byte dv cap (block_cache s') = disk_byte dv cap (block_cache s)"
proof (cases "n = 0")
  case True
  with assms(1) show ?thesis by (simp add: readSector_def BufReadBlocks.simps)
next
  case False
  note p = part_pos [OF assms False]
  from assms(1) have "cache_ok dv cap (block_cache s)" by (simp add: part_ok_def)
  from BufReadBlocks_ok [OF this assms(2) p(2)] obtain c' where
    r: "BufReadBlocks dv (sector + partition_start (fsb s)) off n (block_cache s) =
      Some (0, rd_bytes (pos_of sector off) (unat n) (part_byte dv cap psz s), c')"
    "cache_ok dv cap c'" "disk_byte dv cap c' = disk_byte dv cap (block_cache s)"
    "cache_rest c' = cache_rest (block_cache s)"
    unfolding p(1) part_rd [OF assms(1,3)] by blast
  have "part_byte dv cap psz (s\<lparr>block_cache := c'\<rparr>) = part_byte dv cap psz s"
    using r(3) by (intro ext) (simp add: part_byte_def)
  with r assms(1) show ?thesis by (simp add: readSector_def part_ok_def part_rest_def)
qed

lemma writeSector_ok:
  assumes "part_ok dv cap psz s" and "off < 512" and "pos_of sector off + unat n \<le> psz * 512"
    and "src_fits mem (unat n)"
  shows "\<exists>s'. writeSector dv mem sector off n s = Some (0, s') \<and> part_ok dv cap psz s' \<and>
    part_byte dv cap psz s' = wr_bytes (pos_of sector off) (src_bytes mem (unat n)) (part_byte dv cap psz s) \<and>
    part_rest s' = part_rest s \<and>
    disk_byte dv cap (block_cache s') = wr_bytes (unat (partition_start (fsb s)) * 512 + pos_of sector off)
      (src_bytes mem (unat n)) (disk_byte dv cap (block_cache s))"
proof (cases "n = 0")
  case True
  with assms(1) show ?thesis by (simp add: writeSector_def BufWriteBlocks.simps)
next
  case False
  note p = part_pos [OF assms(1-3) False]
  from assms(1) have "cache_ok dv cap (block_cache s)" by (simp add: part_ok_def)
  from BufWriteBlocks_ok [OF this assms(2) p(2) assms(4), of 0] obtain c' where
    w: "BufWriteBlocks dv mem (sector + partition_start (fsb s)) off n 0 (block_cache s) = Some (0, c')"
    "cache_ok dv cap c'"
    "disk_byte dv cap c' = wr_bytes (unat (partition_start (fsb s)) * 512 + pos_of sector off)
       (src_bytes mem (unat n)) (disk_byte dv cap (block_cache s))"
    "cache_rest c' = cache_rest (block_cache s)"
    unfolding p(1) by auto
  have "part_byte dv cap psz (s\<lparr>block_cache := c'\<rparr>) =
      wr_bytes (pos_of sector off) (src_bytes mem (unat n)) (part_byte dv cap psz s)"
    using w(3) assms(3,4) by (intro part_wr) simp_all
  with w assms(1) show ?thesis by (simp add: writeSector_def part_ok_def part_rest_def)
qed

interpretation part_store: byte_store "part_ok dv cap psz" "part_byte dv cap psz" "psz * 512" part_rest
    "readSector dv" "writeSector dv"
  for dv :: "'d block_device" and cap psz :: nat
proof unfold_locales
  fix s :: "'d fat_state" and off sector n :: u32
  assume a: "part_ok dv cap psz s" "off < 512" "pos_of sector off + unat n \<le> psz * 512"
  from readSector_ok [OF a] show "\<exists>s'. readSector dv sector off n s =
      Some (0, rd_bytes (pos_of sector off) (unat n) (part_byte dv cap psz s), s') \<and>
    part_ok dv cap psz s' \<and> part_byte dv cap psz s' = part_byte dv cap psz s \<and> part_rest s' = part_rest s"
    by blast
  fix mem assume "src_fits mem (unat n)"
  from writeSector_ok [OF a this] show "\<exists>s'. writeSector dv mem sector off n s = Some (0, s') \<and>
    part_ok dv cap psz s' \<and> part_byte dv cap psz s' =
      wr_bytes (pos_of sector off) (src_bytes mem (unat n)) (part_byte dv cap psz s) \<and>
    part_rest s' = part_rest s" by blast
qed

text \<open>C34.
  A write through \<open>writeSector\<close> inside the partition succeeds, a \<open>readSector\<close> then delivers the bytes
  written, and no byte of the device outside the partition changes: the neighbouring partitions and
  the partition table are safe.
\<close>

theorem writeSector_stays_in_partition:
  assumes "part_ok dv cap psz s" and "off < 512" and "pos_of sector off + unat n \<le> psz * 512"
    and "length bs = unat n"
  shows "\<exists>s' s''. writeSector dv (Some bs) sector off n s = Some (0, s') \<and>
    readSector dv sector off n s' = Some (0, bs, s'') \<and>
    (\<forall>a. a < unat (partition_start (fsb s)) * 512 \<or> (unat (partition_start (fsb s)) + psz) * 512 \<le> a \<longrightarrow>
       disk_byte dv cap (block_cache s') a = disk_byte dv cap (block_cache s) a)"
proof -
  from writeSector_ok [OF assms(1-3), of "Some bs"] assms(4) obtain s' where
    w: "writeSector dv (Some bs) sector off n s = Some (0, s')"
    "disk_byte dv cap (block_cache s') = wr_bytes (unat (partition_start (fsb s)) * 512 + pos_of sector off)
      bs (disk_byte dv cap (block_cache s))" by auto
  obtain s'' where "readSector dv sector off n s' = Some (0, bs, s'')"
    using part_store.write_read_same [OF assms] w(1) by (metis Pair_inject option.inject)
  moreover have "disk_byte dv cap (block_cache s') a = disk_byte dv cap (block_cache s) a"
    if "a < unat (partition_start (fsb s)) * 512 \<or> (unat (partition_start (fsb s)) + psz) * 512 \<le> a" for a
    unfolding w(2) using that assms(3,4) by (intro wr_bytes_other) auto
  ultimately show ?thesis using w(1) by blast
qed


definition demo_partition :: "(nat \<Rightarrow> byte) fat_state" where
  "demo_partition = (fat_globals False (memory_cache 0))\<lparr>fsb := zero_fatsb\<lparr>partition_start := 2\<rparr>\<rparr>"

lemma writeSector_stays_in_partition_witness:
  "\<exists>s' s''. writeSector memory_device (Some [1, 2, 3]) 0 511 3 demo_partition = Some (0, s') \<and>
     readSector memory_device 0 511 3 s' = Some (0, [1, 2, 3], s'') \<and>
     disk_byte memory_device 128 (block_cache s') 446 = disk_byte memory_device 128 (block_cache demo_partition) 446"
proof -
  have "part_ok memory_device 128 100 demo_partition" and st: "partition_start (fsb demo_partition) = 2"
    by (simp_all add: part_ok_def demo_partition_def fat_globals_def memory_cache_ok)
  from writeSector_stays_in_partition [OF this(1), of 511 0 3 "[1, 2, 3]"] st show ?thesis
    by (force simp: pos_of_def)
qed

end
