(* ===== verification/FatTable.thy ===== *)
theory FatTable
  imports FatStore FatNode
begin

text \<open>
  The file allocation table as a function from clusters to entries: what \<open>ReadFATEntry\<close> and
  \<open>WriteFATEntry\<close> do to it for the three FAT types.
\<close>

section \<open>Where the table lies\<close>

definition fat_off :: "fat_type \<Rightarrow> nat \<Rightarrow> nat" where
  "fat_off ty cl = (case ty of TYPE_FAT12 \<Rightarrow> cl + cl div 2 | TYPE_FAT16 \<Rightarrow> cl * 2 | TYPE_FAT32 \<Rightarrow> cl * 4)"

definition fat_width :: "fat_type \<Rightarrow> nat" where
  "fat_width ty = (case ty of TYPE_FAT32 \<Rightarrow> 4 | _ \<Rightarrow> 2)"

definition fat_sectors :: "FatSB \<Rightarrow> nat" where
  "fat_sectors sb = (case sb_fat_type sb of TYPE_FAT32 \<Rightarrow> unat (sectors_per_fat32 (bpb32 sb))
                     | _ \<Rightarrow> unat (sectors_per_fat16 (bpb sb)))"

definition fat_start :: "FatSB \<Rightarrow> nat \<Rightarrow> nat" where
  "fat_start sb f = (unat (reserved_sectors_cnt (bpb sb)) + f * fat_sectors sb) * 512"

definition fat_end :: "FatSB \<Rightarrow> nat" where
  "fat_end sb = fat_start sb (unat (fat_cnt (bpb sb)))"

text \<open>The copies of the table lie in the partition; a cluster has an entry in each.\<close>

definition fat_geom :: "nat \<Rightarrow> FatSB \<Rightarrow> bool" where
  "fat_geom psz sb \<longleftrightarrow> fat_cnt (bpb sb) \<noteq> 0 \<and> fat_end sb \<le> psz * 512 \<and> psz \<le> 4294967296"

definition has_entry :: "FatSB \<Rightarrow> u32 \<Rightarrow> bool" where
  "has_entry sb cl \<longleftrightarrow>
     fat_off (sb_fat_type sb) (unat cl) + fat_width (sb_fat_type sb) \<le> fat_sectors sb * 512 \<and>
     fat_off (sb_fat_type sb) (unat cl) < 4294967296"

definition entry_pos :: "FatSB \<Rightarrow> nat \<Rightarrow> u32 \<Rightarrow> nat" where
  "entry_pos sb f cl = fat_start sb f + fat_off (sb_fat_type sb) (unat cl)"

lemma word_of_nat_offset:
  fixes r :: u16 and o' spf :: u32
  assumes "unat r + unat o' div 512 + f * unat spf < 4294967296"
  shows "unat (ucast r + o' div 512 + word_of_nat f * spf) = unat r + unat o' div 512 + f * unat spf"
proof -
  have "ucast r + o' div 512 + word_of_nat f * spf =
      (word_of_nat (unat r + unat o' div 512 + f * unat spf) :: u32)"
    by (simp add: word_arith_nat_div)
  with assms show ?thesis by (simp only: unat_word_of_nat32)
qed

lemma fat_offset_word:
  assumes "has_entry sb cl"
  defines "ty \<equiv> sb_fat_type sb"
  shows "unat (case ty of TYPE_FAT12 \<Rightarrow> cl + cl div 2 | TYPE_FAT16 \<Rightarrow> cl * 2 | TYPE_FAT32 \<Rightarrow> cl * 4) =
    fat_off ty (unat cl)"
proof -
  have lt: "fat_off ty (unat cl) < 4294967296" using assms by (simp add: has_entry_def ty_def)
  show ?thesis
  proof (cases ty)
    case TYPE_FAT12
    with lt show ?thesis by (simp add: fat_off_def unat_word_ariths unat_div)
  next
    case TYPE_FAT16
    with lt show ?thesis by (simp add: fat_off_def unat_word_ariths)
  next
    case TYPE_FAT32
    with lt show ?thesis by (simp add: fat_off_def unat_word_ariths)
  qed
qed

lemma fat_sectors_word:
  "unat (case sb_fat_type sb of TYPE_FAT32 \<Rightarrow> sectors_per_fat32 (bpb32 sb)
         | _ \<Rightarrow> (ucast (sectors_per_fat16 (bpb sb)) :: u32)) = fat_sectors sb"
  by (cases "sb_fat_type sb") (simp_all add: fat_sectors_def)

lemma copy_end:
  assumes "f < unat (fat_cnt (bpb sb))"
  shows "fat_start sb f + fat_sectors sb * 512 \<le> fat_end sb"
proof -
  from assms have "Suc f * fat_sectors sb \<le> unat (fat_cnt (bpb sb)) * fat_sectors sb"
    by (intro mult_right_mono) auto
  then show ?thesis by (simp add: fat_start_def fat_end_def algebra_simps)
qed

lemma fat_location_pos:
  assumes "fat_geom psz sb" and "has_entry sb cl" and "f < unat (fat_cnt (bpb sb))"
    and "fat_location (sb_fat_type sb) cl f sb = (sector, off)"
  shows "pos_of sector off = entry_pos sb f cl" and "off < 512"
    and "pos_of sector off + fat_width (sb_fat_type sb) \<le> psz * 512"
proof -
  define ty where "ty = sb_fat_type sb"
  define ow where "ow = (case ty of TYPE_FAT12 \<Rightarrow> cl + cl div 2 | TYPE_FAT16 \<Rightarrow> cl * 2 | TYPE_FAT32 \<Rightarrow> cl * 4)"
  define sz where "sz = (case ty of TYPE_FAT32 \<Rightarrow> sectors_per_fat32 (bpb32 sb)
         | _ \<Rightarrow> (ucast (sectors_per_fat16 (bpb sb)) :: u32))"
  have so: "sector = ucast (reserved_sectors_cnt (bpb sb)) + ow div 512 + word_of_nat f * sz" "off = ow mod 512"
    using assms(4) by (simp_all add: fat_location_def Let_def ow_def sz_def ty_def)
  have o: "unat ow = fat_off ty (unat cl)"
    unfolding ow_def ty_def by (rule fat_offset_word [OF assms(2)])
  have z: "unat sz = fat_sectors sb" unfolding sz_def ty_def by (rule fat_sectors_word)
  have fit: "entry_pos sb f cl + fat_width ty \<le> psz * 512"
    using copy_end [OF assms(3)] assms(1,2)
    by (simp add: entry_pos_def fat_geom_def has_entry_def ty_def)
  have w: "0 < fat_width ty" by (simp add: fat_width_def split: fat_type.splits)
  have ep: "entry_pos sb f cl = (unat (reserved_sectors_cnt (bpb sb)) + f * unat sz) * 512 + unat ow"
    by (simp add: entry_pos_def fat_start_def z o ty_def)
  have "(unat (reserved_sectors_cnt (bpb sb)) + unat ow div 512 + f * unat sz) * 512 \<le> entry_pos sb f cl"
    unfolding ep by (simp add: algebra_simps)
  moreover have "psz \<le> 4294967296" using assms(1) by (simp add: fat_geom_def)
  moreover have "x < N" if "x * 512 \<le> e" "p \<le> N" "e + k \<le> p * 512" "0 < k" for x N e p k :: nat
    using that by linarith
  ultimately have "unat (reserved_sectors_cnt (bpb sb)) + unat ow div 512 + f * unat sz < 4294967296"
    using fit w by blast
  then have u: "unat sector = unat (reserved_sectors_cnt (bpb sb)) + unat ow div 512 + f * unat sz"
    unfolding so by (rule word_of_nat_offset)
  have m: "unat off = unat ow mod 512" unfolding so by (simp add: unat_mod)
  show p: "pos_of sector off = entry_pos sb f cl"
    unfolding pos_of_def u m ep by (simp add: algebra_simps)
  show "off < 512" using m by (simp add: word_less_nat_alt)
  show "pos_of sector off + fat_width (sb_fat_type sb) \<le> psz * 512" unfolding p using fit by (simp add: ty_def)
qed


section \<open>The table as a function\<close>

definition raw_entry :: "bool \<Rightarrow> fat_type \<Rightarrow> u32 \<Rightarrow> bytes \<Rightarrow> u32" where
  "raw_entry be ty cl bs =
     (case ty of
        TYPE_FAT12 \<Rightarrow> ucast (fat12_unpack cl (dec16 be (bs ! 0) (bs ! 1)))
      | TYPE_FAT16 \<Rightarrow> ucast (dec16 be (bs ! 0) (bs ! 1))
      | TYPE_FAT32 \<Rightarrow> dec32 be (bs ! 0) (bs ! 1) (bs ! 2) (bs ! 3))"

definition fat_entry :: "bool \<Rightarrow> FatSB \<Rightarrow> (nat \<Rightarrow> byte) \<Rightarrow> u32 \<Rightarrow> u32" where
  "fat_entry be sb f cl =
     (let ty = sb_fat_type sb
      in fat_mark ty (raw_entry be ty cl (rd_bytes (entry_pos sb 0 cl) (fat_width ty) f)))"

text \<open>The table of a state.\<close>

definition fat_table :: "'d block_device \<Rightarrow> nat \<Rightarrow> nat \<Rightarrow> 'd fat_state \<Rightarrow> u32 \<Rightarrow> u32" where
  "fat_table dv cap psz s = fat_entry (fat_be s) (fsb s) (part_byte dv cap psz s)"

definition fat_ok :: "'d block_device \<Rightarrow> nat \<Rightarrow> nat \<Rightarrow> 'd fat_state \<Rightarrow> bool" where
  "fat_ok dv cap psz s \<longleftrightarrow> part_ok dv cap psz s \<and> fat_geom psz (fsb s)"

lemma part_rest_fields:
  assumes "part_rest s' = part_rest s"
  shows "fat_be s' = fat_be s" "fsb s' = fsb s" "node_heap s' = node_heap s" "node_list s' = node_list s"
    "the_node i s' = the_node i s" "cluster_bytes s' = cluster_bytes s"
  using assms by (simp_all add: part_rest_def the_node_def cluster_bytes_def)

lemma ReadFATEntry_ok:
  assumes "fat_ok dv cap psz s" and "has_entry (fsb s) cl"
  obtains s' where "ReadFATEntry dv cl s = Some (Some (fat_table dv cap psz s cl), s')"
    "fat_ok dv cap psz s'" "part_byte dv cap psz s' = part_byte dv cap psz s" "part_rest s' = part_rest s"
proof -
  define ty where "ty = sb_fat_type (fsb s)"
  from assms(1) have po: "part_ok dv cap psz s" and g: "fat_geom psz (fsb s)" by (simp_all add: fat_ok_def)
  from g have cnt: "fat_cnt (bpb (fsb s)) \<noteq> 0" by (simp add: fat_geom_def)
  then have c0: "0 < unat (fat_cnt (bpb (fsb s)))" by (simp add: unat_gt_0)
  obtain sector off where loc: "fat_location ty cl 0 (fsb s) = (sector, off)" by fastforce
  note p = fat_location_pos [OF g assms(2) c0 loc [unfolded ty_def], folded ty_def]
  define w where "w = (case ty of TYPE_FAT32 \<Rightarrow> (4 :: u32) | _ \<Rightarrow> 2)"
  have uw: "unat w = fat_width ty" by (cases ty) (simp_all add: w_def fat_width_def)
  from readSector_ok [OF po p(2), of sector w] p(3) uw obtain s' where
    r: "readSector dv sector off w s =
        Some (0, rd_bytes (entry_pos (fsb s) 0 cl) (fat_width ty) (part_byte dv cap psz s), s')"
      "part_ok dv cap psz s'" "part_byte dv cap psz s' = part_byte dv cap psz s" "part_rest s' = part_rest s"
    unfolding p(1) uw by auto
  note be = part_rest_fields [OF r(4)]
  have "ReadFATEntry dv cl s = Some (Some (fat_table dv cap psz s cl), s')"
    using loc r(1) cnt be(1) unfolding ReadFATEntry_def fat_table_def fat_entry_def Let_def ty_def [symmetric]
    by (cases ty) (simp_all add: raw_entry_def w_def fat_width_def ld16_def ld32_def)
  moreover have "fat_ok dv cap psz s'" using r(2) g be(2) by (simp add: fat_ok_def)
  ultimately show ?thesis using r(3,4) that by blast
qed



section \<open>The bits of a FAT12 entry\<close>

unbundle bit_operations_syntax

text \<open>Two bytes as a little-endian word, bit by bit.\<close>

lemma enc16_le: "enc16 False w = [ucast w, ucast (drop_bit 8 w)]"
proof -
  have "(word_of_nat (unat w mod 256) :: byte) = ucast w"
    unfolding word_unat_eq_iff by (simp add: unsigned_ucast_eq unsigned_take_bit_eq take_bit_eq_mod unsigned_of_nat)
  moreover have "(word_of_nat (unat w div 256 mod 256) :: byte) = ucast (drop_bit 8 w)"
    unfolding word_unat_eq_iff by (simp add: unsigned_ucast_eq unsigned_take_bit_eq take_bit_eq_mod unsigned_of_nat unsigned_drop_bit_eq drop_bit_eq_div unat_div)
  ultimately show ?thesis by (simp add: enc16_def)
qed

lemma dec16_le: "dec16 False a b = (ucast a OR push_bit 8 (ucast b) :: u16)"
proof -
  have "dec16 False a b = (ucast a + push_bit 8 (ucast b) :: u16)"
    by (simp add: dec16_def push_bit_eq_mult mult.commute)
  also have "\<dots> = ucast a OR push_bit 8 (ucast b)"
    by (rule disjunctive_add) (auto simp: bit_simps dest: bit_imp_le_length)
  finally show ?thesis .
qed

lemma mask_words: "(0xFFF :: 'a::len word) = mask 12" "(0xF :: 'a::len word) = mask 4"
  "(0xFFF0 :: 'a::len word) = push_bit 4 (mask 12)" "(0xF000 :: 'a::len word) = push_bit 12 (mask 4)"
  by (simp_all add: mask_eq_exp_minus_1 push_bit_eq_mult)

lemma unpack_pack_same: "fat12_unpack cl (fat12_pack cl v w) = ucast (v AND 0xFFF)"
proof (cases "cl mod 2 = 1")
  case True
  then show ?thesis unfolding fat12_unpack_def fat12_pack_def mask_words
    by simp (rule bit_word_eqI, auto simp: bit_simps mask_words dest: bit_imp_le_length)
next
  case False
  then show ?thesis unfolding fat12_unpack_def fat12_pack_def mask_words
    by simp (rule bit_word_eqI, auto simp: bit_simps mask_words dest: bit_imp_le_length)
qed

text \<open>Entries 2k and 2k+1 share a byte.\<close>
lemma neighbour_even:
  "cl mod 2 \<noteq> 1 \<Longrightarrow> cl' mod 2 = 1 \<Longrightarrow>
   fat12_unpack cl' (dec16 False (enc16 False (fat12_pack cl v (dec16 False a b)) ! 1) c) = fat12_unpack cl' (dec16 False b c)"
  unfolding fat12_unpack_def fat12_pack_def mask_words enc16_le dec16_le
  by simp (rule bit_word_eqI, auto simp: bit_simps mask_words dest: bit_imp_le_length)

lemma neighbour_odd:
  "cl mod 2 = 1 \<Longrightarrow> cl' mod 2 \<noteq> 1 \<Longrightarrow>
   fat12_unpack cl' (dec16 False a (enc16 False (fat12_pack cl v (dec16 False b c)) ! 0)) = fat12_unpack cl' (dec16 False a b)"
  unfolding fat12_unpack_def fat12_pack_def mask_words enc16_le dec16_le
  by simp (rule bit_word_eqI, auto simp: bit_simps mask_words dest: bit_imp_le_length)

text \<open>The values an entry can hold, and the marks they are stored as.\<close>

definition fat_value :: "fat_type \<Rightarrow> u32 \<Rightarrow> bool" where
  "fat_value ty v \<longleftrightarrow> v = CLUSTER_EOC \<or> v = CLUSTER_BAD \<or>
     (case ty of TYPE_FAT12 \<Rightarrow> v \<le> 0xFF6 | TYPE_FAT16 \<Rightarrow> v \<le> 0xFFF6 | TYPE_FAT32 \<Rightarrow> v \<le> 0x0FFFFFF6)"

lemma small_and: "(v :: u32) \<le> 0xFFF \<Longrightarrow> v AND 0xFFF = v"
proof -
  assume "v \<le> 0xFFF"
  then have "unat v < 4096" by (simp add: word_le_nat_alt)
  then show ?thesis unfolding mask_words take_bit_eq_mask [symmetric] word_unat_eq_iff
    by (simp add: unsigned_take_bit_eq take_bit_eq_mod unat_mod)
qed

lemma small_ucast: "(v :: u32) \<le> 0xFFFF \<Longrightarrow> ucast (ucast v :: u16) = v"
  unfolding word_unat_eq_iff
  by (simp add: unsigned_ucast_eq unsigned_take_bit_eq take_bit_eq_mod word_le_nat_alt unat_mod)

lemma mark_unmark:
  assumes "fat_value ty v" and "ty \<noteq> TYPE_FAT32"
  shows "fat_mark ty (ucast (ucast (if ty = TYPE_FAT12 then fat_unmark ty v AND 0xFFF
                                    else fat_unmark ty v) :: u16)) = v"
proof (cases "v = CLUSTER_EOC \<or> v = CLUSTER_BAD")
  case True
  with assms(2) show ?thesis by (cases ty) (auto simp: fat_mark_def fat_unmark_def)
next
  case False
  then have u: "fat_unmark ty v = v" by (simp add: fat_unmark_def split: fat_type.splits)
  show ?thesis
  proof (cases ty)
    case TYPE_FAT12
    with assms(1) False have v: "v \<le> 0xFF6" by (simp add: fat_value_def)
    then have v': "v \<le> 0xFFF" "v \<le> 0xFFFF" "v < 0xFF7" "v \<noteq> 0xFF7" "\<not> 0xFF8 \<le> v"
      by (simp_all add: word_le_nat_alt word_less_nat_alt word_unat_eq_iff)
    with TYPE_FAT12 u show ?thesis by (simp add: small_and small_ucast fat_mark_def)
  next
    case TYPE_FAT16
    with assms(1) False have v: "v \<le> 0xFFF6" by (simp add: fat_value_def)
    then have v': "v \<le> 0xFFFF" "v \<noteq> 0xFFF7" "\<not> 0xFFF8 \<le> v"
      by (simp_all add: word_le_nat_alt word_less_nat_alt word_unat_eq_iff)
    with TYPE_FAT16 u show ?thesis by (simp add: small_ucast fat_mark_def)
  qed (use assms(2) in simp)
qed


section \<open>Writing an entry\<close>

definition new_entry :: "bool \<Rightarrow> fat_type \<Rightarrow> u32 \<Rightarrow> u32 \<Rightarrow> bytes \<Rightarrow> bytes" where
  "new_entry be ty cl v bs =
     (if ty = TYPE_FAT12 then enc16 be (fat12_pack cl (fat_unmark ty v) (dec16 be (bs ! 0) (bs ! 1)))
      else enc16 be (ucast (fat_unmark ty v)))"

lemma length_new_entry [simp]: "length (new_entry be ty cl v bs) = 2"
  by (simp add: new_entry_def)

lemma write_fat_copy_ok:
  assumes "fat_ok dv cap psz s" and "has_entry (fsb s) cl" and "f < unat (fat_cnt (bpb (fsb s)))"
    and "sb_fat_type (fsb s) \<noteq> TYPE_FAT32"
  obtains s' where "write_fat_copy dv cl v f s = Some (True, s')" "fat_ok dv cap psz s'"
    "part_byte dv cap psz s' = wr_bytes (entry_pos (fsb s) f cl)
       (new_entry (fat_be s) (sb_fat_type (fsb s)) cl v (rd_bytes (entry_pos (fsb s) f cl) 2 (part_byte dv cap psz s)))
       (part_byte dv cap psz s)"
    "part_rest s' = part_rest s"
proof -
  define ty where "ty = sb_fat_type (fsb s)"
  from assms(1) have po: "part_ok dv cap psz s" and g: "fat_geom psz (fsb s)" by (simp_all add: fat_ok_def)
  obtain sector off where loc: "fat_location ty cl f (fsb s) = (sector, off)" by fastforce
  note p = fat_location_pos [OF g assms(2,3) loc [unfolded ty_def], folded ty_def]
  have w: "fat_width ty = 2" using assms(4) by (cases ty) (simp_all add: fat_width_def ty_def)
  have fit: "pos_of sector off + unat (2 :: u32) \<le> psz * 512" using p(3) w by simp
  note ty = assms(4) [folded ty_def]
  from readSector_ok [OF po p(2) fit] obtain s1 where
    r: "readSector dv sector off 2 s = Some (0, rd_bytes (entry_pos (fsb s) f cl) 2 (part_byte dv cap psz s), s1)"
      "part_ok dv cap psz s1" "part_byte dv cap psz s1 = part_byte dv cap psz s" "part_rest s1 = part_rest s"
    unfolding p(1) by auto
  define bs where "bs = rd_bytes (entry_pos (fsb s) f cl) 2 (part_byte dv cap psz s)"
  define s0 where "s0 = (if ty = TYPE_FAT12 then s1 else s)"
  have s0: "part_ok dv cap psz s0" "part_byte dv cap psz s0 = part_byte dv cap psz s" "part_rest s0 = part_rest s"
    using r po by (simp_all add: s0_def)
  have len: "src_fits (Some (new_entry (fat_be s) ty cl v bs)) (unat (2 :: u32))" by simp
  from writeSector_ok [OF s0(1) p(2) fit len] obtain s2 where
    wr: "writeSector dv (Some (new_entry (fat_be s) ty cl v bs)) sector off 2 s0 = Some (0, s2)"
      "part_ok dv cap psz s2" "part_byte dv cap psz s2 =
         wr_bytes (entry_pos (fsb s) f cl) (new_entry (fat_be s) ty cl v bs) (part_byte dv cap psz s)"
      "part_rest s2 = part_rest s"
    unfolding p(1) s0 by auto
  note be = part_rest_fields [OF r(4)] part_rest_fields [OF wr(4)]
  have "write_fat_copy dv cl v f s = Some (True, s2)"
    using loc r(1) wr(1) ty be(1) unfolding write_fat_copy_def Let_def ty_def [symmetric]
    by (cases ty) (simp_all add: new_entry_def s0_def ld16_def flip: bs_def, simp_all add: bs_def)
  moreover have "fat_ok dv cap psz s2" using wr(2) g be by (simp add: fat_ok_def)
  ultimately show ?thesis using wr(3,4) that unfolding bs_def ty_def by blast
qed


lemma entry_in_copy:
  assumes "has_entry sb cl" and "sb_fat_type sb \<noteq> TYPE_FAT32"
  shows "fat_start sb f \<le> entry_pos sb f cl" and "f < g \<Longrightarrow> entry_pos sb f cl + 2 \<le> fat_start sb g"
proof -
  show "fat_start sb f \<le> entry_pos sb f cl" by (simp add: entry_pos_def)
  assume "f < g"
  then have "Suc f * fat_sectors sb \<le> g * fat_sectors sb" by (intro mult_right_mono) simp_all
  then have "fat_start sb f + fat_sectors sb * 512 \<le> fat_start sb g"
    by (simp add: fat_start_def algebra_simps)
  moreover have "fat_width (sb_fat_type sb) = 2"
    using assms(2) by (cases "sb_fat_type sb") (simp_all add: fat_width_def)
  ultimately show "entry_pos sb f cl + 2 \<le> fat_start sb g"
    using assms(1) by (simp add: entry_pos_def has_entry_def)
qed

lemma write_fat_loop_ok:
  "fat_ok dv cap psz s \<Longrightarrow> has_entry (fsb s) cl \<Longrightarrow> f + n \<le> unat (fat_cnt (bpb (fsb s))) \<Longrightarrow>
   sb_fat_type (fsb s) \<noteq> TYPE_FAT32 \<Longrightarrow>
   \<exists>s'. write_fat_loop dv cl v f n k s = Some (k + n, s') \<and> fat_ok dv cap psz s' \<and> part_rest s' = part_rest s \<and>
     (\<forall>a. (\<forall>g. f \<le> g \<and> g < f + n \<longrightarrow> a < entry_pos (fsb s) g cl \<or> entry_pos (fsb s) g cl + 2 \<le> a) \<longrightarrow>
        part_byte dv cap psz s' a = part_byte dv cap psz s a) \<and>
     (\<forall>g. f \<le> g \<and> g < f + n \<longrightarrow> rd_bytes (entry_pos (fsb s) g cl) 2 (part_byte dv cap psz s') =
        new_entry (fat_be s) (sb_fat_type (fsb s)) cl v (rd_bytes (entry_pos (fsb s) g cl) 2 (part_byte dv cap psz s)))"
proof (induction n arbitrary: f k s)
  case 0
  then show ?case by auto
next
  case (Suc n)
  note he = Suc.prems(2) and ty = Suc.prems(4)
  have f: "f < unat (fat_cnt (bpb (fsb s)))" using Suc.prems(3) by simp
  define e where "e g = entry_pos (fsb s) g cl" for g
  define new where "new bs = new_entry (fat_be s) (sb_fat_type (fsb s)) cl v bs" for bs
  have apart: "e g + 2 \<le> e h" if "g < h" for g h
    using entry_in_copy(2) [OF he ty that] entry_in_copy(1) [OF he ty, of h] by (simp add: e_def)
  from write_fat_copy_ok [OF Suc.prems(1) he f ty] obtain s1 where
    c: "write_fat_copy dv cl v f s = Some (True, s1)" "fat_ok dv cap psz s1"
      "part_byte dv cap psz s1 = wr_bytes (e f) (new (rd_bytes (e f) 2 (part_byte dv cap psz s))) (part_byte dv cap psz s)"
      "part_rest s1 = part_rest s" unfolding e_def new_def by blast
  note r1 = part_rest_fields [OF c(4)]
  have bound: "Suc f + n \<le> unat (fat_cnt (bpb (fsb s)))" using Suc.prems(3) by simp
  from Suc.IH [OF c(2), unfolded r1 c(4), OF he bound ty, of "Suc k"] obtain s2 where
    w: "write_fat_loop dv cl v (Suc f) n (Suc k) s1 = Some (Suc k + n, s2)" "fat_ok dv cap psz s2"
      "part_rest s2 = part_rest s"
    and w4: "\<forall>a. (\<forall>g. Suc f \<le> g \<and> g < Suc f + n \<longrightarrow> a < e g \<or> e g + 2 \<le> a) \<longrightarrow>
        part_byte dv cap psz s2 a = part_byte dv cap psz s1 a"
    and w5: "\<forall>g. Suc f \<le> g \<and> g < Suc f + n \<longrightarrow> rd_bytes (e g) 2 (part_byte dv cap psz s2) =
        new (rd_bytes (e g) 2 (part_byte dv cap psz s1))"
    unfolding e_def new_def by blast
  have "part_byte dv cap psz s2 a = part_byte dv cap psz s a"
    if a: "\<And>g. f \<le> g \<Longrightarrow> g < f + Suc n \<Longrightarrow> a < e g \<or> e g + 2 \<le> a" for a
  proof -
    have "part_byte dv cap psz s2 a = part_byte dv cap psz s1 a"
      using a by (intro w4 [rule_format]) auto
    also have "\<dots> = part_byte dv cap psz s a"
      unfolding c(3) new_def using a [of f] by (intro wr_bytes_other) simp
    finally show ?thesis .
  qed
  moreover have "rd_bytes (e g) 2 (part_byte dv cap psz s2) = new (rd_bytes (e g) 2 (part_byte dv cap psz s))"
    if g: "f \<le> g" "g < f + Suc n" for g
  proof (cases "g = f")
    case True
    have "rd_bytes (e f) 2 (part_byte dv cap psz s2) = rd_bytes (e f) 2 (part_byte dv cap psz s1)"
    proof (rule rd_bytes_cong, rule w4 [rule_format])
      fix a h assume "a < e f + 2" "Suc f \<le> h \<and> h < Suc f + n"
      with apart [of f h] show "a < e h \<or> e h + 2 \<le> a" by simp
    qed
    with True show ?thesis unfolding c(3) new_def by simp
  next
    case False
    with g have g': "Suc f \<le> g" "g < Suc f + n" by simp_all
    have "rd_bytes (e g) 2 (part_byte dv cap psz s1) = rd_bytes (e g) 2 (part_byte dv cap psz s)"
      unfolding c(3) new_def using apart [of f g] g' by (intro rd_wr_other) simp
    with w5 g' show ?thesis by simp
  qed
  moreover have "write_fat_loop dv cl v f (Suc n) k s = Some (k + Suc n, s2)" using c(1) w(1) by simp
  ultimately show ?case using w(2,3) unfolding e_def new_def by blast
qed

lemma fat12_off_apart:
  fixes i j :: nat
  shows "i \<noteq> j \<Longrightarrow> fat_off TYPE_FAT12 i + 2 \<le> fat_off TYPE_FAT12 j \<or>
    fat_off TYPE_FAT12 j + 2 \<le> fat_off TYPE_FAT12 i \<or>
    even i \<and> odd j \<and> fat_off TYPE_FAT12 j = fat_off TYPE_FAT12 i + 1 \<or>
    odd i \<and> even j \<and> fat_off TYPE_FAT12 i = fat_off TYPE_FAT12 j + 1"
proof -
  assume "i \<noteq> j"
  have off: "fat_off TYPE_FAT12 (2 * k) = 3 * k" "fat_off TYPE_FAT12 (2 * k + 1) = 3 * k + 1" for k
    by (simp_all add: fat_off_def)
  have "\<exists>k. n = 2 * k \<or> n = 2 * k + 1" for n :: nat by presburger
  then obtain a b where "i = 2 * a \<or> i = 2 * a + 1" "j = 2 * b \<or> j = 2 * b + 1" by blast
  then consider "i = 2 * a" "j = 2 * b" | "i = 2 * a" "j = 2 * b + 1"
    | "i = 2 * a + 1" "j = 2 * b" | "i = 2 * a + 1" "j = 2 * b + 1" by blast
  then show ?thesis
    by cases (use \<open>i \<noteq> j\<close> in \<open>auto simp: off [simplified]\<close>)
qed

lemma even_word: "(cl :: u32) mod 2 = 1 \<longleftrightarrow> odd (unat cl)"
  by (simp add: word_unat_eq_iff unat_mod odd_iff_mod_2_eq_one)

text \<open>The entries of the first copy after the two bytes of one of them were replaced.\<close>

lemma entry_after_write:
  assumes ty: "sb_fat_type sb \<noteq> TYPE_FAT32" and be: "sb_fat_type sb = TYPE_FAT12 \<longrightarrow> \<not> be"
    and v: "fat_value (sb_fat_type sb) v"
    and new: "rd_bytes (entry_pos sb 0 cl) 2 f' =
      new_entry be (sb_fat_type sb) cl v (rd_bytes (entry_pos sb 0 cl) 2 f)"
    and other: "\<And>a. fat_start sb 0 \<le> a \<Longrightarrow> a < fat_start sb 1 \<Longrightarrow>
      a < entry_pos sb 0 cl \<or> entry_pos sb 0 cl + 2 \<le> a \<Longrightarrow> f' a = f a"
    and has: "has_entry sb cl'"
  shows "fat_entry be sb f' cl' = (if cl' = cl then v else fat_entry be sb f cl')"
proof -
  define t where "t = sb_fat_type sb"
  define e where "e c = entry_pos sb 0 c" for c
  have w: "fat_width t = 2" using ty by (cases t) (simp_all add: fat_width_def t_def)
  define bs where "bs = rd_bytes (e cl) 2 f"
  define nb where "nb = new_entry be t cl v bs"
  have at: "f' (e cl) = nb ! 0" "f' (e cl + 1) = nb ! 1"
    using arg_cong [where f = "\<lambda>l. l ! 0", OF new] arg_cong [where f = "\<lambda>l. l ! 1", OF new]
    by (simp_all add: nb_def bs_def e_def t_def)
  have old: "bs ! 0 = f (e cl)" "bs ! 1 = f (e cl + 1)" by (simp_all add: bs_def)
  have ee: "fat_entry b sb g c = fat_mark t (raw_entry b t c [g (e c), g (e c + 1)])" for b g c
    using ty w by (cases t) (simp_all add: fat_entry_def raw_entry_def Let_def e_def t_def)
  have in0: "fat_start sb 0 \<le> e cl'" "e cl' + 2 \<le> fat_start sb 1"
    using entry_in_copy [OF has ty, of 0] by (simp_all add: e_def)
  have far: "f' (e cl') = f (e cl')" "f' (e cl' + 1) = f (e cl' + 1)"
    if "e cl' + 2 \<le> e cl \<or> e cl + 2 \<le> e cl'"
    using in0 that by (auto intro!: other simp: e_def)
  show ?thesis
  proof (cases "cl' = cl")
    case True
    have "fat_mark t (raw_entry be t cl [nb ! 0, nb ! 1]) = v"
    proof (cases t)
      case TYPE_FAT12
      then have "raw_entry be t cl [nb ! 0, nb ! 1] = ucast (ucast (fat_unmark t v AND 0xFFF) :: u16)"
        using unpack_pack_same [of cl "fat_unmark t v"] by (simp add: raw_entry_def nb_def new_entry_def)
      with mark_unmark [OF v ty] TYPE_FAT12 show ?thesis by (simp add: t_def)
    next
      case TYPE_FAT16
      then have "raw_entry be t cl [nb ! 0, nb ! 1] = ucast (ucast (fat_unmark t v) :: u16)"
        by (simp add: raw_entry_def nb_def new_entry_def)
      with mark_unmark [OF v ty] TYPE_FAT16 show ?thesis by (simp add: t_def)
    qed (use ty in \<open>simp add: t_def\<close>)
    with True at show ?thesis by (simp add: ee)
  next
    case False
    then have ne: "unat cl \<noteq> unat cl'" by (simp add: word_unat_eq_iff)
    have pos: "e c = fat_start sb 0 + fat_off t (unat c)" for c by (simp add: e_def entry_pos_def t_def)
    show ?thesis
    proof (cases t)
      case TYPE_FAT16
      then have "e cl' + 2 \<le> e cl \<or> e cl + 2 \<le> e cl'" using ne by (auto simp: pos fat_off_def)
      with False far show ?thesis by (simp add: ee)
    next
      case TYPE_FAT12
      with be have le: "\<not> be" by (simp add: t_def)
      from fat12_off_apart [OF ne] consider "e cl' + 2 \<le> e cl \<or> e cl + 2 \<le> e cl'"
        | "even (unat cl)" "odd (unat cl')" "e cl' = e cl + 1"
        | "odd (unat cl)" "even (unat cl')" "e cl = e cl' + 1"
        unfolding pos TYPE_FAT12 by linarith
      then show ?thesis
      proof cases
        case 1
        with False far show ?thesis by (simp add: ee)
      next
        case 2
        have "f' (e cl' + 1) = f (e cl' + 1)" using in0 2(3) by (intro other) (simp_all add: e_def)
        with 2 neighbour_even [of cl cl' "fat_unmark t v" "f (e cl)" "f (e cl + 1)" "f (e cl + 2)"] at old le False TYPE_FAT12
        show ?thesis by (simp add: ee raw_entry_def nb_def new_entry_def even_word)
      next
        case 3
        have "f' (e cl') = f (e cl')" using in0 3(3) by (intro other) (simp_all add: e_def)
        with 3 neighbour_odd [of cl cl' "f (e cl')" "fat_unmark t v" "f (e cl)" "f (e cl + 1)"] at old le False TYPE_FAT12
        show ?thesis by (simp add: ee raw_entry_def nb_def new_entry_def even_word)
      qed
    qed (use ty in \<open>simp add: t_def\<close>)
  qed
qed


lemma WriteFATEntry_ok:
  assumes ok: "fat_ok dv cap psz s" and has: "has_entry (fsb s) cl"
    and ty: "sb_fat_type (fsb s) \<noteq> TYPE_FAT32" and be: "sb_fat_type (fsb s) = TYPE_FAT12 \<longrightarrow> \<not> fat_be s"
    and v: "fat_value (sb_fat_type (fsb s)) v"
  obtains s' where "WriteFATEntry dv cl v s = Some (0, s')" "fat_ok dv cap psz s'" "part_rest s' = part_rest s"
    "\<And>cl'. has_entry (fsb s) cl' \<Longrightarrow>
       fat_table dv cap psz s' cl' = (if cl' = cl then v else fat_table dv cap psz s cl')"
    "\<And>a. a < fat_start (fsb s) 0 \<or> fat_end (fsb s) \<le> a \<Longrightarrow> part_byte dv cap psz s' a = part_byte dv cap psz s a"
proof -
  define n where "n = unat (fat_cnt (bpb (fsb s)))"
  have n0: "0 < n" using ok by (simp add: n_def fat_ok_def fat_geom_def unat_gt_0)
  from write_fat_loop_ok [OF ok has, of 0 n v 0] ty obtain s' where
    w: "write_fat_loop dv cl v 0 n 0 s = Some (n, s')" "fat_ok dv cap psz s'" "part_rest s' = part_rest s"
    and other: "\<forall>a. (\<forall>g. g < n \<longrightarrow> a < entry_pos (fsb s) g cl \<or> entry_pos (fsb s) g cl + 2 \<le> a) \<longrightarrow>
        part_byte dv cap psz s' a = part_byte dv cap psz s a"
    and new: "\<forall>g. g < n \<longrightarrow> rd_bytes (entry_pos (fsb s) g cl) 2 (part_byte dv cap psz s') =
        new_entry (fat_be s) (sb_fat_type (fsb s)) cl v (rd_bytes (entry_pos (fsb s) g cl) 2 (part_byte dv cap psz s))"
    by (auto simp: n_def)
  note r = part_rest_fields [OF w(3)]
  have eq: "WriteFATEntry dv cl v s = Some (0, s')"
    using w(1) n0 by (simp add: WriteFATEntry_def n_def)
  have "fat_entry (fat_be s) (fsb s) (part_byte dv cap psz s') cl' =
      (if cl' = cl then v else fat_entry (fat_be s) (fsb s) (part_byte dv cap psz s) cl')"
    if "has_entry (fsb s) cl'" for cl'
  proof (rule entry_after_write [OF ty be v _ _ that])
    show "rd_bytes (entry_pos (fsb s) 0 cl) 2 (part_byte dv cap psz s') =
      new_entry (fat_be s) (sb_fat_type (fsb s)) cl v (rd_bytes (entry_pos (fsb s) 0 cl) 2 (part_byte dv cap psz s))"
      using new n0 by blast
    fix a assume a: "fat_start (fsb s) 0 \<le> a" "a < fat_start (fsb s) 1"
      "a < entry_pos (fsb s) 0 cl \<or> entry_pos (fsb s) 0 cl + 2 \<le> a"
    show "part_byte dv cap psz s' a = part_byte dv cap psz s a"
    proof (rule other [rule_format])
      fix g show "a < entry_pos (fsb s) g cl \<or> entry_pos (fsb s) g cl + 2 \<le> a"
      proof (cases "g = 0")
        case False
        then have "fat_start (fsb s) 1 \<le> fat_start (fsb s) g"
          by (simp add: fat_start_def)
        with a(2) entry_in_copy(1) [OF has ty, of g] show ?thesis by simp
      qed (use a(3) in simp)
    qed
  qed
  then have table: "fat_table dv cap psz s' cl' = (if cl' = cl then v else fat_table dv cap psz s cl')"
    if "has_entry (fsb s) cl'" for cl'
    using that by (simp add: fat_table_def r)
  have frame: "part_byte dv cap psz s' a = part_byte dv cap psz s a"
    if a: "a < fat_start (fsb s) 0 \<or> fat_end (fsb s) \<le> a" for a
  proof (rule other [rule_format])
    fix g assume g: "g < n"
    have "fat_start (fsb s) 0 \<le> fat_start (fsb s) g" by (simp add: fat_start_def)
    moreover have "entry_pos (fsb s) g cl + 2 \<le> fat_end (fsb s)"
      unfolding fat_end_def using g by (intro entry_in_copy(2) [OF has ty]) (simp add: n_def)
    ultimately show "a < entry_pos (fsb s) g cl \<or> entry_pos (fsb s) g cl + 2 \<le> a"
      using a entry_in_copy(1) [OF has ty, of g] by linarith
  qed
  show ?thesis by (rule that [OF eq w(2,3) table frame])
qed

end
