(* ===== verification/FatChain.thy ===== *)
theory FatChain
  imports FatTable Alloc
begin

text \<open>
  Clusters: the search for a free one, the file allocation table as an allocator of clusters, and the
  chains that files and directories are made of.
\<close>

section \<open>Finding a free cluster\<close>

text \<open>
  A FAT12 or FAT16 volume whose clusters all have an entry; the code does not swap bytes, so FAT12
  needs a little-endian CPU.
\<close>

definition vol_ok :: "'d block_device \<Rightarrow> nat \<Rightarrow> nat \<Rightarrow> 'd fat_state \<Rightarrow> bool" where
  "vol_ok dv cap psz s \<longleftrightarrow> fat_ok dv cap psz s \<and> sb_fat_type (fsb s) \<noteq> TYPE_FAT32 \<and>
     (sb_fat_type (fsb s) = TYPE_FAT12 \<longrightarrow> \<not> fat_be s) \<and>
     (\<forall>cl. cl < cluster_cnt (fsb s) \<longrightarrow> has_entry (fsb s) cl)"

text \<open>What operations that only touch the table leave alone: all but the search position and the cache.\<close>

definition vol_rest :: "'d fat_state \<Rightarrow> bool \<times> int \<times> int \<times> bytes \<times> FatSB \<times> FatNode option list \<times> nat list \<times> u32 \<times> u32 \<times> u32" where
  "vol_rest s = part_rest (upd_fsb (\<lambda>b. b\<lparr>start_search_cluster := 0\<rparr>) s)"

lemma vol_rest_part: "part_rest s' = part_rest s \<Longrightarrow> vol_rest s' = vol_rest s"
  by (simp add: vol_rest_def part_rest_def upd_fsb_def)

lemma upd_search_simps [simp]:
  "part_byte dv cap psz (upd_fsb (\<lambda>b. b\<lparr>start_search_cluster := c\<rparr>) s) = part_byte dv cap psz s"
  "vol_rest (upd_fsb (\<lambda>b. b\<lparr>start_search_cluster := c\<rparr>) s) = vol_rest s"
  "part_ok dv cap psz (upd_fsb (\<lambda>b. b\<lparr>start_search_cluster := c\<rparr>) s) = part_ok dv cap psz s"
  by (auto simp: part_byte_def vol_rest_def part_rest_def upd_fsb_def part_ok_def fun_eq_iff)

lemma fsb_cong:
  assumes "fsb s'\<lparr>start_search_cluster := 0\<rparr> = fsb s\<lparr>start_search_cluster := 0\<rparr>"
  shows "sb_fat_type (fsb s') = sb_fat_type (fsb s)" "bpb (fsb s') = bpb (fsb s)"
    "bpb32 (fsb s') = bpb32 (fsb s)" "cluster_cnt (fsb s') = cluster_cnt (fsb s)"
    "partition_start (fsb s') = partition_start (fsb s)" "first_data_sector (fsb s') = first_data_sector (fsb s)"
    "sectors_per_fat (fsb s') = sectors_per_fat (fsb s)"
  using assms by (cases "fsb s"; cases "fsb s'"; simp)+

lemma vol_rest_fields:
  assumes "vol_rest s' = vol_rest s"
  shows "fat_be s' = fat_be s" "node_heap s' = node_heap s" "node_list s' = node_list s"
    "the_node i s' = the_node i s" "cluster_bytes s' = cluster_bytes s"
    "sb_fat_type (fsb s') = sb_fat_type (fsb s)" "bpb (fsb s') = bpb (fsb s)"
    "bpb32 (fsb s') = bpb32 (fsb s)" "cluster_cnt (fsb s') = cluster_cnt (fsb s)"
    "first_data_sector (fsb s') = first_data_sector (fsb s)"
    "has_entry (fsb s') = has_entry (fsb s)" "fat_geom psz (fsb s') = fat_geom psz (fsb s)"
    "fat_start (fsb s') = fat_start (fsb s)" "fat_end (fsb s') = fat_end (fsb s)"
    "fat_entry be (fsb s') = fat_entry be (fsb s)"
proof -
  from assms have "fsb s'\<lparr>start_search_cluster := 0\<rparr> = fsb s\<lparr>start_search_cluster := 0\<rparr>"
    by (simp add: vol_rest_def part_rest_def upd_fsb_def)
  note f = fsb_cong [OF this]
  from assms show "fat_be s' = fat_be s" "node_heap s' = node_heap s" "node_list s' = node_list s"
    "the_node i s' = the_node i s"
    by (simp_all add: vol_rest_def part_rest_def upd_fsb_def the_node_def)
  show "cluster_bytes s' = cluster_bytes s" by (simp add: cluster_bytes_def f)
  have g: "fat_sectors (fsb s') = fat_sectors (fsb s)" by (simp add: fat_sectors_def f split: fat_type.split)
  show h: "has_entry (fsb s') = has_entry (fsb s)" by (rule ext) (simp add: has_entry_def f g)
  show st: "fat_start (fsb s') = fat_start (fsb s)" by (rule ext) (simp add: fat_start_def f g)
  show en: "fat_end (fsb s') = fat_end (fsb s)" by (simp add: fat_end_def st f)
  show "fat_geom psz (fsb s') = fat_geom psz (fsb s)" by (simp add: fat_geom_def en f)
  show "fat_entry be (fsb s') = fat_entry be (fsb s)"
    by (intro ext) (simp add: fat_entry_def entry_pos_def Let_def f st)
  show "sb_fat_type (fsb s') = sb_fat_type (fsb s)" "bpb (fsb s') = bpb (fsb s)"
    "bpb32 (fsb s') = bpb32 (fsb s)" "cluster_cnt (fsb s') = cluster_cnt (fsb s)"
    "first_data_sector (fsb s') = first_data_sector (fsb s)" by (rule f)+
qed

text \<open>The table after an operation, at the clusters that have an entry.\<close>

definition table_is :: "'d block_device \<Rightarrow> nat \<Rightarrow> nat \<Rightarrow> 'd fat_state \<Rightarrow> (u32 \<Rightarrow> u32) \<Rightarrow> bool" where
  "table_is dv cap psz s t \<longleftrightarrow> (\<forall>cl. has_entry (fsb s) cl \<longrightarrow> fat_table dv cap psz s cl = t cl)"

text \<open>Outside the table nothing changes.\<close>

definition data_same :: "'d block_device \<Rightarrow> nat \<Rightarrow> nat \<Rightarrow> 'd fat_state \<Rightarrow> 'd fat_state \<Rightarrow> bool" where
  "data_same dv cap psz s s' \<longleftrightarrow>
     (\<forall>a. a < fat_start (fsb s) 0 \<or> fat_end (fsb s) \<le> a \<longrightarrow> part_byte dv cap psz s' a = part_byte dv cap psz s a)"

lemma data_same_refl [simp]: "data_same dv cap psz s s"
  by (simp add: data_same_def)

lemma data_same_trans:
  "data_same dv cap psz s s' \<Longrightarrow> data_same dv cap psz s' s'' \<Longrightarrow> vol_rest s' = vol_rest s \<Longrightarrow>
   data_same dv cap psz s s''"
  using vol_rest_fields(13,14) [of s' s] by (simp add: data_same_def)

text \<open>Reading and writing an entry, in these words.\<close>

lemma vol_read:
  assumes "vol_ok dv cap psz s" and "has_entry (fsb s) cl" and "table_is dv cap psz s t"
  obtains s' where "ReadFATEntry dv cl s = Some (Some (t cl), s')" "vol_ok dv cap psz s'"
    "table_is dv cap psz s' t" "data_same dv cap psz s s'" "part_rest s' = part_rest s"
    "part_byte dv cap psz s' = part_byte dv cap psz s"
proof -
  from assms(1) have ok: "fat_ok dv cap psz s" by (simp add: vol_ok_def)
  from ReadFATEntry_ok [OF ok assms(2)] obtain s' where
    r: "ReadFATEntry dv cl s = Some (Some (fat_table dv cap psz s cl), s')" "fat_ok dv cap psz s'"
      "part_byte dv cap psz s' = part_byte dv cap psz s" "part_rest s' = part_rest s" .
  note f = part_rest_fields [OF r(4)]
  have a: "ReadFATEntry dv cl s = Some (Some (t cl), s')"
    using r(1) assms(2,3) by (simp add: table_is_def)
  have b: "vol_ok dv cap psz s'" using r(2) assms(1) by (simp add: vol_ok_def f)
  have c: "table_is dv cap psz s' t" using assms(3) by (simp add: table_is_def fat_table_def f r(3))
  have d: "data_same dv cap psz s s'" using r(3) by (simp add: data_same_def)
  show ?thesis by (rule that [OF a b c d r(4,3)])
qed

lemma vol_write:
  assumes "vol_ok dv cap psz s" and "has_entry (fsb s) cl" and "table_is dv cap psz s t"
    and "fat_value (sb_fat_type (fsb s)) v"
  obtains s' where "WriteFATEntry dv cl v s = Some (0, s')" "vol_ok dv cap psz s'"
    "table_is dv cap psz s' (t(cl := v))" "data_same dv cap psz s s'" "part_rest s' = part_rest s"
proof -
  from assms(1) have ok: "fat_ok dv cap psz s" "sb_fat_type (fsb s) \<noteq> TYPE_FAT32"
    "sb_fat_type (fsb s) = TYPE_FAT12 \<longrightarrow> \<not> fat_be s" by (simp_all add: vol_ok_def)
  obtain s' where
    w: "WriteFATEntry dv cl v s = Some (0, s')" "fat_ok dv cap psz s'" "part_rest s' = part_rest s"
      "\<And>cl'. has_entry (fsb s) cl' \<Longrightarrow>
         fat_table dv cap psz s' cl' = (if cl' = cl then v else fat_table dv cap psz s cl')"
      "\<And>a. a < fat_start (fsb s) 0 \<or> fat_end (fsb s) \<le> a \<Longrightarrow> part_byte dv cap psz s' a = part_byte dv cap psz s a"
    using WriteFATEntry_ok [OF ok(1) assms(2) ok(2,3) assms(4)] by metis
  note f = part_rest_fields [OF w(3)]
  have b: "vol_ok dv cap psz s'" using w(2) assms(1) by (simp add: vol_ok_def f)
  have c: "table_is dv cap psz s' (t(cl := v))" using assms(3) w(4) by (simp add: table_is_def f)
  have d: "data_same dv cap psz s s'" using w(5) by (simp add: data_same_def)
  show ?thesis by (rule that [OF w(1) b c d w(3)])
qed


text \<open>A scan for a free cluster finds the first one, and marks it as the end of a chain.\<close>

lemma vol_upd_search:
  fixes c :: u32
  assumes "vol_ok dv cap psz s" and "table_is dv cap psz s t"
  defines "s' \<equiv> upd_fsb (\<lambda>b. b\<lparr>start_search_cluster := c\<rparr>) s"
  shows "vol_ok dv cap psz s'" and "table_is dv cap psz s' t" and "data_same dv cap psz s s'"
    and "vol_rest s' = vol_rest s"
proof -
  have v: "vol_rest s' = vol_rest s" and p: "part_byte dv cap psz s' = part_byte dv cap psz s"
    by (simp_all add: s'_def)
  note f = vol_rest_fields [OF v]
  show "vol_rest s' = vol_rest s" by (rule v)
  show "data_same dv cap psz s s'" by (simp add: data_same_def p)
  show "table_is dv cap psz s' t" using assms(2) by (simp add: table_is_def fat_table_def f p)
  have "part_ok dv cap psz s' = part_ok dv cap psz s" by (simp add: s'_def)
  then show "vol_ok dv cap psz s'" using assms(1) by (simp add: vol_ok_def fat_ok_def f)
qed

lemma find_free_loop_ok:
  assumes "vol_ok dv cap psz s" and "table_is dv cap psz s t"
    and "\<And>cl. cl < bound \<Longrightarrow> has_entry (fsb s) cl"
  shows "\<exists>r s'. find_free_loop dv cluster bound s = Some (r, s') \<and> vol_ok dv cap psz s' \<and>
    vol_rest s' = vol_rest s \<and> data_same dv cap psz s s' \<and>
    (case r of
       None \<Rightarrow> table_is dv cap psz s' t \<and> fsb s' = fsb s \<and>
         (\<forall>x. cluster \<le> x \<and> x < bound \<longrightarrow> t x \<noteq> CLUSTER_FREE)
     | Some c \<Rightarrow> table_is dv cap psz s' (t(c := CLUSTER_EOC)) \<and> start_search_cluster (fsb s') = c \<and>
         cluster \<le> c \<and> c < bound \<and> t c = CLUSTER_FREE \<and>
         (\<forall>x. cluster \<le> x \<and> x < c \<longrightarrow> t x \<noteq> CLUSTER_FREE))"
  using assms
proof (induction "unat bound - unat cluster" arbitrary: cluster s rule: less_induct)
  case less
  note vol = less.prems(1) and tab = less.prems(2) and has = less.prems(3)
  note step = find_free_loop.simps [of dv cluster bound s]
  show ?case
  proof (cases "cluster < bound")
    case False
    then have "find_free_loop dv cluster bound s = Some (None, s)" by (simp add: step)
    with vol tab False show ?thesis by auto
  next
    case True
    from vol_read [OF vol has [OF True] tab] obtain s1 where
      r: "ReadFATEntry dv cluster s = Some (Some (t cluster), s1)" "vol_ok dv cap psz s1"
        "table_is dv cap psz s1 t" "data_same dv cap psz s s1" "part_rest s1 = part_rest s" by metis
    note v1 = vol_rest_part [OF r(5)]
    note f1 = vol_rest_fields [OF v1]
    have fs1: "fsb s1 = fsb s" using part_rest_fields [OF r(5)] by simp
    show ?thesis
    proof (cases "t cluster = CLUSTER_FREE")
      case free: True
      have "has_entry (fsb s1) cluster" using has [OF True] by (simp add: f1)
      from vol_write [OF r(2) this r(3), of CLUSTER_EOC] obtain s2 where
        w: "WriteFATEntry dv cluster CLUSTER_EOC s1 = Some (0, s2)" "vol_ok dv cap psz s2"
          "table_is dv cap psz s2 (t(cluster := CLUSTER_EOC))" "data_same dv cap psz s1 s2"
          "part_rest s2 = part_rest s1" by (metis fat_value_def)
      define s3 where "s3 = upd_fsb (\<lambda>b. b\<lparr>start_search_cluster := cluster\<rparr>) s2"
      note u = vol_upd_search [OF w(2,3), of cluster, folded s3_def]
      note v2 = vol_rest_part [OF w(5)]
      have v3: "vol_rest s3 = vol_rest s" using u(4) v2 v1 by simp
      have d3: "data_same dv cap psz s s3"
        using data_same_trans [OF data_same_trans [OF r(4) w(4) v1] u(3)] v2 v1 by simp
      have "find_free_loop dv cluster bound s = Some (Some cluster, s3)"
        using True r(1) w(1) free by (subst step) (simp add: s3_def)
      moreover have "start_search_cluster (fsb s3) = cluster" by (simp add: s3_def upd_fsb_def)
      ultimately show ?thesis using u(1,2) v3 d3 True free by auto
    next
      case taken: False
      have su: "unat (cluster + 1) = Suc (unat cluster)" by (rule unat_suc_less [OF True])
      with True have "unat bound - unat (cluster + 1) < unat bound - unat cluster"
        by (simp add: word_less_nat_alt)
      moreover have "\<And>cl. cl < bound \<Longrightarrow> has_entry (fsb s1) cl" using has by (simp add: f1)
      ultimately obtain x s2 where
        IH: "find_free_loop dv (cluster + 1) bound s1 = Some (x, s2)" "vol_ok dv cap psz s2"
          "vol_rest s2 = vol_rest s1" "data_same dv cap psz s1 s2"
        and IHr: "case x of
           None \<Rightarrow> table_is dv cap psz s2 t \<and> fsb s2 = fsb s1 \<and>
             (\<forall>y. cluster + 1 \<le> y \<and> y < bound \<longrightarrow> t y \<noteq> CLUSTER_FREE)
         | Some c \<Rightarrow> table_is dv cap psz s2 (t(c := CLUSTER_EOC)) \<and> start_search_cluster (fsb s2) = c \<and>
             cluster + 1 \<le> c \<and> c < bound \<and> t c = CLUSTER_FREE \<and>
             (\<forall>y. cluster + 1 \<le> y \<and> y < c \<longrightarrow> t y \<noteq> CLUSTER_FREE)"
        using less.hyps [of "cluster + 1" s1] r(2,3) by blast
      have next_le: "cluster \<le> y \<longleftrightarrow> y = cluster \<or> cluster + 1 \<le> y" for y
        using su by (auto simp: word_le_nat_alt word_unat_eq_iff)
      have "find_free_loop dv cluster bound s = Some (x, s2)"
        using True r(1) IH(1) taken by (subst step) simp
      moreover have "data_same dv cap psz s s2" by (rule data_same_trans [OF r(4) IH(4) v1])
      ultimately show ?thesis
        using IH(2,3) IHr v1 taken by (auto simp: next_le fs1 split: option.splits)
    qed
  qed
qed


text \<open>
  Where a search may start. Start-up leaves the position 0; the search then passes the entries 0 and 1,
  which must not be free.
\<close>

definition search_at :: "FatSB \<Rightarrow> (u32 \<Rightarrow> u32) \<Rightarrow> bool" where
  "search_at sb t \<longleftrightarrow> start_search_cluster sb \<le> cluster_cnt sb \<and>
     (start_search_cluster sb < 2 \<longrightarrow> (\<forall>c. c < 2 \<longrightarrow> has_entry sb c \<longrightarrow> t c \<noteq> CLUSTER_FREE))"

definition search_ok :: "'d block_device \<Rightarrow> nat \<Rightarrow> nat \<Rightarrow> 'd fat_state \<Rightarrow> bool" where
  "search_ok dv cap psz s \<longleftrightarrow> search_at (fsb s) (fat_table dv cap psz s)"

lemma search_ok_table: "table_is dv cap psz s t \<Longrightarrow> search_ok dv cap psz s \<longleftrightarrow> search_at (fsb s) t"
  by (auto simp: search_ok_def search_at_def table_is_def)

lemma search_at_upd: "search_at sb t \<Longrightarrow> 2 \<le> x \<Longrightarrow> search_at sb (t(x := v))"
  by (auto simp: search_at_def)

lemma search_at_two: "2 \<le> start_search_cluster sb \<Longrightarrow> start_search_cluster sb \<le> cluster_cnt sb \<Longrightarrow> search_at sb t"
  by (auto simp: search_at_def dest: leD)

lemma FindFreeCluster_ok:
  assumes vol: "vol_ok dv cap psz s" and tab: "table_is dv cap psz s t" and so: "search_ok dv cap psz s"
  shows "\<exists>r s'. FindFreeCluster dv s = Some (r, s') \<and> vol_ok dv cap psz s' \<and> search_ok dv cap psz s' \<and>
    vol_rest s' = vol_rest s \<and> data_same dv cap psz s s' \<and>
    (case r of
       None \<Rightarrow> table_is dv cap psz s' t \<and> (\<forall>x. 2 \<le> x \<and> x < cluster_cnt (fsb s) \<longrightarrow> t x \<noteq> CLUSTER_FREE)
     | Some c \<Rightarrow> table_is dv cap psz s' (t(c := CLUSTER_EOC)) \<and> 2 \<le> c \<and> c < cluster_cnt (fsb s) \<and>
         t c = CLUSTER_FREE)"
proof -
  define st where "st = start_search_cluster (fsb s)"
  define cnt where "cnt = cluster_cnt (fsb s)"
  from so have sa: "search_at (fsb s) t" by (simp add: search_ok_table [OF tab])
  then have st: "st \<le> cnt" by (simp add: search_at_def st_def cnt_def)
  have has: "cl < cnt \<Longrightarrow> has_entry (fsb s) cl" for cl using vol by (simp add: vol_ok_def cnt_def)
  from find_free_loop_ok [OF vol tab has, where cluster = st] obtain r s1 where
    l: "find_free_loop dv st cnt s = Some (r, s1)" "vol_ok dv cap psz s1" "vol_rest s1 = vol_rest s"
      "data_same dv cap psz s s1"
    and lr: "case r of
       None \<Rightarrow> table_is dv cap psz s1 t \<and> fsb s1 = fsb s \<and> (\<forall>x. st \<le> x \<and> x < cnt \<longrightarrow> t x \<noteq> CLUSTER_FREE)
     | Some c \<Rightarrow> table_is dv cap psz s1 (t(c := CLUSTER_EOC)) \<and> start_search_cluster (fsb s1) = c \<and>
         st \<le> c \<and> c < cnt \<and> t c = CLUSTER_FREE \<and> (\<forall>x. st \<le> x \<and> x < c \<longrightarrow> t x \<noteq> CLUSTER_FREE)" by blast
  note f1 = vol_rest_fields [OF l(3)]
  show ?thesis
  proof (cases r)
    case (Some c)
    with lr have c: "table_is dv cap psz s1 (t(c := CLUSTER_EOC))" "start_search_cluster (fsb s1) = c"
      "st \<le> c" "c < cnt" "t c = CLUSTER_FREE" by simp_all
    have two: "2 \<le> c"
    proof (rule ccontr)
      assume "\<not> 2 \<le> c"
      with c(3) have "st < 2" "c < 2" by simp_all
      with sa has [OF c(4)] c(5) show False by (simp add: search_at_def st_def)
    qed
    moreover have "search_ok dv cap psz s1"
      unfolding search_ok_def using c(2,4) two by (intro search_at_two) (simp_all add: f1 cnt_def)
    moreover have "FindFreeCluster dv s = Some (Some c, s1)"
      using l(1) Some by (simp add: FindFreeCluster_def st_def cnt_def)
    ultimately show ?thesis using l(2-4) c by (auto simp: cnt_def)
  next
    case None
    with lr have n: "table_is dv cap psz s1 t" "fsb s1 = fsb s"
      "\<And>x. st \<le> x \<Longrightarrow> x < cnt \<Longrightarrow> t x \<noteq> CLUSTER_FREE" by simp_all
    have has1: "cl < st \<Longrightarrow> has_entry (fsb s1) cl" for cl using has st by (simp add: f1)
    from find_free_loop_ok [OF l(2) n(1) has1, where cluster = 2] obtain r' s2 where
      k: "find_free_loop dv 2 st s1 = Some (r', s2)" "vol_ok dv cap psz s2" "vol_rest s2 = vol_rest s1"
        "data_same dv cap psz s1 s2"
      and kr: "case r' of
         None \<Rightarrow> table_is dv cap psz s2 t \<and> fsb s2 = fsb s1 \<and> (\<forall>x. 2 \<le> x \<and> x < st \<longrightarrow> t x \<noteq> CLUSTER_FREE)
       | Some c \<Rightarrow> table_is dv cap psz s2 (t(c := CLUSTER_EOC)) \<and> start_search_cluster (fsb s2) = c \<and>
           2 \<le> c \<and> c < st \<and> t c = CLUSTER_FREE \<and> (\<forall>x. 2 \<le> x \<and> x < c \<longrightarrow> t x \<noteq> CLUSTER_FREE)" by blast
    have eq: "FindFreeCluster dv s = Some (r', s2)"
      using l(1) k(1) None n(2) by (simp add: FindFreeCluster_def st_def cnt_def)
    have d: "data_same dv cap psz s s2" by (rule data_same_trans [OF l(4) k(4) l(3)])
    note f2 = vol_rest_fields [OF k(3)]
    show ?thesis
    proof (cases r')
      case None
      have "t x \<noteq> CLUSTER_FREE" if "2 \<le> x" "x < cnt" for x
        using that kr None n(3) [of x] by (cases "x < st") (auto simp: not_less)
      moreover have "search_ok dv cap psz s2" using kr None sa n(2) search_ok_table [of dv cap psz s2 t] by simp
      ultimately show ?thesis using eq k(2,3) l(3) d kr None by (auto simp: cnt_def)
    next
      case (Some c)
      with kr st have c: "table_is dv cap psz s2 (t(c := CLUSTER_EOC))" "start_search_cluster (fsb s2) = c"
        "2 \<le> c" "c < cnt" "t c = CLUSTER_FREE" by auto
      then have "search_ok dv cap psz s2"
        unfolding search_ok_def by (intro search_at_two) (simp_all add: f2 f1 cnt_def)
      with eq k(2,3) l(3) d c Some show ?thesis by (auto simp: cnt_def)
    qed
  qed
qed


section \<open>The table as an allocator\<close>

definition cluster_used :: "'d block_device \<Rightarrow> nat \<Rightarrow> nat \<Rightarrow> 'd fat_state \<Rightarrow> nat \<Rightarrow> bool" where
  "cluster_used dv cap psz s i \<longleftrightarrow> i < 2 \<or> fat_table dv cap psz s (word_of_nat i) \<noteq> CLUSTER_FREE"

definition cluster_limit :: "'d fat_state \<Rightarrow> nat" where
  "cluster_limit s = unat (cluster_cnt (fsb s))"

definition cluster_owned :: "'d block_device \<Rightarrow> nat \<Rightarrow> nat \<Rightarrow> 'd fat_state \<Rightarrow> nat \<Rightarrow> bool" where
  "cluster_owned dv cap psz s i \<longleftrightarrow> 2 \<le> i \<and> i < cluster_limit s \<and> cluster_used dv cap psz s i"

definition cluster_alloc :: "'d block_device \<Rightarrow> 'd fat_state \<Rightarrow> nat option \<times> 'd fat_state" where
  "cluster_alloc dv s = (case FindFreeCluster dv s of
     Some (r, s') \<Rightarrow> (map_option unat r, s') | None \<Rightarrow> (None, s))"

definition cluster_free :: "'d block_device \<Rightarrow> 'd fat_state \<Rightarrow> nat \<Rightarrow> 'd fat_state option" where
  "cluster_free dv s i = do { (rc, s') \<leftarrow> WriteFATEntry dv (word_of_nat i) CLUSTER_FREE s; Some s' }"

text \<open>The numbers of the clusters with an entry, as slots.\<close>

lemma cluster_word:
  assumes "i < cluster_limit s" and "vol_ok dv cap psz s"
  shows "unat (word_of_nat i :: u32) = i" and "has_entry (fsb s) (word_of_nat i)"
proof -
  have "i < 4294967296"
    by (rule less_trans [OF assms(1) [unfolded cluster_limit_def] unat_u32_lt])
  then show u: "unat (word_of_nat i :: u32) = i" by (rule unat_word_of_nat32)
  then show "has_entry (fsb s) (word_of_nat i)"
    using assms by (simp add: vol_ok_def cluster_limit_def word_less_nat_alt)
qed

lemma table_is_table: "table_is dv cap psz s (fat_table dv cap psz s)"
  by (simp add: table_is_def)

lemma used_table:
  assumes "table_is dv cap psz s' t" and "vol_ok dv cap psz s'" and "i < cluster_limit s'"
  shows "cluster_used dv cap psz s' i \<longleftrightarrow> i < 2 \<or> t (word_of_nat i) \<noteq> CLUSTER_FREE"
  using assms(1) cluster_word(2) [OF assms(3,2)] by (simp add: cluster_used_def table_is_def)

interpretation fat_clusters: slot_allocator "\<lambda>s. vol_ok dv cap psz s \<and> search_ok dv cap psz s" cluster_limit
    "cluster_used dv cap psz" "cluster_owned dv cap psz" "cluster_alloc dv" "cluster_free dv"
  for dv :: "'d block_device" and cap psz :: nat
proof (unfold_locales, goal_cases)
  case (1 s i s')
  then have vol: "vol_ok dv cap psz s" and so: "search_ok dv cap psz s" by auto
  define t where "t = fat_table dv cap psz s"
  from FindFreeCluster_ok [OF vol table_is_table so] 1(2) obtain c where
    c: "vol_ok dv cap psz s'" "search_ok dv cap psz s'" "vol_rest s' = vol_rest s"
      "table_is dv cap psz s' (t(c := CLUSTER_EOC))" "2 \<le> c" "c < cluster_cnt (fsb s)" "t c = CLUSTER_FREE"
      "i = unat c" by (auto simp: cluster_alloc_def t_def split: option.splits)
  have lim: "cluster_limit s' = cluster_limit s"
    using vol_rest_fields [OF c(3)] by (simp add: cluster_limit_def)
  have i: "2 \<le> i" "i < cluster_limit s" "word_of_nat i = c"
    using c(5,6,8) by (simp_all add: cluster_limit_def word_le_nat_alt word_less_nat_alt)
  have used': "cluster_used dv cap psz s' j \<longleftrightarrow> cluster_used dv cap psz s j \<or> j = i" if "j < cluster_limit s" for j
    using that c(1,4,8) used_table [OF c(4,1), of j] cluster_word(1) [OF that vol]
    by (auto simp: lim t_def cluster_used_def)
  have "\<not> cluster_used dv cap psz s i" using i c(7) by (simp add: cluster_used_def t_def)
  with c(1,2) i used' lim show ?case by (auto simp: cluster_owned_def)
next
  case (2 s s')
  then have vol: "vol_ok dv cap psz s" and so: "search_ok dv cap psz s" by auto
  from FindFreeCluster_ok [OF vol table_is_table so] 2(2) have
    c: "vol_ok dv cap psz s'" "search_ok dv cap psz s'" "vol_rest s' = vol_rest s"
      "table_is dv cap psz s' (fat_table dv cap psz s)"
      "\<forall>x. 2 \<le> x \<and> x < cluster_cnt (fsb s) \<longrightarrow> fat_table dv cap psz s x \<noteq> CLUSTER_FREE"
    by (auto simp: cluster_alloc_def split: option.splits)
  have lim: "cluster_limit s' = cluster_limit s"
    using vol_rest_fields [OF c(3)] by (simp add: cluster_limit_def)
  have all: "cluster_used dv cap psz s j" if "j < cluster_limit s" for j
    using c(5) that cluster_word(1) [OF that vol]
    by (auto simp: cluster_used_def cluster_limit_def word_le_nat_alt word_less_nat_alt)
  moreover have "cluster_used dv cap psz s' j" if "j < cluster_limit s" for j
    using all [OF that] used_table [OF c(4,1), of j] that by (simp add: lim cluster_used_def)
  ultimately show ?case using c(1,2) lim by (simp add: cluster_owned_def)
next
  case (3 s i)
  then show ?case by (simp add: cluster_owned_def)
next
  case (4 s i)
  then have vol: "vol_ok dv cap psz s" and so: "search_ok dv cap psz s" and o: "2 \<le> i" "i < cluster_limit s"
    by (auto simp: cluster_owned_def)
  note w = cluster_word [OF o(2) vol]
  have "fat_value (sb_fat_type (fsb s)) CLUSTER_FREE" by (simp add: fat_value_def split: fat_type.splits)
  from vol_write [OF vol w(2) table_is_table this] obtain s' where
    f: "WriteFATEntry dv (word_of_nat i) CLUSTER_FREE s = Some (0, s')" "vol_ok dv cap psz s'"
      "table_is dv cap psz s' ((fat_table dv cap psz s)(word_of_nat i := CLUSTER_FREE))"
      "part_rest s' = part_rest s" by metis
  have fs: "fsb s' = fsb s" using part_rest_fields [OF f(4)] by simp
  then have lim: "cluster_limit s' = cluster_limit s" by (simp add: cluster_limit_def)
  have used': "cluster_used dv cap psz s' j \<longleftrightarrow> cluster_used dv cap psz s j \<and> j \<noteq> i" if "j < cluster_limit s" for j
    using that used_table [OF f(3,2), of j] cluster_word(1) [OF that vol] w(1) o(1)
    by (auto simp: lim cluster_used_def)
  have "search_at (fsb s) ((fat_table dv cap psz s)(word_of_nat i := CLUSTER_FREE))"
    using so w(1) o(1) by (intro search_at_upd) (simp_all add: search_ok_def word_le_nat_alt)
  then have "search_ok dv cap psz s'" by (simp add: search_ok_table [OF f(3)] fs)
  with f(1,2) lim used' show ?case by (auto simp: cluster_free_def cluster_owned_def)
qed

end
