(* ===== verification/FatData.thy ===== *)
theory FatData
  imports FatChain FatFile
begin

text \<open>
  Files as sequences of bytes: the chain of clusters of a file, how \<open>FindCluster\<close> and
  \<open>FreeClusters\<close> walk it, and what \<open>readFile\<close> and \<open>writeFile\<close> do to the bytes of the file.
\<close>

section \<open>Chains\<close>

text \<open>The clusters met from \<open>c\<close> on, up to an entry that is not a cluster number.\<close>

primrec chain :: "(u32 \<Rightarrow> u32) \<Rightarrow> u32 \<Rightarrow> u32 list \<Rightarrow> bool" where
  "chain t c [] \<longleftrightarrow> \<not> allocated c"
| "chain t c (x # xs) \<longleftrightarrow> c = x \<and> allocated c \<and> chain t (t c) xs"

lemma chain_cong: "(\<And>x. x \<in> set xs \<Longrightarrow> t' x = t x) \<Longrightarrow> chain t' c xs \<longleftrightarrow> chain t c xs"
  by (induction xs arbitrary: c) auto

lemma chain_unique: "chain t c xs \<Longrightarrow> chain t c ys \<Longrightarrow> xs = ys"
proof (induction xs arbitrary: c ys)
  case Nil
  then show ?case by (cases ys) auto
next
  case (Cons x xs)
  then show ?case by (cases ys) auto
qed

lemma chain_suffix: "chain t c (as @ x # bs) \<Longrightarrow> chain t x (x # bs)"
  by (induction as arbitrary: c) auto

lemma chain_distinct: "chain t c xs \<Longrightarrow> distinct xs"
proof (induction xs arbitrary: c)
  case (Cons x xs)
  have "x \<notin> set xs"
  proof
    assume "x \<in> set xs"
    then obtain as bs where s: "xs = as @ x # bs" by (auto simp: in_set_conv_decomp)
    with Cons.prems have "chain t (t x) (as @ x # bs)" by auto
    then have "chain t x (x # bs)" by (rule chain_suffix)
    with Cons.prems have "x # bs = x # xs" by (auto intro: chain_unique)
    with s show False by simp
  qed
  with Cons show ?case by auto
qed simp

text \<open>What an operation that only reads leaves as it was: everything but the contents of the cache.\<close>

definition same_view :: "'d block_device \<Rightarrow> nat \<Rightarrow> nat \<Rightarrow> 'd fat_state \<Rightarrow> 'd fat_state \<Rightarrow> bool" where
  "same_view dv cap psz s s' \<longleftrightarrow> vol_ok dv cap psz s' \<and> part_rest s' = part_rest s \<and>
     part_byte dv cap psz s' = part_byte dv cap psz s"

lemma same_view_refl: "vol_ok dv cap psz s \<Longrightarrow> same_view dv cap psz s s"
  by (simp add: same_view_def)

lemma same_view_trans: "same_view dv cap psz s s' \<Longrightarrow> same_view dv cap psz s' s'' \<Longrightarrow> same_view dv cap psz s s''"
  by (simp add: same_view_def)

lemma same_view_fields:
  assumes "same_view dv cap psz s s'"
  shows "vol_ok dv cap psz s'" "fsb s' = fsb s" "the_node i s' = the_node i s" "cluster_bytes s' = cluster_bytes s"
    "fat_table dv cap psz s' = fat_table dv cap psz s" "part_byte dv cap psz s' = part_byte dv cap psz s"
    "part_rest s' = part_rest s"
proof -
  from assms have v: "vol_ok dv cap psz s'" and r: "part_rest s' = part_rest s"
    and p: "part_byte dv cap psz s' = part_byte dv cap psz s" by (simp_all add: same_view_def)
  note f = part_rest_fields [OF r]
  show "vol_ok dv cap psz s'" "fsb s' = fsb s" "the_node i s' = the_node i s" "cluster_bytes s' = cluster_bytes s"
    "part_byte dv cap psz s' = part_byte dv cap psz s" "part_rest s' = part_rest s" by (rule v f p r)+
  show "fat_table dv cap psz s' = fat_table dv cap psz s" by (rule ext) (simp add: fat_table_def f p)
qed

lemma entry_view:
  assumes "vol_ok dv cap psz s" and "has_entry (fsb s) c"
  obtains s' where "ReadFATEntry dv c s = Some (Some (fat_table dv cap psz s c), s')" "same_view dv cap psz s s'"
  using vol_read [OF assms table_is_table] by (auto simp: same_view_def)

lemma find_cluster_loop_ok:
  "vol_ok dv cap psz s \<Longrightarrow> chain (fat_table dv cap psz s) c cs \<Longrightarrow> \<forall>x\<in>set cs. has_entry (fsb s) x \<Longrightarrow>
   \<exists>s'. find_cluster_loop dv n c s = Some (if n < length cs then Some (cs ! n) else None, s') \<and>
     same_view dv cap psz s s'"
proof (induction n arbitrary: c cs s)
  case 0
  then show ?case by (cases cs) (auto intro: same_view_refl)
next
  case (Suc n)
  show ?case
  proof (cases cs)
    case Nil
    with Suc.prems show ?thesis by (auto intro: same_view_refl)
  next
    case (Cons x xs)
    with Suc.prems have c: "allocated c" "x = c" "has_entry (fsb s) c" "chain (fat_table dv cap psz s) (fat_table dv cap psz s c) xs"
      by auto
    from entry_view [OF Suc.prems(1) c(3)] obtain s1 where
      r: "ReadFATEntry dv c s = Some (Some (fat_table dv cap psz s c), s1)" "same_view dv cap psz s s1" .
    note f = same_view_fields [OF r(2)]
    from Suc.IH [of s1 "fat_table dv cap psz s c" xs] f c(4) Suc.prems(3) Cons obtain s2 where
      "find_cluster_loop dv n (fat_table dv cap psz s c) s1 = Some (if n < length xs then Some (xs ! n) else None, s2)"
      "same_view dv cap psz s1 s2" by auto
    with c(1) r Cons show ?thesis by (auto intro: same_view_trans)
  qed
qed

text \<open>Freeing a chain.\<close>

lemma vol_free_value: "fat_value ty CLUSTER_FREE"
  by (simp add: fat_value_def split: fat_type.splits)

lemma FreeClusters_ok:
  "vol_ok dv cap psz s \<Longrightarrow> table_is dv cap psz s t \<Longrightarrow> chain t c cs \<Longrightarrow> \<forall>x\<in>set cs. has_entry (fsb s) x \<Longrightarrow>
   \<exists>s'. FreeClusters dv c s = Some s' \<and> vol_ok dv cap psz s' \<and> part_rest s' = part_rest s \<and>
     table_is dv cap psz s' (\<lambda>x. if x \<in> set cs then CLUSTER_FREE else t x) \<and> data_same dv cap psz s s'"
proof (induction cs arbitrary: c s t)
  case Nil
  then show ?case by (subst FreeClusters.simps) auto
next
  case (Cons x xs)
  from Cons.prems have c: "allocated c" "x = c" "has_entry (fsb s) c" "chain t (t c) xs" by auto
  have dist: "c \<notin> set xs" using chain_distinct [OF Cons.prems(3)] c(2) by simp
  from vol_read [OF Cons.prems(1) c(3) Cons.prems(2)] obtain s1 where
    r: "ReadFATEntry dv c s = Some (Some (t c), s1)" "vol_ok dv cap psz s1" "table_is dv cap psz s1 t"
      "data_same dv cap psz s s1" "part_rest s1 = part_rest s" by metis
  note f1 = part_rest_fields [OF r(5)]
  have "has_entry (fsb s1) c" using c(3) by (simp add: f1)
  from vol_write [OF r(2) this r(3) vol_free_value] obtain s2 where
    w: "WriteFATEntry dv c CLUSTER_FREE s1 = Some (0, s2)" "vol_ok dv cap psz s2"
      "table_is dv cap psz s2 (t(c := CLUSTER_FREE))" "data_same dv cap psz s1 s2" "part_rest s2 = part_rest s1" by metis
  note f2 = part_rest_fields [OF w(5)]
  have "chain (t(c := CLUSTER_FREE)) (t c) xs"
    by (rule chain_cong [THEN iffD2, OF _ c(4)]) (use dist in auto)
  moreover have "\<forall>x\<in>set xs. has_entry (fsb s2) x" using Cons.prems(4) by (simp add: f1 f2)
  ultimately obtain s3 where
    IH: "FreeClusters dv (t c) s2 = Some s3" "vol_ok dv cap psz s3" "part_rest s3 = part_rest s2"
      "table_is dv cap psz s3 (\<lambda>x. if x \<in> set xs then CLUSTER_FREE else (t(c := CLUSTER_FREE)) x)"
      "data_same dv cap psz s2 s3"
    using Cons.IH [OF w(2,3)] by blast
  have eq: "FreeClusters dv c s = Some s3"
    using c(1) r(1) w(1) IH(1) by (subst FreeClusters.simps) simp
  have fe: "(\<lambda>x. if x \<in> set xs then CLUSTER_FREE else (t(c := CLUSTER_FREE)) x) =
      (\<lambda>y. if y \<in> set (x # xs) then CLUSTER_FREE else t y)" using c(2) by (intro ext) simp
  have ds: "data_same dv cap psz s s3"
    using data_same_trans [OF data_same_trans [OF r(4) w(4) vol_rest_part [OF r(5)]] IH(5)]
      vol_rest_part [OF r(5)] vol_rest_part [OF w(5)] by simp
  have "part_rest s3 = part_rest s" using IH(3) r(5) w(5) by simp
  with eq IH(2,4) [unfolded fe] ds show ?case by blast
qed


section \<open>The bytes of a file\<close>

text \<open>
  The clusters of a file lie in the data area, behind the table and inside the partition; position
  \<open>p\<close> of the file is a byte of its cluster number \<open>p div cluster_bytes\<close>.
\<close>

definition spc :: "FatSB \<Rightarrow> nat" where
  "spc sb = unat (sectors_per_cluster (bpb sb))"

definition cluster_start :: "FatSB \<Rightarrow> u32 \<Rightarrow> nat" where
  "cluster_start sb c = unat (first_data_sector sb) + (unat c - 2) * spc sb"

definition data_geom :: "nat \<Rightarrow> FatSB \<Rightarrow> bool" where
  "data_geom psz sb \<longleftrightarrow> spc sb \<noteq> 0 \<and> fat_end sb \<le> unat (first_data_sector sb) * 512 \<and> psz \<le> 4294967296"

definition in_data :: "nat \<Rightarrow> FatSB \<Rightarrow> u32 \<Rightarrow> bool" where
  "in_data psz sb c \<longleftrightarrow> 2 \<le> c \<and> has_entry sb c \<and> cluster_start sb c + spc sb \<le> psz"

definition file_pos :: "FatSB \<Rightarrow> u32 list \<Rightarrow> nat \<Rightarrow> nat" where
  "file_pos sb cs p = cluster_start sb (cs ! (p div (spc sb * 512))) * 512 + p mod (spc sb * 512)"

text \<open>How many bytes the clusters have room for.\<close>

definition room :: "FatSB \<Rightarrow> u32 list \<Rightarrow> nat" where
  "room sb cs = length cs * (spc sb * 512)"

text \<open>Node \<open>i\<close> is a file or directory, not the root, whose clusters are \<open>cs\<close>.\<close>

definition file_at :: "'d block_device \<Rightarrow> nat \<Rightarrow> nat \<Rightarrow> 'd fat_state \<Rightarrow> nat \<Rightarrow> u32 list \<Rightarrow> bool" where
  "file_at dv cap psz s i cs \<longleftrightarrow> vol_ok dv cap psz s \<and> data_geom psz (fsb s) \<and> i \<noteq> ROOT_NODE \<and>
     (\<forall>c\<in>set cs. in_data psz (fsb s) c) \<and>
     (\<exists>n. the_node i s = Some n \<and> \<not> fn_is_root n \<and>
        chain (fat_table dv cap psz s) (GetFirstCluster (fn_dirent n) (fsb s)) cs)"

lemma file_at_view: "same_view dv cap psz s s' \<Longrightarrow> file_at dv cap psz s i cs \<Longrightarrow> file_at dv cap psz s' i cs"
  using same_view_fields [of dv cap psz s s'] by (auto simp: file_at_def)

lemma unat_cluster_bytes: "unat (cluster_bytes s) = spc (fsb s) * 512"
proof -
  have "unat (sectors_per_cluster (bpb (fsb s))) < 256"
    using unsigned_less [of "sectors_per_cluster (bpb (fsb s))", where 'a = nat] by simp
  then have "unat (sectors_per_cluster (bpb (fsb s))) * 512 < 4294967296"
    "unat (sectors_per_cluster (bpb (fsb s))) < 4294967296" by linarith+
  then show ?thesis
    by (simp add: cluster_bytes_def spc_def unat_word_ariths unsigned_ucast_eq unsigned_take_bit_eq take_bit_eq_mod)
qed

lemma div_less_len: "m \<noteq> 0 \<Longrightarrow> p < n * m \<Longrightarrow> p div m < n" for p m n :: nat
  by (simp add: less_mult_imp_div_less)

lemma FindCluster_ok:
  assumes "file_at dv cap psz s i cs"
  shows "\<exists>s'. FindCluster dv i offset s =
      Some (if unat offset < room (fsb s) cs then Some (cs ! (unat offset div (spc (fsb s) * 512))) else None, s') \<and>
    same_view dv cap psz s s' \<and> file_at dv cap psz s' i cs"
proof -
  from assms obtain n where n: "vol_ok dv cap psz s" "spc (fsb s) \<noteq> 0" "the_node i s = Some n" "\<not> fn_is_root n"
    "chain (fat_table dv cap psz s) (GetFirstCluster (fn_dirent n) (fsb s)) cs" "\<forall>x\<in>set cs. has_entry (fsb s) x"
    by (auto simp: file_at_def data_geom_def in_data_def)
  have cb: "cluster_bytes s \<noteq> 0" using n(2) unat_cluster_bytes [of s] by auto
  have d: "unat (offset div cluster_bytes s) = unat offset div (spc (fsb s) * 512)"
    by (simp add: unat_div unat_cluster_bytes)
  from find_cluster_loop_ok [OF n(1,5,6), of "unat (offset div cluster_bytes s)"] obtain s' where
    f: "find_cluster_loop dv (unat (offset div cluster_bytes s)) (GetFirstCluster (fn_dirent n) (fsb s)) s =
      Some (if unat offset div (spc (fsb s) * 512) < length cs then Some (cs ! (unat offset div (spc (fsb s) * 512))) else None, s')"
      "same_view dv cap psz s s'" unfolding d by blast
  have "unat offset div (spc (fsb s) * 512) < length cs \<longleftrightarrow> unat offset < room (fsb s) cs"
    using n(2) by (simp add: room_def div_less_iff_less_mult)
  with f n cb file_at_view [OF f(2) assms] show ?thesis by (simp add: FindCluster_def)
qed

text \<open>A position of the file as the code computes it, and a transfer from there.\<close>

lemma ClusterToSector_start:
  assumes "in_data psz sb c" and "spc sb \<noteq> 0" and "psz \<le> 4294967296"
  shows "unat (ClusterToSector c sb) = cluster_start sb c"
proof -
  have "2 \<le> unat c" using assms(1) by (simp add: in_data_def word_le_nat_alt)
  then have "ClusterToSector c sb = word_of_nat (cluster_start sb c)"
    by (simp add: ClusterToSector_def cluster_start_def spc_def add.commute)
  moreover have "cluster_start sb c < 4294967296" using assms by (simp add: in_data_def)
  ultimately show ?thesis by (simp only: unat_word_of_nat32)
qed

lemma file_cluster:
  assumes "file_at dv cap psz s i cs" and "p < room (fsb s) cs"
  shows "in_data psz (fsb s) (cs ! (p div (spc (fsb s) * 512)))"
proof -
  have "p div (spc (fsb s) * 512) < length cs"
    using assms by (intro div_less_len) (auto simp: room_def file_at_def data_geom_def)
  with assms(1) show ?thesis by (simp add: file_at_def)
qed

lemma cluster_position_ok:
  assumes "file_at dv cap psz s i cs" and "unat offset < room (fsb s) cs" and "unat offset < 2147483648"
    and "cluster_position (cs ! (unat offset div (spc (fsb s) * 512))) offset s = (sector, so)"
  shows "pos_of sector so = file_pos (fsb s) cs (unat offset)" and "unat so = unat offset mod 512"
proof -
  define c where "c = cs ! (unat offset div (spc (fsb s) * 512))"
  define r where "r = unat offset mod (spc (fsb s) * 512)"
  have g: "spc (fsb s) \<noteq> 0" "psz \<le> 4294967296" using assms(1) by (simp_all add: file_at_def data_geom_def)
  have ind: "in_data psz (fsb s) c" unfolding c_def by (rule file_cluster [OF assms(1,2)])
  have st: "unat (ClusterToSector c (fsb s)) = cluster_start (fsb s) c" by (rule ClusterToSector_start [OF ind g])
  note om = off_div_mod [OF assms(3)]
  have sec: "sector = ClusterToSector c (fsb s) + offset mod cluster_bytes s div 512" and so: "so = offset mod 512"
    using assms(4) by (simp_all add: cluster_position_def om c_def)
  have rlt: "r < spc (fsb s) * 512" using g(1) by (simp add: r_def)
  have "r div 512 < spc (fsb s)" using rlt by (simp add: div_less_iff_less_mult)
  then have "cluster_start (fsb s) c + r div 512 < 4294967296" using ind g(2) by (simp add: in_data_def)
  moreover have "r < 4294967296" unfolding r_def by (rule le_less_trans [OF mod_less_eq_dividend unat_u32_lt])
  ultimately have us: "unat sector = cluster_start (fsb s) c + r div 512"
    unfolding sec by (simp add: unat_word_ariths st unat_div unat_mod unat_cluster_bytes flip: r_def)
  show uo: "unat so = unat offset mod 512" by (simp add: so unat_mod)
  have "unat offset mod 512 = r mod 512" unfolding r_def by (simp add: mod_mod_cancel)
  then show "pos_of sector so = file_pos (fsb s) cs (unat offset)"
    unfolding pos_of_def us uo file_pos_def c_def [symmetric] r_def [symmetric] by simp
qed

lemma unat_transfer:
  assumes "so < 512" and "left \<noteq> 0"
  shows "unat (transfer_nbytes left so) = min (unat left) (512 - unat so)" and "transfer_nbytes left so \<noteq> 0"
proof -
  have "unat so < 512" using assms(1) by (simp add: word_less_nat_alt)
  then have u: "unat (512 - so) = 512 - unat so" by (simp add: unat_sub word_le_nat_alt)
  then show m: "unat (transfer_nbytes left so) = min (unat left) (512 - unat so)"
    by (auto simp: transfer_nbytes_def Let_def word_less_nat_alt)
  have "0 < unat left" using assms(2) by (simp add: unat_gt_0)
  with m \<open>unat so < 512\<close> show "transfer_nbytes left so \<noteq> 0" by (simp flip: unat_gt_0)
qed

lemma run_in_cluster:
  fixes p m k j :: nat
  assumes "k \<le> 512 - p mod 512" and "j < k"
  shows "(p + j) div (m * 512) = p div (m * 512)" and "(p + j) mod (m * 512) = p mod (m * 512) + j"
proof -
  have j: "p mod 512 + j < 512" using assms by simp
  show "(p + j) div (m * 512) = p div (m * 512)"
  proof -
    have "(p + j) div 512 = p div 512" proof (rule div_nat_eqI)
      have "x + j < 512 * Suc q" if "512 * q + r = x" "r + j < 512" for x q r :: nat using that by simp
      then show "p + j < 512 * Suc (p div 512)" using mult_div_mod_eq j by blast
      show "512 * (p div 512) \<le> p + j" by (rule trans_le_add1) simp
    qed
    then show ?thesis unfolding mult.commute [of m] div_mult2_eq by simp
  qed
  then show "(p + j) mod (m * 512) = p mod (m * 512) + j"
    by (metis add.assoc add_left_imp_eq div_mult_mod_eq)
qed


lemma file_pos_run:
  "k \<le> 512 - p mod 512 \<Longrightarrow> j < k \<Longrightarrow> file_pos sb cs (p + j) = file_pos sb cs p + j"
  by (simp add: file_pos_def run_in_cluster)

text \<open>A transfer stays in the partition and behind the table.\<close>

lemma transfer_fits:
  assumes "file_at dv cap psz s i cs" and "p < room (fsb s) cs" and "k \<le> 512 - p mod 512" and "0 < k"
  shows "file_pos (fsb s) cs p + k \<le> psz * 512" and "fat_end (fsb s) \<le> file_pos (fsb s) cs p"
    and "p + k \<le> room (fsb s) cs"
proof -
  define m where "m = spc (fsb s) * 512"
  define c where "c = cs ! (p div m)"
  have g: "spc (fsb s) \<noteq> 0" "fat_end (fsb s) \<le> unat (first_data_sector (fsb s)) * 512"
    using assms(1) by (simp_all add: file_at_def data_geom_def)
  then have m: "0 < m" by (simp add: m_def)
  have ind: "in_data psz (fsb s) c" unfolding c_def m_def by (rule file_cluster [OF assms(1,2)])
  have dm: "(p + (k - 1)) div m = p div m" "(p + (k - 1)) mod m = p mod m + (k - 1)"
    using run_in_cluster [OF assms(3), of "k - 1" "spc (fsb s)"] assms(4) by (simp_all add: m_def)
  have "p mod m + (k - 1) < m" using dm(2) mod_less_divisor [OF m, of "p + (k - 1)"] by simp
  then have r: "p mod m + k \<le> m" using assms(4) by simp
  have fp: "file_pos (fsb s) cs p = cluster_start (fsb s) c * 512 + p mod m"
    by (simp only: file_pos_def m_def c_def)
  have "cluster_start (fsb s) c * 512 + m \<le> psz * 512"
    using ind by (simp add: in_data_def m_def)
  with r show "file_pos (fsb s) cs p + k \<le> psz * 512" unfolding fp by linarith
  have "unat (first_data_sector (fsb s)) * 512 \<le> cluster_start (fsb s) c * 512" by (simp add: cluster_start_def)
  with g(2) show "fat_end (fsb s) \<le> file_pos (fsb s) cs p" unfolding fp by linarith
  have "p div m < length cs" using assms(2) m by (intro div_less_len) (simp_all add: room_def m_def)
  then have "(p + (k - 1)) div m < length cs" unfolding dm(1) .
  then have "p + (k - 1) < length cs * m" unfolding div_less_iff_less_mult [OF m] .
  then show "p + k \<le> room (fsb s) cs" using assms(4) by (simp add: room_def m_def)
qed

text \<open>Different positions of a file are different bytes.\<close>

lemma cluster_apart:
  fixes a b m :: nat
  assumes "2 \<le> a" and "a < b"
  shows "(a - 2) * m + m \<le> (b - 2) * m"
proof -
  from assms have "Suc (a - 2) \<le> b - 2" by simp
  then have "Suc (a - 2) * m \<le> (b - 2) * m" by (rule mult_le_mono1)
  then show ?thesis by simp
qed

lemma file_pos_inj:
  assumes "file_at dv cap psz s i cs" and "p < room (fsb s) cs" and "q < room (fsb s) cs"
    and "file_pos (fsb s) cs p = file_pos (fsb s) cs q"
  shows "p = q"
proof -
  define k where "k = spc (fsb s)"
  have k: "0 < k" using assms(1) by (simp add: file_at_def data_geom_def k_def)
  define c where "c x = cs ! (x div (k * 512))" for x
  have st: "file_pos (fsb s) cs x = cluster_start (fsb s) (c x) * 512 + x mod (k * 512)" for x
    by (simp add: file_pos_def c_def k_def)
  have two: "2 \<le> unat (c x)" if "x < room (fsb s) cs" for x
    using file_cluster [OF assms(1) that] by (simp add: c_def k_def in_data_def word_le_nat_alt)
  have lt: "file_pos (fsb s) cs x < file_pos (fsb s) cs y" if "2 \<le> unat (c x)" "unat (c x) < unat (c y)" for x y
  proof -
    have "cluster_start (fsb s) (c x) + k \<le> cluster_start (fsb s) (c y)"
      using cluster_apart [OF that, of k] by (simp add: cluster_start_def k_def)
    then have "cluster_start (fsb s) (c x) * 512 + k * 512 \<le> cluster_start (fsb s) (c y) * 512" by simp
    moreover have "x mod (k * 512) < k * 512" using k by simp
    ultimately show ?thesis unfolding st by linarith
  qed
  have cc: "c p = c q"
    using lt [of p q] lt [of q p] two [OF assms(2)] two [OF assms(3)] assms(4)
    by (metis less_irrefl linorder_neqE_nat word_unat_eq_iff)
  have len: "x div (k * 512) < length cs" if "x < room (fsb s) cs" for x
    using that k by (intro div_less_len) (simp_all add: room_def k_def)
  obtain n :: FatNode where "chain (fat_table dv cap psz s) (GetFirstCluster (fn_dirent n) (fsb s)) cs"
    using assms(1) by (auto simp: file_at_def)
  then have "distinct cs" by (rule chain_distinct)
  with cc have d: "p div (k * 512) = q div (k * 512)"
    using len [OF assms(2)] len [OF assms(3)] by (simp add: c_def nth_eq_iff_index_eq)
  moreover have "p mod (k * 512) = q mod (k * 512)" using assms(4) cc by (simp add: st)
  ultimately show ?thesis by (metis div_mult_mod_eq)
qed


section \<open>Reading\<close>

definition file_bytes :: "FatSB \<Rightarrow> u32 list \<Rightarrow> nat \<Rightarrow> nat \<Rightarrow> (nat \<Rightarrow> byte) \<Rightarrow> bytes" where
  "file_bytes sb cs p n f = map (\<lambda>q. f (file_pos sb cs q)) [p..<p + n]"

lemma length_file_bytes [simp]: "length (file_bytes sb cs p n f) = n"
  by (simp add: file_bytes_def)

lemma file_bytes_append: "file_bytes sb cs p m f @ file_bytes sb cs (p + m) n f = file_bytes sb cs p (m + n) f"
  using upt_add_eq_append [of p "p + m" n] by (simp add: file_bytes_def add.assoc)

lemma file_bytes_run:
  "k \<le> 512 - p mod 512 \<Longrightarrow> file_bytes sb cs p k f = rd_bytes (file_pos sb cs p) k f"
  by (intro nth_equalityI) (simp_all add: file_bytes_def file_pos_run)

lemma readSector_view:
  assumes "vol_ok dv cap psz s" and "off < 512" and "pos_of sector off + unat n \<le> psz * 512"
  obtains s' where "readSector dv sector off n s =
      Some (0, rd_bytes (pos_of sector off) (unat n) (part_byte dv cap psz s), s')" "same_view dv cap psz s s'"
proof -
  from assms(1) have po: "part_ok dv cap psz s" by (simp add: vol_ok_def fat_ok_def)
  from readSector_ok [OF po assms(2,3)] obtain s' where
    r: "readSector dv sector off n s = Some (0, rd_bytes (pos_of sector off) (unat n) (part_byte dv cap psz s), s')"
    "part_ok dv cap psz s'" "part_byte dv cap psz s' = part_byte dv cap psz s" "part_rest s' = part_rest s" by blast
  have "same_view dv cap psz s s'"
    using r(2-4) assms(1) by (simp add: same_view_def vol_ok_def fat_ok_def part_rest_fields [OF r(4)])
  with r(1) show ?thesis by (rule that)
qed

lemma fat_read_loop_ok:
  "file_at dv cap psz s i cs \<Longrightarrow> unat offset + unat left \<le> room (fsb s) cs \<Longrightarrow>
   unat offset + unat left \<le> 2147483648 \<Longrightarrow>
   \<exists>s'. fat_read_loop dv i left offset s =
       Some (file_bytes (fsb s) cs (unat offset) (unat left) (part_byte dv cap psz s), s') \<and>
     same_view dv cap psz s s'"
proof (induction "unat left" arbitrary: left offset s rule: less_induct)
  case less
  note fa = less.prems(1) and rm = less.prems(2) and sm = less.prems(3)
  note step = fat_read_loop.simps [of dv i left offset s]
  have vol: "vol_ok dv cap psz s" using fa by (simp add: file_at_def)
  show ?case
  proof (cases "left = 0")
    case True
    with same_view_refl [OF vol] show ?thesis by (simp add: fat_read_loop.simps [of dv i 0] file_bytes_def)
  next
    case False
    then have l0: "0 < unat left" by (simp add: unat_gt_0)
    define p where "p = unat offset"
    have pr: "p < room (fsb s) cs" and ps: "p < 2147483648" using l0 rm sm by (simp_all add: p_def)
    from FindCluster_ok [OF fa, of offset] pr obtain s1 where
      f: "FindCluster dv i offset s = Some (Some (cs ! (p div (spc (fsb s) * 512))), s1)"
        "same_view dv cap psz s s1" "file_at dv cap psz s1 i cs" by (auto simp: p_def)
    note v1 = same_view_fields [OF f(2)]
    obtain sector so where cp: "cluster_position (cs ! (p div (spc (fsb s) * 512))) offset s1 = (sector, so)" by fastforce
    note pos = cluster_position_ok [OF f(3), of offset sector so, unfolded v1, folded p_def, OF pr ps cp]
    have so: "so < 512" using pos(2) by (simp add: word_less_nat_alt)
    define n where "n = transfer_nbytes left so"
    note un = unat_transfer [OF so False, folded n_def]
    have k: "unat n \<le> 512 - p mod 512" "0 < unat n" using un False pos(2) by (simp_all add: unat_gt_0)
    note fit = transfer_fits [OF fa pr k]
    have "pos_of sector so + unat n \<le> psz * 512" using fit(1) pos(1) by simp
    from readSector_view [OF v1(1) so this] obtain s2 where
      r: "readSector dv sector so n s1 = Some (0, file_bytes (fsb s) cs p (unat n) (part_byte dv cap psz s), s2)"
        "same_view dv cap psz s1 s2" unfolding pos(1) v1 file_bytes_run [OF k(1), symmetric] by blast
    note v2 = same_view_fields [OF r(2), unfolded v1]
    have nle: "n \<le> left" by (simp add: n_def transfer_nbytes_le)
    then have ul: "unat (left - n) = unat left - unat n" by (simp add: unat_sub)
    have nle': "unat n \<le> unat left" using nle by (simp add: word_le_nat_alt)
    have uo: "unat (offset + n) = p + unat n" using nle' sm by (simp add: unat_word_ariths p_def)
    have fa2: "file_at dv cap psz s2 i cs" by (rule file_at_view [OF r(2) f(3)])
    have "unat (left - n) < unat left" using ul k(2) l0 by simp
    from less.hyps [OF this fa2, of "offset + n"] obtain s3 where
      IH: "fat_read_loop dv i (left - n) (offset + n) s2 =
        Some (file_bytes (fsb s) cs (p + unat n) (unat left - unat n) (part_byte dv cap psz s), s3)"
        "same_view dv cap psz s2 s3" using rm sm nle' by (auto simp: uo ul v2 p_def)
    have "file_bytes (fsb s) cs p (unat n) f @ file_bytes (fsb s) cs (p + unat n) (unat left - unat n) f =
        file_bytes (fsb s) cs p (unat left) f" for f
      using nle' by (simp add: file_bytes_append)
    then have "fat_read_loop dv i left offset s =
        Some (file_bytes (fsb s) cs p (unat left) (part_byte dv cap psz s), s3)"
      using False f(1) cp r(1) IH(1) un(2) by (simp add: step n_def [symmetric])
    moreover have "same_view dv cap psz s s3"
      using same_view_trans [OF same_view_trans [OF f(2) r(2)] IH(2)] .
    ultimately show ?thesis by (simp add: p_def)
  qed
qed



section \<open>Writing\<close>

text \<open>A write into the data area leaves the entries of the table alone.\<close>

lemma fat_entry_low:
  assumes "has_entry sb c" and "sb_fat_type sb \<noteq> TYPE_FAT32" and "fat_cnt (bpb sb) \<noteq> 0"
    and "\<And>a. a < fat_end sb \<Longrightarrow> f' a = f a"
  shows "fat_entry be sb f' c = fat_entry be sb f c"
proof -
  have w: "fat_width (sb_fat_type sb) = 2" using assms(2) by (cases "sb_fat_type sb") (simp_all add: fat_width_def)
  have "0 < unat (fat_cnt (bpb sb))" using assms(3) by (simp add: unat_gt_0)
  then have "entry_pos sb 0 c + 2 \<le> fat_end sb"
    unfolding fat_end_def by (rule entry_in_copy(2) [OF assms(1,2)])
  then have "rd_bytes (entry_pos sb 0 c) 2 f' = rd_bytes (entry_pos sb 0 c) 2 f"
    by (intro rd_bytes_cong assms(4)) simp
  then show ?thesis by (simp add: fat_entry_def Let_def w)
qed

lemma file_at_low:
  assumes "file_at dv cap psz s i cs" and "vol_ok dv cap psz s'" and "fsb s' = fsb s" and "the_node i s' = the_node i s"
    and "fat_be s' = fat_be s" and "\<And>a. a < fat_end (fsb s) \<Longrightarrow> part_byte dv cap psz s' a = part_byte dv cap psz s a"
  shows "file_at dv cap psz s' i cs"
proof -
  from assms(1) have d: "data_geom psz (fsb s)" "i \<noteq> ROOT_NODE" "\<forall>c\<in>set cs. in_data psz (fsb s) c"
    and v: "sb_fat_type (fsb s) \<noteq> TYPE_FAT32" "fat_cnt (bpb (fsb s)) \<noteq> 0"
    by (simp_all add: file_at_def vol_ok_def fat_ok_def fat_geom_def)
  from assms(1) obtain n where n: "the_node i s = Some n" "\<not> fn_is_root n"
    "chain (fat_table dv cap psz s) (GetFirstCluster (fn_dirent n) (fsb s)) cs" by (auto simp: file_at_def)
  have "fat_table dv cap psz s' c = fat_table dv cap psz s c" if "c \<in> set cs" for c
    using fat_entry_low [OF _ v assms(6)] d(3) that by (simp add: fat_table_def assms(3,5) in_data_def)
  with n(3) have "chain (fat_table dv cap psz s') (GetFirstCluster (fn_dirent n) (fsb s)) cs"
    using chain_cong [of cs "fat_table dv cap psz s'" "fat_table dv cap psz s"] by blast
  with n(1,2) d assms(2-4) show ?thesis by (simp add: file_at_def)
qed

text \<open>Some bytes of the file from \<open>p\<close> on are replaced by the first \<open>n\<close> of \<open>src\<close>.\<close>

definition file_splice :: "FatSB \<Rightarrow> u32 list \<Rightarrow> nat \<Rightarrow> nat \<Rightarrow> bytes \<Rightarrow> (nat \<Rightarrow> byte) \<Rightarrow> (nat \<Rightarrow> byte) \<Rightarrow> bool" where
  "file_splice sb cs p n src f f' \<longleftrightarrow>
     (\<forall>q < room sb cs. f' (file_pos sb cs q) = (if p \<le> q \<and> q < p + n then src ! (q - p) else f (file_pos sb cs q))) \<and>
     (\<forall>a. a \<notin> file_pos sb cs ` {p..<p + n} \<longrightarrow> f' a = f a)"

lemma file_splice_run:
  assumes "file_at dv cap psz s i cs" and "p < room (fsb s) cs" and "k \<le> 512 - p mod 512" and "0 < k" and "k \<le> length src"
  shows "file_splice (fsb s) cs p k src f (wr_bytes (file_pos (fsb s) cs p) (take k src) f)"
proof -
  note fit = transfer_fits [OF assms(1-4)]
  let ?f' = "wr_bytes (file_pos (fsb s) cs p) (take k src) f"
  have in_run: "file_pos (fsb s) cs (p + j) = file_pos (fsb s) cs p + j" if "j < k" for j
    using that assms(3) by (rule file_pos_run [rotated])
  have other: "?f' a = f a" if a: "a \<notin> file_pos (fsb s) cs ` {p..<p + k}" for a
  proof -
    have "a \<noteq> file_pos (fsb s) cs p + j" if "j < k" for j
      using a in_run [OF that] that by (metis atLeastLessThan_iff imageI le_add1 nat_add_left_cancel_less)
    then have "\<not> (file_pos (fsb s) cs p \<le> a \<and> a < file_pos (fsb s) cs p + k)"
      by (metis le_add_diff_inverse nat_add_left_cancel_less)
    then show ?thesis using assms(5) by (auto simp: wr_bytes_def)
  qed
  moreover have "?f' (file_pos (fsb s) cs q) = (if p \<le> q \<and> q < p + k then src ! (q - p) else f (file_pos (fsb s) cs q))"
    if q: "q < room (fsb s) cs" for q
  proof (cases "p \<le> q \<and> q < p + k")
    case True
    then have "file_pos (fsb s) cs q = file_pos (fsb s) cs p + (q - p)" using in_run [of "q - p"] by auto
    with True assms(5) show ?thesis by (auto simp: wr_bytes_def)
  next
    case False
    have "file_pos (fsb s) cs q \<notin> file_pos (fsb s) cs ` {p..<p + k}"
    proof
      assume "file_pos (fsb s) cs q \<in> file_pos (fsb s) cs ` {p..<p + k}"
      then obtain r where r: "p \<le> r" "r < p + k" "file_pos (fsb s) cs q = file_pos (fsb s) cs r" by auto
      from r(2) fit(3) have "r < room (fsb s) cs" by simp
      from file_pos_inj [OF assms(1) q this r(3)] r(1,2) False show False by simp
    qed
    with other False show ?thesis by auto
  qed
  ultimately show ?thesis by (simp add: file_splice_def)
qed

lemma file_splice_trans:
  assumes "file_splice sb cs p m src f f'" and "file_splice sb cs (p + m) n (drop m src) f' f''" and "m \<le> length src"
  shows "file_splice sb cs p (m + n) src f f''"
proof -
  have "f'' (file_pos sb cs q) = (if p \<le> q \<and> q < p + (m + n) then src ! (q - p) else f (file_pos sb cs q))"
    if q: "q < room sb cs" for q
  proof -
    have a: "f' (file_pos sb cs q) = (if p \<le> q \<and> q < p + m then src ! (q - p) else f (file_pos sb cs q))"
      using assms(1) q by (simp add: file_splice_def)
    have b: "f'' (file_pos sb cs q) = (if p + m \<le> q \<and> q < p + m + n then drop m src ! (q - (p + m)) else f' (file_pos sb cs q))"
      using assms(2) q by (simp add: file_splice_def)
    show ?thesis unfolding b a using assms(3) by auto
  qed
  moreover have "f'' a = f a" if "a \<notin> file_pos sb cs ` {p..<p + (m + n)}" for a
  proof -
    have "{p..<p + m} \<subseteq> {p..<p + (m + n)}" "{p + m..<p + m + n} \<subseteq> {p..<p + (m + n)}" by auto
    with that have "a \<notin> file_pos sb cs ` {p..<p + m}" "a \<notin> file_pos sb cs ` {p + m..<p + m + n}" by blast+
    with assms(1,2) show ?thesis by (simp add: file_splice_def)
  qed
  ultimately show ?thesis by (simp add: file_splice_def)
qed


lemma writeSector_file:
  assumes fa: "file_at dv cap psz s i cs" and "p < room (fsb s) cs" and "unat n \<le> 512 - p mod 512" and "n \<noteq> 0"
    and "pos_of sector so = file_pos (fsb s) cs p" and "so < 512" and "unat n \<le> length src"
  obtains s' where "writeSector dv (Some src) sector so n s = Some (0, s')" "file_at dv cap psz s' i cs"
    "part_rest s' = part_rest s"
    "file_splice (fsb s) cs p (unat n) src (part_byte dv cap psz s) (part_byte dv cap psz s')"
proof -
  have n0: "0 < unat n" using assms(4) by (simp add: unat_gt_0)
  note fit = transfer_fits [OF fa assms(2,3) n0]
  have vol: "vol_ok dv cap psz s" using fa by (simp add: file_at_def)
  then have po: "part_ok dv cap psz s" by (simp add: vol_ok_def fat_ok_def)
  from writeSector_ok [OF po assms(6), of sector n "Some src"] fit(1) assms(5,7) obtain s' where
    w: "writeSector dv (Some src) sector so n s = Some (0, s')" "part_ok dv cap psz s'" "part_rest s' = part_rest s"
      "part_byte dv cap psz s' = wr_bytes (file_pos (fsb s) cs p) (take (unat n) src) (part_byte dv cap psz s)" by auto
  note f = part_rest_fields [OF w(3)]
  have vol': "vol_ok dv cap psz s'" using w(2) vol by (simp add: vol_ok_def fat_ok_def f)
  have "part_byte dv cap psz s' a = part_byte dv cap psz s a" if "a < fat_end (fsb s)" for a
    unfolding w(4) using that fit(2) by (intro wr_bytes_other) simp
  then have "file_at dv cap psz s' i cs" by (intro file_at_low [OF fa vol' f(2,5,1)])
  moreover have "file_splice (fsb s) cs p (unat n) src (part_byte dv cap psz s) (part_byte dv cap psz s')"
    unfolding w(4) by (rule file_splice_run [OF fa assms(2,3) n0 assms(7)])
  ultimately show ?thesis using w(1,3) that by blast
qed

lemma fat_write_loop_ok:
  "file_at dv cap psz s i cs \<Longrightarrow> unat offset + unat left \<le> room (fsb s) cs \<Longrightarrow>
   unat offset + unat left \<le> 2147483648 \<Longrightarrow> unat left \<le> length src \<Longrightarrow>
   \<exists>s'. fat_write_loop dv i src left offset s = Some (True, 0, offset + left, s') \<and>
     file_at dv cap psz s' i cs \<and> part_rest s' = part_rest s \<and>
     file_splice (fsb s) cs (unat offset) (unat left) src (part_byte dv cap psz s) (part_byte dv cap psz s')"
proof (induction "unat left" arbitrary: left offset src s rule: less_induct)
  case less
  note fa = less.prems(1) and rm = less.prems(2) and sm = less.prems(3) and len = less.prems(4)
  show ?case
  proof (cases "left = 0")
    case True
    with fa show ?thesis by (auto simp: fat_write_loop.simps [of dv i src 0] file_splice_def)
  next
    case False
    then have l0: "0 < unat left" by (simp add: unat_gt_0)
    define p where "p = unat offset"
    have pr: "p < room (fsb s) cs" and ps: "p < 2147483648" using l0 rm sm by (simp_all add: p_def)
    from FindCluster_ok [OF fa, of offset] pr obtain s1 where
      f: "FindCluster dv i offset s = Some (Some (cs ! (p div (spc (fsb s) * 512))), s1)"
        "same_view dv cap psz s s1" "file_at dv cap psz s1 i cs" by (auto simp: p_def)
    note v1 = same_view_fields [OF f(2)]
    have wc: "write_cluster dv i offset s = Some (Some (cs ! (p div (spc (fsb s) * 512))), s1)"
      using f(1) by (subst write_cluster.simps) simp
    obtain sector so where cp: "cluster_position (cs ! (p div (spc (fsb s) * 512))) offset s1 = (sector, so)" by fastforce
    note pos = cluster_position_ok [OF f(3), of offset sector so, unfolded v1, folded p_def, OF pr ps cp]
    have so: "so < 512" using pos(2) by (simp add: word_less_nat_alt)
    define n where "n = transfer_nbytes left so"
    note un = unat_transfer [OF so False, folded n_def]
    have k: "unat n \<le> 512 - p mod 512" using un pos(2) by simp
    have nle: "n \<le> left" by (simp add: n_def transfer_nbytes_le)
    then have ul: "unat (left - n) = unat left - unat n" by (simp add: unat_sub)
    have nle': "unat n \<le> unat left" using nle by (simp add: word_le_nat_alt)
    have uo: "unat (offset + n) = p + unat n" using nle' sm by (simp add: unat_word_ariths p_def)
    have nlen: "unat n \<le> length src" using nle' len by simp
    from writeSector_file [OF f(3), unfolded v1, OF pr k un(2) pos(1) so nlen] obtain s2 where
      w: "writeSector dv (Some src) sector so n s1 = Some (0, s2)" "file_at dv cap psz s2 i cs"
        "part_rest s2 = part_rest s"
        "file_splice (fsb s) cs p (unat n) src (part_byte dv cap psz s) (part_byte dv cap psz s2)"
      using v1(7) by metis
    have fs2: "fsb s2 = fsb s" using part_rest_fields [OF w(3)] by simp
    have "unat (left - n) < unat left" using ul un(2) l0 by (simp add: unat_gt_0)
    moreover have "unat left - unat n \<le> length (drop (unat n) src)" using len by simp
    ultimately obtain s3 where
      IH: "fat_write_loop dv i (drop (unat n) src) (left - n) (offset + n) s2 = Some (True, 0, offset + left, s3)"
        "file_at dv cap psz s3 i cs" "part_rest s3 = part_rest s"
        "file_splice (fsb s) cs (p + unat n) (unat left - unat n) (drop (unat n) src)
           (part_byte dv cap psz s2) (part_byte dv cap psz s3)"
      using less.hyps [of "left - n" s2 "offset + n" "drop (unat n) src"] w(2,3) rm sm nle'
      by (auto simp: uo ul fs2 p_def)
    have "fat_write_loop dv i src left offset s = Some (True, 0, offset + left, s3)"
      using False wc cp w(1) IH(1) un(2) by (simp add: fat_write_loop.simps [of dv i src left offset s] n_def [symmetric])
    moreover have "file_splice (fsb s) cs p (unat left) src (part_byte dv cap psz s) (part_byte dv cap psz s3)"
      using file_splice_trans [OF w(4) IH(4) nlen] nle' by simp
    ultimately show ?thesis using IH(2,3) by (auto simp: p_def)
  qed
qed


section \<open>Files\<close>

definition node_size :: "'d fat_state \<Rightarrow> nat \<Rightarrow> nat" where
  "node_size s i = (case the_node i s of Some n \<Rightarrow> unat (fd_size (fn_dirent n)) | None \<Rightarrow> 0)"

text \<open>A file with the clusters \<open>cs\<close>, which have room for all of it, below 2 GB.\<close>

definition file_ok :: "'d block_device \<Rightarrow> nat \<Rightarrow> nat \<Rightarrow> 'd fat_state \<Rightarrow> nat \<Rightarrow> u32 list \<Rightarrow> bool" where
  "file_ok dv cap psz s i cs \<longleftrightarrow> file_at dv cap psz s i cs \<and>
     node_size s i \<le> room (fsb s) cs \<and> node_size s i \<le> 2147483648"

definition file_content :: "'d block_device \<Rightarrow> nat \<Rightarrow> nat \<Rightarrow> 'd fat_state \<Rightarrow> nat \<Rightarrow> u32 list \<Rightarrow> bytes" where
  "file_content dv cap psz s i cs = file_bytes (fsb s) cs 0 (node_size s i) (part_byte dv cap psz s)"

lemma length_file_content [simp]: "length (file_content dv cap psz s i cs) = node_size s i"
  by (simp add: file_content_def)

lemma nth_file_content:
  "q < node_size s i \<Longrightarrow> file_content dv cap psz s i cs ! q = part_byte dv cap psz s (file_pos (fsb s) cs q)"
  by (simp add: file_content_def file_bytes_def)

lemma file_bytes_slice:
  "p + n \<le> m \<Longrightarrow> file_bytes sb cs p n f = take n (drop p (file_bytes sb cs 0 m f))"
  by (intro nth_equalityI) (simp_all add: file_bytes_def)

lemma readFile_ok:
  assumes "file_ok dv cap psz s i cs"
  obtains s' where "readFile dv i count offset s =
      Some (take (unat count) (drop (unat offset) (file_content dv cap psz s i cs)), s')"
    "same_view dv cap psz s s'"
proof -
  from assms have fa: "file_at dv cap psz s i cs"
    and sz: "node_size s i \<le> room (fsb s) cs" "node_size s i \<le> 2147483648" by (simp_all add: file_ok_def)
  from fa obtain n where n: "the_node i s = Some n" by (auto simp: file_at_def)
  define left where "left = (if fd_size (fn_dirent n) \<le> offset then 0
     else if count < fd_size (fn_dirent n) - offset then count else fd_size (fn_dirent n) - offset)"
  have ns: "node_size s i = unat (fd_size (fn_dirent n))" by (simp add: node_size_def n)
  have l: "unat left = min (unat count) (node_size s i - unat offset)"
    by (auto simp: left_def ns word_less_nat_alt word_le_nat_alt unat_sub)
  have eq: "readFile dv i count offset s = fat_read_loop dv i left offset s"
    by (simp add: readFile_def n left_def Let_def)
  show ?thesis
  proof (cases "node_size s i \<le> unat offset")
    case True
    then have "left = 0" using l by (simp add: unat_eq_zero)
    then have r: "readFile dv i count offset s = Some ([], s)" by (simp add: eq fat_read_loop.simps [of dv i 0])
    show ?thesis by (rule that [of s]) (use r True fa in \<open>simp_all add: same_view_refl file_at_def\<close>)
  next
    case False
    then have b: "unat offset + unat left \<le> node_size s i" using l by simp
    then have "unat offset + unat left \<le> room (fsb s) cs" "unat offset + unat left \<le> 2147483648"
      using sz by linarith+
    from fat_read_loop_ok [OF fa this] obtain s' where
      r: "fat_read_loop dv i left offset s =
        Some (file_bytes (fsb s) cs (unat offset) (unat left) (part_byte dv cap psz s), s')"
        "same_view dv cap psz s s'" by blast
    have "file_bytes (fsb s) cs (unat offset) (unat left) (part_byte dv cap psz s) =
        take (unat left) (drop (unat offset) (file_content dv cap psz s i cs))"
      unfolding file_content_def by (rule file_bytes_slice [OF b])
    also have "\<dots> = take (unat count) (drop (unat offset) (file_content dv cap psz s i cs))"
      by (rule nth_equalityI) (simp_all add: l)
    finally show ?thesis using r eq that by simp
  qed
qed


text \<open>A new size in the directory entry of the node.\<close>

lemma upd_dirent_simps [simp]:
  "fsb (upd_dirent i f s) = fsb s" "part_byte dv cap psz (upd_dirent i f s) = part_byte dv cap psz s"
  "fat_be (upd_dirent i f s) = fat_be s" "block_cache (upd_dirent i f s) = block_cache s"
  by (auto simp: upd_dirent_def upd_node_def part_byte_def fun_eq_iff)

lemma the_node_upd_dirent:
  "the_node i s = Some n \<Longrightarrow> the_node i (upd_dirent i f s) = Some (n\<lparr>fn_dirent := f (fn_dirent n)\<rparr>)"
  by (auto simp: the_node_def upd_dirent_def upd_node_def split: if_splits)

lemma GetFirstCluster_size [simp]: "GetFirstCluster (d\<lparr>fd_size := z\<rparr>) sb = GetFirstCluster d sb"
  by (simp add: GetFirstCluster_def Let_def)

lemma file_at_size:
  assumes "file_at dv cap psz s i cs"
  shows "file_at dv cap psz (upd_dirent i (\<lambda>d. d\<lparr>fd_size := z\<rparr>) s) i cs"
    and "node_size (upd_dirent i (\<lambda>d. d\<lparr>fd_size := z\<rparr>) s) i = unat z"
proof -
  from assms obtain n where n: "the_node i s = Some n" "\<not> fn_is_root n"
    "chain (fat_table dv cap psz s) (GetFirstCluster (fn_dirent n) (fsb s)) cs" by (auto simp: file_at_def)
  note n' = the_node_upd_dirent [OF n(1), of "\<lambda>d. d\<lparr>fd_size := z\<rparr>"]
  have "fat_table dv cap psz (upd_dirent i f s) = fat_table dv cap psz s" for f
    by (rule ext) (simp add: fat_table_def)
  with assms n n' show "file_at dv cap psz (upd_dirent i (\<lambda>d. d\<lparr>fd_size := z\<rparr>) s) i cs"
    by (simp add: file_at_def vol_ok_def fat_ok_def part_ok_def)
  show "node_size (upd_dirent i (\<lambda>d. d\<lparr>fd_size := z\<rparr>) s) i = unat z" by (simp add: node_size_def n')
qed

lemma splice_content:
  assumes "file_splice (fsb s) cs off n src (part_byte dv cap psz s) (part_byte dv cap psz s')"
    and "fsb s' = fsb s" and "off \<le> node_size s i" and "node_size s' i = max (node_size s i) (off + n)"
    and "node_size s' i \<le> room (fsb s) cs" and "n \<le> length src"
  shows "file_content dv cap psz s' i cs =
    take off (file_content dv cap psz s i cs) @ take n src @ drop (off + n) (file_content dv cap psz s i cs)"
proof (rule nth_equalityI)
  show "length (file_content dv cap psz s' i cs) = length (take off (file_content dv cap psz s i cs) @
      take n src @ drop (off + n) (file_content dv cap psz s i cs))"
    using assms(3,4,6) by simp
  fix q assume "q < length (file_content dv cap psz s' i cs)"
  then have q: "q < node_size s' i" by simp
  then have r: "q < room (fsb s) cs" using assms(5) by simp
  have "file_content dv cap psz s' i cs ! q =
      (if off \<le> q \<and> q < off + n then src ! (q - off) else part_byte dv cap psz s (file_pos (fsb s) cs q))"
    using assms(1) r q by (simp add: file_splice_def nth_file_content assms(2))
  also have "\<dots> = (take off (file_content dv cap psz s i cs) @ take n src @
      drop (off + n) (file_content dv cap psz s i cs)) ! q"
    using q assms(3,4,6) by (auto simp: nth_append nth_file_content)
  finally show "file_content dv cap psz s' i cs ! q = (take off (file_content dv cap psz s i cs) @ take n src @
      drop (off + n) (file_content dv cap psz s i cs)) ! q" .
qed

lemma writeFile_ok:
  assumes ok: "file_ok dv cap psz s i cs" and off: "unat offset \<le> node_size s i"
    and rm: "unat offset + unat count \<le> room (fsb s) cs" and sm: "unat offset + unat count \<le> 2147483648"
    and len: "unat count \<le> length buf"
  obtains s' where "writeFile dv i buf count offset s = Some (count, s')" "file_ok dv cap psz s' i cs"
    "fsb s' = fsb s"
    "file_content dv cap psz s' i cs = take (unat offset) (file_content dv cap psz s i cs) @ take (unat count) buf @
       drop (unat offset + unat count) (file_content dv cap psz s i cs)"
    "\<And>a. a \<notin> file_pos (fsb s) cs ` {unat offset..<unat offset + unat count} \<Longrightarrow>
       part_byte dv cap psz s' a = part_byte dv cap psz s a"
proof -
  from ok have fa: "file_at dv cap psz s i cs"
    and sz: "node_size s i \<le> room (fsb s) cs" "node_size s i \<le> 2147483648" by (simp_all add: file_ok_def)
  from fa obtain n where n: "the_node i s = Some n" by (auto simp: file_at_def)
  have ns: "node_size s i = unat (fd_size (fn_dirent n))" by (simp add: node_size_def n)
  then have nogap: "\<not> fd_size (fn_dirent n) < offset" using off by (simp add: word_less_nat_alt)
  from fat_write_loop_ok [OF fa rm sm len] obtain s1 where
    w: "fat_write_loop dv i buf count offset s = Some (True, 0, offset + count, s1)" "file_at dv cap psz s1 i cs"
      "part_rest s1 = part_rest s"
      "file_splice (fsb s) cs (unat offset) (unat count) buf (part_byte dv cap psz s) (part_byte dv cap psz s1)" by blast
  note f = part_rest_fields [OF w(3)]
  define s2 where "s2 = (if fd_size (fn_dirent n) < offset + count
    then upd_dirent i (\<lambda>d. d\<lparr>fd_size := offset + count\<rparr>) s1 else s1)"
  have uo: "unat (offset + count) = unat offset + unat count" using sm by (simp add: unat_word_ariths)
  have ns1: "node_size s1 i = node_size s i" by (simp add: node_size_def f)
  have a: "writeFile dv i buf count offset s = Some (count, s2)"
    using n nogap w(1) by (simp add: writeFile_def f s2_def)
  have fa2: "file_at dv cap psz s2 i cs"
    using w(2) file_at_size(1) [OF w(2), of "offset + count"] unfolding s2_def by (simp split: if_splits)
  have ns2: "node_size s2 i = max (node_size s i) (unat offset + unat count)"
    using file_at_size(2) [OF w(2)] ns1 by (auto simp: s2_def ns uo word_less_nat_alt)
  have fs2: "fsb s2 = fsb s" by (simp add: s2_def f)
  have pb2: "part_byte dv cap psz s2 = part_byte dv cap psz s1" by (simp add: s2_def)
  have b: "file_ok dv cap psz s2 i cs" using fa2 ns2 sz rm sm by (simp add: file_ok_def fs2)
  have c: "file_content dv cap psz s2 i cs = take (unat offset) (file_content dv cap psz s i cs) @ take (unat count) buf @
       drop (unat offset + unat count) (file_content dv cap psz s i cs)"
    by (rule splice_content [OF _ fs2 off ns2 _ len]) (use w(4) pb2 ns2 sz rm in simp_all)
  have d: "part_byte dv cap psz s2 a = part_byte dv cap psz s a"
    if "a \<notin> file_pos (fsb s) cs ` {unat offset..<unat offset + unat count}" for a
    using w(4) that by (simp add: file_splice_def pb2)
  show ?thesis by (rule that [OF a b fs2 c d])
qed

end
