(* ===== verification/FatGrow.thy ===== *)
theory FatGrow
  imports FatData
begin

text \<open>
  Files that grow: \<open>AppendCluster\<close> with the search for the last cluster, and \<open>writeFile\<close> past the
  clusters of the file.
\<close>

section \<open>What stays the same\<close>

text \<open>Byte order and geometry: everything in \<open>fsb\<close> but the position of the search.\<close>

definition vol_geom :: "'d fat_state \<Rightarrow> bool \<times> FatSB" where
  "vol_geom s = (fat_be s, (fsb s)\<lparr>start_search_cluster := 0\<rparr>)"

lemma vol_rest_geom: "vol_rest s' = vol_rest s \<Longrightarrow> vol_geom s' = vol_geom s"
  by (simp add: vol_rest_def part_rest_def upd_fsb_def vol_geom_def)

lemma part_rest_geom: "part_rest s' = part_rest s \<Longrightarrow> vol_geom s' = vol_geom s"
  by (rule vol_rest_geom) (rule vol_rest_part)

lemma vol_geom_fields:
  assumes "vol_geom s' = vol_geom s"
  shows "fat_be s' = fat_be s" "sb_fat_type (fsb s') = sb_fat_type (fsb s)" "cluster_cnt (fsb s') = cluster_cnt (fsb s)"
    "has_entry (fsb s') = has_entry (fsb s)" "fat_start (fsb s') = fat_start (fsb s)" "fat_end (fsb s') = fat_end (fsb s)"
    "fat_entry be (fsb s') = fat_entry be (fsb s)" "spc (fsb s') = spc (fsb s)" "room (fsb s') = room (fsb s)"
    "in_data psz (fsb s') = in_data psz (fsb s)" "data_geom psz (fsb s') = data_geom psz (fsb s)"
    "file_pos (fsb s') = file_pos (fsb s)" "GetFirstCluster d (fsb s') = GetFirstCluster d (fsb s)"
    "cluster_bytes s' = cluster_bytes s"
    "fat_geom psz (fsb s') = fat_geom psz (fsb s)" "partition_start (fsb s') = partition_start (fsb s)"
proof -
  from assms have be: "fat_be s' = fat_be s"
    and eq: "fsb s'\<lparr>start_search_cluster := 0\<rparr> = fsb s\<lparr>start_search_cluster := 0\<rparr>" by (simp_all add: vol_geom_def)
  note f = fsb_cong [OF eq]
  show "fat_be s' = fat_be s" by (rule be)
  show "sb_fat_type (fsb s') = sb_fat_type (fsb s)" "cluster_cnt (fsb s') = cluster_cnt (fsb s)"
    "partition_start (fsb s') = partition_start (fsb s)" by (rule f)+
  have g: "fat_sectors (fsb s') = fat_sectors (fsb s)" by (simp add: fat_sectors_def f split: fat_type.split)
  show h: "has_entry (fsb s') = has_entry (fsb s)" by (rule ext) (simp add: has_entry_def f g)
  show st: "fat_start (fsb s') = fat_start (fsb s)" by (rule ext) (simp add: fat_start_def f g)
  show en: "fat_end (fsb s') = fat_end (fsb s)" by (simp add: fat_end_def st f)
  show "fat_entry be (fsb s') = fat_entry be (fsb s)"
    by (intro ext) (simp add: fat_entry_def entry_pos_def Let_def f st)
  show sp: "spc (fsb s') = spc (fsb s)" by (simp add: spc_def f)
  show "room (fsb s') = room (fsb s)" by (rule ext) (simp add: room_def sp)
  have cl: "cluster_start (fsb s') = cluster_start (fsb s)" by (rule ext) (simp add: cluster_start_def f sp)
  show "in_data psz (fsb s') = in_data psz (fsb s)" by (rule ext) (simp add: in_data_def h cl sp)
  show "data_geom psz (fsb s') = data_geom psz (fsb s)" by (simp add: data_geom_def en sp f)
  show "file_pos (fsb s') = file_pos (fsb s)" by (intro ext) (simp add: file_pos_def cl sp)
  show "GetFirstCluster d (fsb s') = GetFirstCluster d (fsb s)" by (simp add: GetFirstCluster_def f)
  show "cluster_bytes s' = cluster_bytes s" by (simp add: cluster_bytes_def f)
  show "fat_geom psz (fsb s') = fat_geom psz (fsb s)" by (simp add: fat_geom_def en f)
qed


section \<open>The last cluster\<close>

text \<open>
  What an operation on node \<open>i\<close> leaves of the geometry and of the nodes: it may change the directory
  entry of the node by \<open>f\<close> and move its hint to a cluster of \<open>H\<close>.
\<close>

definition node_moved :: "nat \<Rightarrow> u32 set \<Rightarrow> (FatDirEntry \<Rightarrow> FatDirEntry) \<Rightarrow> 'd fat_state \<Rightarrow> 'd fat_state \<Rightarrow> bool" where
  "node_moved i H f s s' \<longleftrightarrow> vol_geom s' = vol_geom s \<and> node_list s' = node_list s \<and>
     (\<forall>j. j \<noteq> i \<longrightarrow> the_node j s' = the_node j s) \<and>
     (\<forall>n. the_node i s = Some n \<longrightarrow>
        (\<exists>h off. the_node i s' = Some (n\<lparr>fn_dirent := f (fn_dirent n), fn_hint_cluster := h, fn_hint_offset := off\<rparr>) \<and>
           (h = fn_hint_cluster n \<or> h \<in> H)))"

lemma node_eq_upd: "n\<lparr>fn_dirent := fn_dirent n, fn_hint_cluster := fn_hint_cluster n, fn_hint_offset := fn_hint_offset n\<rparr> = n"
  by (cases n) simp

lemma node_moved_vol_rest: "vol_rest s' = vol_rest s \<Longrightarrow> node_moved i H (\<lambda>d. d) s s'"
  unfolding node_moved_def using vol_rest_fields [of s' s] vol_rest_geom [of s' s] node_eq_upd by metis

lemma node_moved_trans:
  assumes "node_moved i H f s s'" and "node_moved i H g s' s''"
  shows "node_moved i H (\<lambda>d. g (f d)) s s''"
proof -
  have "\<exists>h off. the_node i s'' = Some (n\<lparr>fn_dirent := g (f (fn_dirent n)), fn_hint_cluster := h, fn_hint_offset := off\<rparr>) \<and>
      (h = fn_hint_cluster n \<or> h \<in> H)" if n: "the_node i s = Some n" for n
  proof -
    from assms(1) n obtain h off where
      1: "the_node i s' = Some (n\<lparr>fn_dirent := f (fn_dirent n), fn_hint_cluster := h, fn_hint_offset := off\<rparr>)"
        "h = fn_hint_cluster n \<or> h \<in> H" unfolding node_moved_def by blast
    from assms(2) 1(1) obtain h' off' where
      "the_node i s'' = Some (n\<lparr>fn_dirent := f (fn_dirent n), fn_hint_cluster := h, fn_hint_offset := off\<rparr>
         \<lparr>fn_dirent := g (f (fn_dirent n)), fn_hint_cluster := h', fn_hint_offset := off'\<rparr>)" "h' = h \<or> h' \<in> H"
      unfolding node_moved_def by fastforce
    with 1(2) show ?thesis by auto
  qed
  with assms show ?thesis by (simp add: node_moved_def)
qed

lemma upd_node_simps [simp]:
  "fsb (upd_node i f s) = fsb s" "part_byte dv cap psz (upd_node i f s) = part_byte dv cap psz s"
  "fat_be (upd_node i f s) = fat_be s" "block_cache (upd_node i f s) = block_cache s"
  "node_list (upd_node i f s) = node_list s"
  by (auto simp: upd_node_def part_byte_def fun_eq_iff)

lemma the_node_upd:
  "the_node j (upd_node i f s) = (if j = i then map_option f (the_node i s) else the_node j s)"
  by (auto simp: the_node_def upd_node_def nth_list_update)

lemma vol_ok_upd_node [simp]: "vol_ok dv cap psz (upd_node i f s) = vol_ok dv cap psz s"
  by (simp add: vol_ok_def fat_ok_def part_ok_def)

lemma fat_table_upd_node [simp]: "fat_table dv cap psz (upd_node i f s) = fat_table dv cap psz s"
  by (rule ext) (simp add: fat_table_def)

lemma vol_geom_upd_node [simp]: "vol_geom (upd_node i f s) = vol_geom s"
  by (simp add: vol_geom_def)


section \<open>The last cluster\<close>

text \<open>The search moves the hint and reads; nothing else changes.\<close>

definition hinted :: "'d block_device \<Rightarrow> nat \<Rightarrow> nat \<Rightarrow> nat \<Rightarrow> u32 set \<Rightarrow> 'd fat_state \<Rightarrow> 'd fat_state \<Rightarrow> bool" where
  "hinted dv cap psz i H s s' \<longleftrightarrow> vol_ok dv cap psz s' \<and> part_byte dv cap psz s' = part_byte dv cap psz s \<and>
     fsb s' = fsb s \<and> fat_be s' = fat_be s \<and> node_moved i H (\<lambda>d. d) s s'"

lemma hinted_view: "same_view dv cap psz s s' \<Longrightarrow> hinted dv cap psz i H s s'"
proof -
  assume v: "same_view dv cap psz s s'"
  note f = same_view_fields [OF v]
  from f(1,2,6) part_rest_fields(1) [OF f(7)] node_moved_vol_rest [OF vol_rest_part [OF f(7)]]
  show ?thesis by (simp add: hinted_def)
qed

lemma hinted_trans: "hinted dv cap psz i H s s' \<Longrightarrow> hinted dv cap psz i H s' s'' \<Longrightarrow> hinted dv cap psz i H s s''"
  unfolding hinted_def using node_moved_trans [of i H "\<lambda>d. d" s s' "\<lambda>d. d" s''] by simp

lemma hinted_upd:
  assumes "vol_ok dv cap psz s" and "c \<in> H"
  shows "hinted dv cap psz i H s (upd_node i (\<lambda>n. n\<lparr>fn_hint_offset := g n, fn_hint_cluster := c\<rparr>) s)"
proof -
  let ?u = "\<lambda>n. n\<lparr>fn_hint_offset := g n, fn_hint_cluster := c\<rparr>"
  have e: "?u n = n\<lparr>fn_dirent := fn_dirent n, fn_hint_cluster := c, fn_hint_offset := g n\<rparr>" for n :: FatNode
    by (cases n) simp
  have "node_moved i H (\<lambda>d. d) s (upd_node i ?u s)"
    unfolding node_moved_def using assms(2) e by (simp only: vol_geom_upd_node upd_node_simps the_node_upd) auto
  with assms(1) show ?thesis by (simp add: hinted_def)
qed

lemma hinted_fields:
  assumes "hinted dv cap psz i H s s'"
  shows "vol_ok dv cap psz s'" "fsb s' = fsb s" "part_byte dv cap psz s' = part_byte dv cap psz s"
    "fat_table dv cap psz s' = fat_table dv cap psz s" "fat_be s' = fat_be s" "node_moved i H (\<lambda>d. d) s s'"
proof -
  from assms show v: "vol_ok dv cap psz s'" and f: "fsb s' = fsb s" and b: "fat_be s' = fat_be s"
    and p: "part_byte dv cap psz s' = part_byte dv cap psz s" and "node_moved i H (\<lambda>d. d) s s'"
    by (simp_all add: hinted_def)
  show "fat_table dv cap psz s' = fat_table dv cap psz s" by (rule ext) (simp add: fat_table_def p f b)
qed

lemma find_last_loop_ok:
  "vol_ok dv cap psz s \<Longrightarrow> chain (fat_table dv cap psz s) next xs \<Longrightarrow> \<forall>x\<in>set xs. has_entry (fsb s) x \<Longrightarrow> set xs \<subseteq> H \<Longrightarrow>
   \<exists>s'. find_last_loop dv i c next s = Some (Some (last (c # xs)), s') \<and> hinted dv cap psz i H s s'"
proof (induction xs arbitrary: c "next" s)
  case Nil
  then show ?case by (subst find_last_loop.simps) (auto intro: hinted_view same_view_refl)
next
  case (Cons x xs)
  from Cons.prems have c: "allocated next" "x = next" "has_entry (fsb s) next" "next \<in> H"
    "chain (fat_table dv cap psz s) (fat_table dv cap psz s next) xs" by auto
  define s1 where "s1 = upd_node i (\<lambda>n. n\<lparr>fn_hint_offset := fn_hint_offset n + cluster_bytes s, fn_hint_cluster := next\<rparr>) s"
  have h1: "hinted dv cap psz i H s s1" unfolding s1_def by (rule hinted_upd [OF Cons.prems(1) c(4)])
  note f1 = hinted_fields [OF h1]
  have "has_entry (fsb s1) next" using c(3) by (simp add: f1)
  from entry_view [OF f1(1) this] obtain s2 where
    r: "ReadFATEntry dv next s1 = Some (Some (fat_table dv cap psz s next), s2)" "same_view dv cap psz s1 s2"
    by (metis f1(4))
  note h2 = hinted_trans [OF h1 hinted_view [OF r(2)]]
  note f2 = hinted_fields [OF h2]
  from Cons.IH [of s2 "fat_table dv cap psz s next" "next"] c(5) Cons.prems(3,4) f2 obtain s3 where
    IH: "find_last_loop dv i next (fat_table dv cap psz s next) s2 = Some (Some (last (next # xs)), s3)"
      "hinted dv cap psz i H s2 s3" by auto
  have "find_last_loop dv i c next s = Some (Some (last (next # xs)), s3)"
    using c(1) r(1) IH(1) by (subst find_last_loop.simps) (simp add: s1_def Let_def)
  with hinted_trans [OF h2 IH(2)] c(2) show ?case by auto
qed

lemma chain_from:
  assumes "chain t c cs" and "h \<in> set cs"
  obtains bs where "chain t (t h) bs" and "last (h # bs) = last cs" and "set bs \<subseteq> set cs"
proof -
  from assms(2) obtain as bs where s: "cs = as @ h # bs" by (auto simp: in_set_conv_decomp)
  from chain_suffix [of t c as h bs] assms(1) s have "chain t (t h) bs" by simp
  with s that [of bs] show ?thesis by auto
qed

lemma FindLastCluster_ok:
  assumes vol: "vol_ok dv cap psz s" and n: "the_node i s = Some n"
    and ch: "chain (fat_table dv cap psz s) (GetFirstCluster (fn_dirent n) (fsb s)) cs"
    and has: "\<forall>x\<in>set cs. has_entry (fsb s) x"
    and hint: "fn_hint_cluster n = 0 \<or> fn_hint_cluster n \<in> set cs"
    and eoc: "cs = [] \<Longrightarrow> GetFirstCluster (fn_dirent n) (fsb s) = CLUSTER_EOC"
  shows "\<exists>s'. FindLastCluster dv i s = Some (Some (if cs = [] then CLUSTER_EOC else last cs), s') \<and>
    hinted dv cap psz i (set cs) s s'"
proof (cases "cs = []")
  case True
  with eoc n hinted_view [OF same_view_refl [OF vol]] show ?thesis by (simp add: FindLastCluster_def Let_def)
next
  case False
  define c0 where "c0 = (if fn_hint_cluster n \<noteq> 0 then fn_hint_cluster n else GetFirstCluster (fn_dirent n) (fsb s))"
  have first: "GetFirstCluster (fn_dirent n) (fsb s) \<in> set cs" "GetFirstCluster (fn_dirent n) (fsb s) \<noteq> CLUSTER_EOC"
    using ch False by (cases cs; auto simp: allocated_def)+
  have c0: "c0 \<in> set cs" using hint first(1) by (auto simp: c0_def)
  from chain_from [OF ch c0] obtain bs where bs: "chain (fat_table dv cap psz s) (fat_table dv cap psz s c0) bs"
    "last (c0 # bs) = last cs" "set bs \<subseteq> set cs" .
  from has c0 have "has_entry (fsb s) c0" by blast
  from entry_view [OF vol this] obtain s1 where
    r: "ReadFATEntry dv c0 s = Some (Some (fat_table dv cap psz s c0), s1)" "same_view dv cap psz s s1" .
  note f1 = same_view_fields [OF r(2)]
  from find_last_loop_ok [of dv cap psz s1 "fat_table dv cap psz s c0" bs "set cs" i c0] f1 bs has obtain s2 where
    l: "find_last_loop dv i c0 (fat_table dv cap psz s c0) s1 = Some (Some (last cs), s2)" "hinted dv cap psz i (set cs) s1 s2"
    by auto
  have "FindLastCluster dv i s = Some (Some (last cs), s2)"
    using n first(2) r(1) l(1) unfolding FindLastCluster_def c0_def [symmetric] Let_def by (simp add: c0_def)
  with hinted_trans [OF hinted_view [OF r(2)] l(2)] False show ?thesis by auto
qed


section \<open>Appending a cluster\<close>

lemma and_FFFF: "v AND 0xFFFF = take_bit 16 v" for v :: u32
  by (simp add: take_bit_eq_mask mask_eq_exp_minus_1)

lemma GetFirst_SetFirst:
  assumes "fat_value (sb_fat_type sb) c" and "sb_fat_type sb \<noteq> TYPE_FAT32"
  shows "GetFirstCluster (SetFirstCluster c sb d) sb = c"
proof -
  have u: "(ucast (v AND 0xFFFF) :: u16) = ucast v" for v :: u32
    unfolding and_FFFF by (intro bit_word_eqI) (auto simp: bit_simps)
  show ?thesis
    using mark_unmark [OF assms] assms(2)
    by (cases "sb_fat_type sb") (simp_all add: GetFirstCluster_def SetFirstCluster_def Let_def u)
qed

lemma SetFirst_fields [simp]:
  "fd_name (SetFirstCluster c sb d) = fd_name d" "fd_extension (SetFirstCluster c sb d) = fd_extension d"
  "fd_size (SetFirstCluster c sb d) = fd_size d"
  by (simp_all add: SetFirstCluster_def Let_def split: fat_type.splits)

lemma chain_snoc:
  assumes "chain t a cs" and "cs \<noteq> []" and "c \<notin> set cs" and "allocated c"
  shows "chain (t(c := CLUSTER_EOC, last cs := c)) a (cs @ [c])"
  using assms chain_distinct [OF assms(1)]
proof (induction cs arbitrary: a)
  case (Cons x xs)
  show ?case
  proof (cases xs)
    case Nil
    with Cons.prems show ?thesis by (auto simp: allocated_def)
  next
    case (Cons y ys)
    then have l: "last (x # xs) = last xs" "last xs \<in> set xs" by simp_all
    with Cons.prems Cons.IH [of "t x"] show ?thesis by (auto simp: Cons)
  qed
qed simp

text \<open>The directory entry of a node lies in the partition, behind the table.\<close>

definition dirent_pos :: "FatNode \<Rightarrow> nat" where
  "dirent_pos n = pos_of (fn_dirent_sector n) (fn_dirent_offset n)"

definition dirent_ok :: "nat \<Rightarrow> FatSB \<Rightarrow> FatNode \<Rightarrow> bool" where
  "dirent_ok psz sb n \<longleftrightarrow> fn_dirent_offset n < 512 \<and> fat_end sb \<le> dirent_pos n \<and> dirent_pos n + 32 \<le> psz * 512 \<and>
     length (fd_name (fn_dirent n)) = 8 \<and> length (fd_extension (fn_dirent n)) = 3"

text \<open>The clusters that \<open>FindFreeCluster\<close> gives out lie in the data area and are numbers of the table.\<close>

definition clusters_ok :: "nat \<Rightarrow> FatSB \<Rightarrow> bool" where
  "clusters_ok psz sb \<longleftrightarrow>
     (\<forall>c. 2 \<le> c \<and> c < cluster_cnt sb \<longrightarrow> in_data psz sb c \<and> fat_value (sb_fat_type sb) c \<and> allocated c)"

definition free_clusters :: "'d block_device \<Rightarrow> nat \<Rightarrow> nat \<Rightarrow> 'd fat_state \<Rightarrow> u32 set" where
  "free_clusters dv cap psz s = {c. 2 \<le> c \<and> c < cluster_cnt (fsb s) \<and> fat_table dv cap psz s c = CLUSTER_FREE}"

text \<open>A file that can grow: its clusters are marked as used and its hint is one of them.\<close>

definition growable :: "'d block_device \<Rightarrow> nat \<Rightarrow> nat \<Rightarrow> 'd fat_state \<Rightarrow> nat \<Rightarrow> u32 list \<Rightarrow> bool" where
  "growable dv cap psz s i cs \<longleftrightarrow> file_at dv cap psz s i cs \<and> search_ok dv cap psz s \<and> clusters_ok psz (fsb s) \<and>
     (\<forall>c\<in>set cs. fat_table dv cap psz s c \<noteq> CLUSTER_FREE) \<and>
     (\<exists>n. the_node i s = Some n \<and> dirent_ok psz (fsb s) n \<and>
        (fn_hint_cluster n = 0 \<or> fn_hint_cluster n \<in> set cs) \<and>
        (cs = [] \<longrightarrow> GetFirstCluster (fn_dirent n) (fsb s) = CLUSTER_EOC))"

text \<open>What growing from \<open>cs\<close> by the clusters \<open>new\<close> leaves as it was.\<close>

definition grows :: "'d block_device \<Rightarrow> nat \<Rightarrow> nat \<Rightarrow> nat \<Rightarrow> u32 list \<Rightarrow> u32 list \<Rightarrow> 'd fat_state \<Rightarrow> 'd fat_state \<Rightarrow> bool" where
  "grows dv cap psz i cs new s s' \<longleftrightarrow> growable dv cap psz s' i (cs @ new) \<and> vol_geom s' = vol_geom s \<and>
     node_list s' = node_list s \<and> (\<forall>j. j \<noteq> i \<longrightarrow> the_node j s' = the_node j s) \<and> node_size s' i = node_size s i \<and>
     set new \<subseteq> free_clusters dv cap psz s \<and>
     (\<forall>x. has_entry (fsb s) x \<longrightarrow> x \<notin> set (cs @ new) \<longrightarrow> fat_table dv cap psz s' x = fat_table dv cap psz s x)"

text \<open>Appending the first cluster writes the directory entry.\<close>

definition flush_range :: "'d fat_state \<Rightarrow> nat \<Rightarrow> u32 list \<Rightarrow> nat set" where
  "flush_range s i cs = (case the_node i s of
     Some n \<Rightarrow> if cs = [] then {dirent_pos n..<dirent_pos n + 32} else {} | None \<Rightarrow> {})"

definition kept_outside :: "'d block_device \<Rightarrow> nat \<Rightarrow> nat \<Rightarrow> nat set \<Rightarrow> 'd fat_state \<Rightarrow> 'd fat_state \<Rightarrow> bool" where
  "kept_outside dv cap psz E s s' \<longleftrightarrow>
     (\<forall>a. a < fat_start (fsb s) 0 \<or> fat_end (fsb s) \<le> a \<longrightarrow> a \<notin> E \<longrightarrow> part_byte dv cap psz s' a = part_byte dv cap psz s a)"

lemma FlushDirent_ok:
  assumes "vol_ok dv cap psz s" and "i \<noteq> ROOT_NODE" and "the_node i s = Some n" and "dirent_ok psz (fsb s) n"
  obtains s' where "FlushDirent dv i s = Some (0, s')" "vol_ok dv cap psz s'" "part_rest s' = part_rest s"
    "table_is dv cap psz s' (fat_table dv cap psz s)"
    "kept_outside dv cap psz {dirent_pos n..<dirent_pos n + 32} s s'"
proof -
  from assms(1) have po: "part_ok dv cap psz s" and g: "sb_fat_type (fsb s) \<noteq> TYPE_FAT32" "fat_cnt (bpb (fsb s)) \<noteq> 0"
    by (simp_all add: vol_ok_def fat_ok_def fat_geom_def)
  from assms(4) have d: "fn_dirent_offset n < 512" "fat_end (fsb s) \<le> dirent_pos n" "dirent_pos n + 32 \<le> psz * 512"
    and len: "length (fatdirent_bytes (fat_be s) (fn_dirent n)) = 32" by (simp_all add: dirent_ok_def)
  from writeSector_ok [OF po d(1), of "fn_dirent_sector n" 32 "Some (fatdirent_bytes (fat_be s) (fn_dirent n))"] d(3) len
  obtain s' where
    w: "writeSector dv (Some (fatdirent_bytes (fat_be s) (fn_dirent n))) (fn_dirent_sector n) (fn_dirent_offset n) 32 s = Some (0, s')"
      "part_ok dv cap psz s'" "part_rest s' = part_rest s"
      "part_byte dv cap psz s' = wr_bytes (dirent_pos n) (fatdirent_bytes (fat_be s) (fn_dirent n)) (part_byte dv cap psz s)"
    by (auto simp: dirent_pos_def)
  note f = part_rest_fields [OF w(3)]
  have a: "FlushDirent dv i s = Some (0, s')" using assms(2,3) w(1) by (simp add: FlushDirent_def)
  have b: "vol_ok dv cap psz s'" using w(2) assms(1) by (simp add: vol_ok_def fat_ok_def f)
  have k: "part_byte dv cap psz s' x = part_byte dv cap psz s x" if "x \<notin> {dirent_pos n..<dirent_pos n + 32}" for x
    unfolding w(4) using that len by (intro wr_bytes_other) auto
  then have "kept_outside dv cap psz {dirent_pos n..<dirent_pos n + 32} s s'" by (simp add: kept_outside_def)
  moreover have low: "part_byte dv cap psz s' a = part_byte dv cap psz s a" if "a < fat_end (fsb s)" for a
    by (rule k) (use that d(2) in auto)
  have "fat_table dv cap psz s' c = fat_table dv cap psz s c" if "has_entry (fsb s) c" for c
    unfolding fat_table_def f by (rule fat_entry_low [OF that g low])
  then have "table_is dv cap psz s' (fat_table dv cap psz s)" by (simp add: table_is_def f)
  ultimately show ?thesis using a b w(3) that by blast
qed

lemma in_data_has: "in_data psz sb c \<Longrightarrow> has_entry sb c"
  by (simp add: in_data_def)

lemma free_in_data: "clusters_ok psz (fsb s) \<Longrightarrow> c \<in> free_clusters dv cap psz s \<Longrightarrow> in_data psz (fsb s) c"
  by (simp add: clusters_ok_def free_clusters_def)

text \<open>How \<open>grows\<close> follows from the table and the node after an operation.\<close>

lemma growsI:
  assumes g: "growable dv cap psz s i cs" and n: "the_node i s = Some n"
    and v: "vol_ok dv cap psz s'" and so: "search_ok dv cap psz s'" and m: "node_moved i (set cs) f s s'"
    and t: "table_is dv cap psz s' t'"
    and ch: "chain t' (GetFirstCluster (f (fn_dirent n)) (fsb s)) (cs @ new)"
    and new: "set new \<subseteq> free_clusters dv cap psz s"
    and used: "\<And>x. x \<in> set (cs @ new) \<Longrightarrow> t' x \<noteq> CLUSTER_FREE"
    and other: "\<And>x. has_entry (fsb s) x \<Longrightarrow> x \<notin> set (cs @ new) \<Longrightarrow> t' x = fat_table dv cap psz s x"
    and d: "fd_name (f (fn_dirent n)) = fd_name (fn_dirent n)" "fd_extension (f (fn_dirent n)) = fd_extension (fn_dirent n)"
      "fd_size (f (fn_dirent n)) = fd_size (fn_dirent n)"
    and eoc: "cs @ new = [] \<Longrightarrow> GetFirstCluster (f (fn_dirent n)) (fsb s) = CLUSTER_EOC"
  shows "grows dv cap psz i cs new s s'"
proof -
  from m have vg: "vol_geom s' = vol_geom s" and nl: "node_list s' = node_list s"
    and oth: "\<forall>j. j \<noteq> i \<longrightarrow> the_node j s' = the_node j s" by (simp_all add: node_moved_def)
  from m n obtain h off where
    n': "the_node i s' = Some (n\<lparr>fn_dirent := f (fn_dirent n), fn_hint_cluster := h, fn_hint_offset := off\<rparr>)"
      "h = fn_hint_cluster n \<or> h \<in> set cs" unfolding node_moved_def by blast
  note geo = vol_geom_fields [OF vg]
  from g n have fa: "file_at dv cap psz s i cs" and co: "clusters_ok psz (fsb s)"
    and dn: "dirent_ok psz (fsb s) n" and hint: "fn_hint_cluster n = 0 \<or> fn_hint_cluster n \<in> set cs"
    by (auto simp: growable_def)
  from fa n have root: "\<not> fn_is_root n" by (simp add: file_at_def)
  have ind: "in_data psz (fsb s) x" if "x \<in> set (cs @ new)" for x
    using that fa free_in_data [OF co] new by (auto simp: file_at_def)
  then have tab: "fat_table dv cap psz s' x = t' x" if "x \<in> set (cs @ new)" for x
    using t in_data_has [OF ind [OF that]] by (simp add: table_is_def geo)
  have "chain (fat_table dv cap psz s') (GetFirstCluster (f (fn_dirent n)) (fsb s)) (cs @ new)"
    using ch chain_cong [of "cs @ new" "fat_table dv cap psz s'" t'] tab by blast
  with fa v n'(1) ind root have fa': "file_at dv cap psz s' i (cs @ new)" by (simp add: file_at_def geo)
  have dk: "dirent_ok psz (fsb s') (n\<lparr>fn_dirent := f (fn_dirent n), fn_hint_cluster := h, fn_hint_offset := off\<rparr>)"
    using dn d by (simp add: dirent_ok_def dirent_pos_def geo)
  have "clusters_ok psz (fsb s')" using co by (simp add: clusters_ok_def geo)
  with fa' so n' hint tab used eoc dk have "growable dv cap psz s' i (cs @ new)"
    by (auto simp: growable_def geo)
  moreover have "node_size s' i = node_size s i" using n n'(1) d(3) by (simp add: node_size_def)
  moreover have "fat_table dv cap psz s' x = fat_table dv cap psz s x"
    if "has_entry (fsb s) x" "x \<notin> set (cs @ new)" for x
    using t that other by (simp add: table_is_def geo)
  ultimately show ?thesis using vg nl oth new by (simp add: grows_def)
qed

lemma kept_trans:
  "kept_outside dv cap psz E s s' \<Longrightarrow> kept_outside dv cap psz E s' s'' \<Longrightarrow> vol_geom s' = vol_geom s \<Longrightarrow>
   kept_outside dv cap psz E s s''"
  using vol_geom_fields(5,6) [of s' s] by (simp add: kept_outside_def)

lemma kept_data_same: "data_same dv cap psz s s' \<Longrightarrow> kept_outside dv cap psz E s s'"
  by (simp add: kept_outside_def data_same_def)

lemma kept_same_bytes: "part_byte dv cap psz s' = part_byte dv cap psz s \<Longrightarrow> kept_outside dv cap psz E s s'"
  by (simp add: kept_outside_def)

text \<open>The new cluster, linked to what was the last one or entered as the first.\<close>

lemma append_link:
  assumes g: "growable dv cap psz s i cs" and n: "the_node i s = Some n" and vol: "vol_ok dv cap psz s2"
    and m: "node_moved i (set cs) (\<lambda>d. d) s s2" and so: "search_ok dv cap psz s2"
    and t: "table_is dv cap psz s2 ((fat_table dv cap psz s)(c := CLUSTER_EOC))"
    and c: "c \<in> free_clusters dv cap psz s" and ne: "cs \<noteq> []"
  obtains s' where "WriteFATEntry dv (last cs) c s2 = Some (0, s')" "grows dv cap psz i cs [c] s s'"
    "data_same dv cap psz s2 s'"
proof -
  let ?t = "(fat_table dv cap psz s)(c := CLUSTER_EOC)"
  from m have vg: "vol_geom s2 = vol_geom s" by (simp add: node_moved_def)
  note geo = vol_geom_fields [OF vg]
  from g n have fa: "file_at dv cap psz s i cs" and co: "clusters_ok psz (fsb s)"
    and nf: "\<forall>x\<in>set cs. fat_table dv cap psz s x \<noteq> CLUSTER_FREE" by (auto simp: growable_def)
  from c co have fv: "fat_value (sb_fat_type (fsb s)) c" "allocated c" by (simp_all add: clusters_ok_def free_clusters_def)
  have notin: "c \<notin> set cs" using c nf by (auto simp: free_clusters_def)
  have "has_entry (fsb s2) (last cs)" using fa ne by (simp add: file_at_def in_data_def geo)
  from vol_write [OF vol this t] fv(1) obtain s' where
    w: "WriteFATEntry dv (last cs) c s2 = Some (0, s')" "vol_ok dv cap psz s'"
      "table_is dv cap psz s' (?t(last cs := c))" "data_same dv cap psz s2 s'" "part_rest s' = part_rest s2"
    by (metis geo(2))
  have m': "node_moved i (set cs) (\<lambda>d. d) s s'"
    using node_moved_trans [OF m node_moved_vol_rest [OF vol_rest_part [OF w(5)]]] .
  have "2 \<le> last cs" using fa ne by (simp add: file_at_def in_data_def)
  with so have so': "search_ok dv cap psz s'"
    by (simp add: search_ok_table [OF w(3)] search_ok_table [OF t] part_rest_fields(2) [OF w(5)] search_at_upd)
  have ch: "chain (?t(last cs := c)) (GetFirstCluster (fn_dirent n) (fsb s)) (cs @ [c])"
    using fa n by (intro chain_snoc [OF _ ne notin fv(2)]) (simp add: file_at_def)
  have "grows dv cap psz i cs [c] s s'"
    by (rule growsI [OF g n w(2) so' m' w(3) ch]) (use c nf fv(2) ne in \<open>auto simp: allocated_def\<close>)
  with w(1,4) that show ?thesis by blast
qed

lemma node_moved_dirent: "node_moved i H f s (upd_dirent i f s)"
proof -
  have e: "n\<lparr>fn_dirent := f (fn_dirent n)\<rparr> =
      n\<lparr>fn_dirent := f (fn_dirent n), fn_hint_cluster := fn_hint_cluster n, fn_hint_offset := fn_hint_offset n\<rparr>"
    for n :: FatNode by (cases n) simp
  then have "\<exists>h off. n\<lparr>fn_dirent := f (fn_dirent n)\<rparr> =
      n\<lparr>fn_dirent := f (fn_dirent n), fn_hint_cluster := h, fn_hint_offset := off\<rparr> \<and> (h = fn_hint_cluster n \<or> h \<in> H)"
    for n :: FatNode by blast
  then show ?thesis unfolding node_moved_def upd_dirent_def by (simp add: the_node_upd)
qed

lemma append_first:
  assumes g: "growable dv cap psz s i []" and n: "the_node i s = Some n" and vol: "vol_ok dv cap psz s2"
    and m: "node_moved i {} (\<lambda>d. d) s s2" and so: "search_ok dv cap psz s2"
    and t: "table_is dv cap psz s2 ((fat_table dv cap psz s)(c := CLUSTER_EOC))"
    and c: "c \<in> free_clusters dv cap psz s"
  obtains s' where "FlushDirent dv i (upd_dirent i (SetFirstCluster c (fsb s2)) s2) = Some (0, s')"
    "grows dv cap psz i [] [c] s s'" "kept_outside dv cap psz {dirent_pos n..<dirent_pos n + 32} s2 s'"
proof -
  let ?t = "(fat_table dv cap psz s)(c := CLUSTER_EOC)"
  let ?f = "SetFirstCluster c (fsb s2)"
  define s3 where "s3 = upd_dirent i ?f s2"
  from m have vg: "vol_geom s2 = vol_geom s" by (simp add: node_moved_def)
  note geo = vol_geom_fields [OF vg]
  from g n have fa: "file_at dv cap psz s i []" and co: "clusters_ok psz (fsb s)" and dk: "dirent_ok psz (fsb s) n"
    by (auto simp: growable_def)
  from c co have fv: "fat_value (sb_fat_type (fsb s)) c" "allocated c" by (simp_all add: clusters_ok_def free_clusters_def)
  have ty: "sb_fat_type (fsb s) \<noteq> TYPE_FAT32" and ir: "i \<noteq> ROOT_NODE" using fa by (simp_all add: file_at_def vol_ok_def)
  from m n obtain h off where n2: "the_node i s2 = Some (n\<lparr>fn_hint_cluster := h, fn_hint_offset := off\<rparr>)"
    "h = fn_hint_cluster n" unfolding node_moved_def by auto
  define n3 where "n3 = n\<lparr>fn_dirent := ?f (fn_dirent n), fn_hint_cluster := h, fn_hint_offset := off\<rparr>"
  have n3: "the_node i s3 = Some n3" using the_node_upd_dirent [OF n2(1), of ?f] by (simp add: s3_def n3_def)
  have v3: "vol_ok dv cap psz s3" using vol by (simp add: s3_def upd_dirent_def)
  have dk3: "dirent_ok psz (fsb s3) n3" using dk by (simp add: s3_def dirent_ok_def dirent_pos_def n3_def geo)
  obtain s' where w: "FlushDirent dv i s3 = Some (0, s')" "vol_ok dv cap psz s'" "part_rest s' = part_rest s3"
    "table_is dv cap psz s' (fat_table dv cap psz s3)"
    "kept_outside dv cap psz {dirent_pos n3..<dirent_pos n3 + 32} s3 s'"
    by (rule FlushDirent_ok [OF v3 ir n3 dk3])
  note f = part_rest_fields [OF w(3)]
  have m3: "node_moved i {} ?f s2 s3" unfolding s3_def by (rule node_moved_dirent)
  have m': "node_moved i {} ?f s s'"
    using node_moved_trans [OF node_moved_trans [OF m m3] node_moved_vol_rest [OF vol_rest_part [OF w(3)]]] .
  have t3: "fat_table dv cap psz (upd_dirent i f s2) = fat_table dv cap psz s2" for f by (simp add: upd_dirent_def)
  have t': "table_is dv cap psz s' ?t" using w(4) t by (simp add: table_is_def t3 f s3_def)
  have so': "search_ok dv cap psz s'" using so by (simp add: search_ok_table [OF t'] search_ok_table [OF t] f s3_def)
  have gf: "GetFirstCluster (?f d) (fsb s) = c" for d
  proof -
    have "SetFirstCluster c (fsb s2) d = SetFirstCluster c (fsb s) d" by (simp add: SetFirstCluster_def geo)
    then show ?thesis using GetFirst_SetFirst [OF fv(1) ty] by simp
  qed
  have "grows dv cap psz i [] [c] s s'"
    by (rule growsI [OF g n w(2) so' _ t', where f = ?f]) (use m' c fv(2) gf in \<open>auto simp: allocated_def\<close>)
  moreover have "kept_outside dv cap psz {dirent_pos n..<dirent_pos n + 32} s2 s'"
    using w(5) by (simp add: kept_outside_def s3_def n3_def dirent_pos_def upd_dirent_def)
  ultimately show ?thesis using w(1) that unfolding s3_def by blast
qed

lemma AppendCluster_ok:
  assumes g: "growable dv cap psz s i cs"
  shows "\<exists>r s'. AppendCluster dv i s = Some (r, s') \<and> kept_outside dv cap psz (flush_range s i cs) s s' \<and>
    (case r of None \<Rightarrow> free_clusters dv cap psz s = {} \<and> grows dv cap psz i cs [] s s'
     | Some c \<Rightarrow> c \<in> free_clusters dv cap psz s \<and> grows dv cap psz i cs [c] s s')"
proof -
  from g obtain n where n: "the_node i s = Some n" "fn_hint_cluster n = 0 \<or> fn_hint_cluster n \<in> set cs"
    "cs = [] \<longrightarrow> GetFirstCluster (fn_dirent n) (fsb s) = CLUSTER_EOC" by (auto simp: growable_def)
  from g have fa: "file_at dv cap psz s i cs" and so: "search_ok dv cap psz s"
    and nf: "\<forall>x\<in>set cs. fat_table dv cap psz s x \<noteq> CLUSTER_FREE" by (auto simp: growable_def)
  from fa n(1) have vol: "vol_ok dv cap psz s" and ch: "chain (fat_table dv cap psz s) (GetFirstCluster (fn_dirent n) (fsb s)) cs"
    and has: "\<forall>x\<in>set cs. has_entry (fsb s) x" by (simp_all add: file_at_def in_data_def)
  define l where "l = (if cs = [] then CLUSTER_EOC else last cs)"
  from FindLastCluster_ok [OF vol n(1) ch has n(2)] n(3) obtain s1 where
    l: "FindLastCluster dv i s = Some (Some l, s1)" "hinted dv cap psz i (set cs) s s1" by (auto simp: l_def)
  note f1 = hinted_fields [OF l(2)]
  have so1: "search_ok dv cap psz s1" using so by (simp add: search_ok_def f1)
  from FindFreeCluster_ok [OF f1(1) table_is_table so1] obtain r s2 where
    r: "FindFreeCluster dv s1 = Some (r, s2)" "vol_ok dv cap psz s2" "search_ok dv cap psz s2" "vol_rest s2 = vol_rest s1"
      "data_same dv cap psz s1 s2"
    and rc: "case r of None \<Rightarrow> table_is dv cap psz s2 (fat_table dv cap psz s) \<and>
         (\<forall>x. 2 \<le> x \<and> x < cluster_cnt (fsb s) \<longrightarrow> fat_table dv cap psz s x \<noteq> CLUSTER_FREE)
       | Some c \<Rightarrow> table_is dv cap psz s2 ((fat_table dv cap psz s)(c := CLUSTER_EOC)) \<and> c \<in> free_clusters dv cap psz s"
    by (auto simp: f1 free_clusters_def split: option.splits)
  have m: "node_moved i (set cs) (\<lambda>d. d) s s2"
    using node_moved_trans [OF f1(6) node_moved_vol_rest [OF r(4)]] .
  have vg: "vol_geom s2 = vol_geom s" using m by (simp add: node_moved_def)
  have vg1: "vol_geom s1 = vol_geom s" using f1(6) by (simp add: node_moved_def)
  note geo = vol_geom_fields [OF vg]
  have k2: "kept_outside dv cap psz E s s2" for E
    by (rule kept_trans [OF kept_same_bytes [OF f1(3)] kept_data_same [OF r(5)] vg1])
  show ?thesis
  proof (cases r)
    case None
    with rc have t: "table_is dv cap psz s2 (fat_table dv cap psz s)" "free_clusters dv cap psz s = {}"
      by (auto simp: free_clusters_def)
    have "grows dv cap psz i cs [] s s2"
      by (rule growsI [OF g n(1) r(2,3) m t(1)]) (use ch nf n(3) in simp_all)
    moreover have "AppendCluster dv i s = Some (None, s2)" using l(1) r(1) None by (simp add: AppendCluster_def)
    ultimately show ?thesis using t(2) k2 by auto
  next
    case (Some c)
    with rc have t: "table_is dv cap psz s2 ((fat_table dv cap psz s)(c := CLUSTER_EOC))" "c \<in> free_clusters dv cap psz s"
      by simp_all
    from m n(1) obtain h off where n2: "the_node i s2 = Some (n\<lparr>fn_hint_cluster := h, fn_hint_offset := off\<rparr>)"
      unfolding node_moved_def by auto
    show ?thesis
    proof (cases "cs = []")
      case True
      from append_first [OF g [unfolded True] n(1) r(2) m [unfolded True list.set(1)] r(3) t] obtain s' where
        w: "FlushDirent dv i (upd_dirent i (SetFirstCluster c (fsb s2)) s2) = Some (0, s')"
        "grows dv cap psz i [] [c] s s'" "kept_outside dv cap psz {dirent_pos n..<dirent_pos n + 32} s2 s'" .
      have "AppendCluster dv i s = Some (Some c, s')"
        using l(1) r(1) Some n2 n(3) True w(1) by (simp add: AppendCluster_def geo)
      with kept_trans [OF k2 w(3) vg] w(2) t(2) True n(1) show ?thesis by (auto simp: flush_range_def)
    next
      case False
      from append_link [OF g n(1) r(2) m r(3) t False] obtain s' where
        w: "WriteFATEntry dv (last cs) c s2 = Some (0, s')" "grows dv cap psz i cs [c] s s'" "data_same dv cap psz s2 s'" .
      have "GetFirstCluster (fn_dirent n) (fsb s) \<noteq> CLUSTER_EOC" using ch False by (cases cs) (auto simp: allocated_def)
      then have "AppendCluster dv i s = Some (Some c, s')"
        using l(1) r(1) Some n2 False w(1) by (simp add: AppendCluster_def geo l_def)
      with kept_trans [OF k2 kept_data_same [OF w(3)] vg] w(2) t(2) show ?thesis by auto
    qed
  qed
qed


section \<open>Writing past the last cluster\<close>

lemma growable_node:
  assumes "growable dv cap psz s i cs"
  obtains n where "the_node i s = Some n" "chain (fat_table dv cap psz s) (GetFirstCluster (fn_dirent n) (fsb s)) cs"
    "cs = [] \<longrightarrow> GetFirstCluster (fn_dirent n) (fsb s) = CLUSTER_EOC"
  using assms by (auto simp: growable_def file_at_def)

lemma growable_file: "growable dv cap psz s i cs \<Longrightarrow> file_at dv cap psz s i cs"
  by (simp add: growable_def)

text \<open>Operations that leave the table and the nodes alone.\<close>

lemma grows_same:
  assumes g: "growable dv cap psz s i cs" and v: "vol_ok dv cap psz s'" and r: "part_rest s' = part_rest s"
    and t: "table_is dv cap psz s' (fat_table dv cap psz s)"
  shows "grows dv cap psz i cs [] s s'"
proof -
  obtain n where n: "the_node i s = Some n" "chain (fat_table dv cap psz s) (GetFirstCluster (fn_dirent n) (fsb s)) cs"
    "cs = [] \<longrightarrow> GetFirstCluster (fn_dirent n) (fsb s) = CLUSTER_EOC" by (rule growable_node [OF g])
  have so: "search_ok dv cap psz s'" using g search_ok_table [OF t] part_rest_fields(2) [OF r] by (simp add: growable_def search_ok_def)
  have nf: "\<forall>x\<in>set cs. fat_table dv cap psz s x \<noteq> CLUSTER_FREE" using g by (simp add: growable_def)
  show ?thesis
    by (rule growsI [OF g n(1) v so node_moved_vol_rest [OF vol_rest_part [OF r]] t]) (use n(2,3) nf in simp_all)
qed

lemma grows_view:
  assumes "growable dv cap psz s i cs" and "same_view dv cap psz s s'"
  shows "grows dv cap psz i cs [] s s'"
proof -
  note f = same_view_fields [OF assms(2)]
  show ?thesis by (rule grows_same [OF assms(1) f(1,7)]) (simp add: table_is_def f(5))
qed

lemma grows_free:
  assumes "grows dv cap psz i cs new s s'" and "clusters_ok psz (fsb s)"
  shows "free_clusters dv cap psz s' = free_clusters dv cap psz s - set new - set cs"
proof -
  from assms(1) have g: "growable dv cap psz s' i (cs @ new)" and vg: "vol_geom s' = vol_geom s"
    and o: "\<And>x. has_entry (fsb s) x \<Longrightarrow> x \<notin> set (cs @ new) \<Longrightarrow> fat_table dv cap psz s' x = fat_table dv cap psz s x"
    by (simp_all add: grows_def)
  note geo = vol_geom_fields [OF vg]
  have nf: "x \<in> set (cs @ new) \<Longrightarrow> fat_table dv cap psz s' x \<noteq> CLUSTER_FREE" for x
    using g by (simp add: growable_def)
  have he: "2 \<le> x \<Longrightarrow> x < cluster_cnt (fsb s) \<Longrightarrow> has_entry (fsb s) x" for x
    using assms(2) by (simp add: clusters_ok_def in_data_def)
  show ?thesis unfolding free_clusters_def geo using nf he o by fastforce
qed

lemma growable_free_disjoint: "growable dv cap psz s i cs \<Longrightarrow> free_clusters dv cap psz s \<inter> set cs = {}"
  by (auto simp: growable_def free_clusters_def)

lemma grows_trans:
  assumes g: "growable dv cap psz s i cs" and a: "grows dv cap psz i cs new s s'"
    and b: "grows dv cap psz i (cs @ new) new' s' s''"
  shows "grows dv cap psz i cs (new @ new') s s''"
proof -
  from a have vg: "vol_geom s' = vol_geom s" by (simp add: grows_def)
  have co: "clusters_ok psz (fsb s)" using g by (simp add: growable_def)
  have "set new' \<subseteq> free_clusters dv cap psz s"
    using b grows_free [OF a co] by (auto simp: grows_def)
  with a b show ?thesis by (auto simp: grows_def vol_geom_fields [OF vg])
qed

lemma room_append: "room sb (cs @ new) = room sb cs + length new * (spc sb * 512)"
  by (simp add: room_def algebra_simps)

lemma file_pos_append:
  assumes "q < room sb cs" and "spc sb \<noteq> 0"
  shows "file_pos sb (cs @ new) q = file_pos sb cs q"
proof -
  have "q div (spc sb * 512) < length cs"
    using assms by (intro div_less_len) (simp_all add: room_def)
  then show ?thesis by (simp add: file_pos_def nth_append)
qed

lemma write_cluster_ok:
  assumes g: "growable dv cap psz s i cs" and p: "unat offset \<le> room (fsb s) cs"
    and f: "unat offset < room (fsb s) cs \<or> free_clusters dv cap psz s \<noteq> {}"
  shows "\<exists>new s'. write_cluster dv i offset s = Some (Some ((cs @ new) ! (unat offset div (spc (fsb s) * 512))), s') \<and>
    grows dv cap psz i cs new s s' \<and> unat offset < room (fsb s) (cs @ new) \<and>
    kept_outside dv cap psz (flush_range s i cs) s s'"
proof -
  note fa = growable_file [OF g]
  from FindCluster_ok [OF fa, of offset] obtain s1 where
    c: "FindCluster dv i offset s = Some (if unat offset < room (fsb s) cs
        then Some (cs ! (unat offset div (spc (fsb s) * 512))) else None, s1)" "same_view dv cap psz s s1" by blast
  note g1 = grows_view [OF g c(2)]
  note k1 = kept_same_bytes [OF same_view_fields(6) [OF c(2)]]
  show ?thesis
  proof (cases "unat offset < room (fsb s) cs")
    case True
    then have "write_cluster dv i offset s = Some (Some ((cs @ []) ! (unat offset div (spc (fsb s) * 512))), s1)"
      using c(1) by (subst write_cluster.simps) simp
    with True g1 k1 show ?thesis by (metis append_Nil2)
  next
    case False
    with p f have eq: "unat offset = room (fsb s) cs" and fr: "free_clusters dv cap psz s \<noteq> {}" by auto
    from g1 have gs1: "growable dv cap psz s1 i cs" and vg1: "vol_geom s1 = vol_geom s" by (simp_all add: grows_def)
    note geo1 = vol_geom_fields [OF vg1]
    have "free_clusters dv cap psz s1 = free_clusters dv cap psz s"
      using same_view_fields(5) [OF c(2)] by (simp add: free_clusters_def geo1)
    with fr AppendCluster_ok [OF gs1] obtain x s2 where
      a: "AppendCluster dv i s1 = Some (Some x, s2)" "kept_outside dv cap psz (flush_range s1 i cs) s1 s2"
        "grows dv cap psz i cs [x] s1 s2" by (auto split: option.splits)
    have g2: "grows dv cap psz i cs [x] s s2" using grows_trans [OF g g1] a(3) by simp
    then have gs2: "growable dv cap psz s2 i (cs @ [x])" and vg2: "vol_geom s2 = vol_geom s" by (simp_all add: grows_def)
    note geo2 = vol_geom_fields [OF vg2]
    have "spc (fsb s) \<noteq> 0" using fa by (simp add: file_at_def data_geom_def)
    then have rm: "unat offset < room (fsb s) (cs @ [x])" by (simp add: eq room_append)
    from FindCluster_ok [OF growable_file [OF gs2], of offset] rm obtain s3 where
      d: "FindCluster dv i offset s2 = Some (Some ((cs @ [x]) ! (unat offset div (spc (fsb s) * 512))), s3)"
        "same_view dv cap psz s2 s3" by (auto simp: geo2)
    have "write_cluster dv i offset s = Some (Some ((cs @ [x]) ! (unat offset div (spc (fsb s) * 512))), s3)"
      using c(1) False a(1) d(1) by (subst write_cluster.simps) (simp add: write_cluster.simps [of dv i offset s2])
    moreover have "grows dv cap psz i cs [x] s s3" using grows_trans [OF g g2 grows_view [OF gs2 d(2)]] by simp
    moreover have "kept_outside dv cap psz (flush_range s i cs) s s3"
    proof -
      have "flush_range s1 i cs = flush_range s i cs" using same_view_fields(3) [OF c(2)] by (simp add: flush_range_def)
      then have k2: "kept_outside dv cap psz (flush_range s i cs) s s2" using kept_trans [OF k1 _ vg1] a(2) by simp
      show ?thesis by (rule kept_trans [OF k2 kept_same_bytes [OF same_view_fields(6) [OF d(2)]] vg2])
    qed
    ultimately show ?thesis using rm by blast
  qed
qed

text \<open>
  The bytes after a write at \<open>p\<close> to the clusters \<open>cs\<close>: those of the range are the source, those
  elsewhere outside the table and \<open>E\<close> are as before.
\<close>

definition wrote :: "'d block_device \<Rightarrow> nat \<Rightarrow> nat \<Rightarrow> nat set \<Rightarrow> FatSB \<Rightarrow> u32 list \<Rightarrow> nat \<Rightarrow> nat \<Rightarrow> bytes \<Rightarrow>
    'd fat_state \<Rightarrow> 'd fat_state \<Rightarrow> bool" where
  "wrote dv cap psz E sb cs p n src s s' \<longleftrightarrow>
     (\<forall>a. a < fat_start sb 0 \<or> fat_end sb \<le> a \<longrightarrow> a \<notin> E \<longrightarrow> a \<notin> file_pos sb cs ` {p..<p + n} \<longrightarrow>
        part_byte dv cap psz s' a = part_byte dv cap psz s a) \<and>
     (\<forall>q. p \<le> q \<and> q < p + n \<longrightarrow> part_byte dv cap psz s' (file_pos sb cs q) = src ! (q - p))"

lemma file_pos_behind:
  assumes "file_at dv cap psz s i cs" and "p < room (fsb s) cs"
  shows "fat_end (fsb s) \<le> file_pos (fsb s) cs p"
  using transfer_fits(2) [OF assms, of 1] by simp

lemma wrote_trans:
  assumes k: "kept_outside dv cap psz E s s1" and sb: "fsb s = sb"
    and sp: "file_splice sb cs1 p k src (part_byte dv cap psz s1) (part_byte dv cap psz s2)"
    and w: "wrote dv cap psz {} sb (cs1 @ rest) (p + k) m (drop k src) s2 s3"
    and fa: "file_at dv cap psz s3 i (cs1 @ rest)" and vg: "vol_geom s3 = vol_geom s"
    and rm: "p + k \<le> room sb cs1" "p + (k + m) \<le> room sb (cs1 @ rest)" and len: "k \<le> length src"
  shows "wrote dv cap psz E sb (cs1 @ rest) p (k + m) src s s3"
proof -
  note geo = vol_geom_fields [OF vg, unfolded sb]
  let ?cs = "cs1 @ rest"
  have nz: "spc sb \<noteq> 0" using fa by (simp add: file_at_def data_geom_def geo)
  have eq: "file_pos sb ?cs q = file_pos sb cs1 q" if "q < p + k" for q
    using that rm(1) by (intro file_pos_append [OF _ nz]) simp
  have img: "file_pos sb ?cs ` {p..<p + k} = file_pos sb cs1 ` {p..<p + k}" by (rule image_cong) (use eq in auto)
  have sub: "{p..<p + k} \<subseteq> {p..<p + (k + m)}" "{p + k..<p + k + m} \<subseteq> {p..<p + (k + m)}" by auto
  have "part_byte dv cap psz s3 a = part_byte dv cap psz s a"
    if a: "a < fat_start sb 0 \<or> fat_end sb \<le> a" "a \<notin> E" "a \<notin> file_pos sb ?cs ` {p..<p + (k + m)}" for a
  proof -
    have "a \<notin> file_pos sb ?cs ` {p + k..<p + k + m}" "a \<notin> file_pos sb cs1 ` {p..<p + k}"
      using a(3) sub unfolding img [symmetric] by blast+
    moreover from this have "part_byte dv cap psz s2 a = part_byte dv cap psz s1 a" using sp by (simp add: file_splice_def)
    ultimately have "part_byte dv cap psz s3 a = part_byte dv cap psz s1 a" using w a(1) by (auto simp: wrote_def)
    then show ?thesis using k a(1,2) by (auto simp: kept_outside_def sb)
  qed
  moreover have "part_byte dv cap psz s3 (file_pos sb ?cs q) = src ! (q - p)" if q: "p \<le> q" "q < p + (k + m)" for q
  proof (cases "q < p + k")
    case True
    have q': "q < room sb ?cs" using q(2) rm(2) by simp
    have "file_pos sb ?cs q \<notin> file_pos sb ?cs ` {p + k..<p + k + m}"
    proof
      assume "file_pos sb ?cs q \<in> file_pos sb ?cs ` {p + k..<p + k + m}"
      then obtain r where r: "p + k \<le> r" "r < p + k + m" "file_pos sb ?cs q = file_pos sb ?cs r" by auto
      from file_pos_inj [OF fa, of q r] q' r rm(2) True show False by (simp add: geo)
    qed
    moreover have "fat_end sb \<le> file_pos sb ?cs q" using file_pos_behind [OF fa, of q] q' by (simp add: geo)
    ultimately have "part_byte dv cap psz s3 (file_pos sb ?cs q) = part_byte dv cap psz s2 (file_pos sb ?cs q)"
      using w by (simp add: wrote_def)
    also have "\<dots> = src ! (q - p)"
      using sp q(1) True rm(1) by (simp add: eq [OF True] file_splice_def)
    finally show ?thesis .
  next
    case False
    with w q len show ?thesis by (simp add: wrote_def)
  qed
  ultimately show ?thesis by (simp add: wrote_def)
qed

lemma table_splice:
  assumes fa: "file_at dv cap psz s i cs" and r: "part_rest s' = part_rest s"
    and sp: "file_splice (fsb s) cs p n src (part_byte dv cap psz s) (part_byte dv cap psz s')"
    and rm: "p + n \<le> room (fsb s) cs"
  shows "table_is dv cap psz s' (fat_table dv cap psz s)"
proof -
  note f = part_rest_fields [OF r]
  from fa have g: "sb_fat_type (fsb s) \<noteq> TYPE_FAT32" "fat_cnt (bpb (fsb s)) \<noteq> 0"
    by (simp_all add: file_at_def vol_ok_def fat_ok_def fat_geom_def)
  have low: "part_byte dv cap psz s' a = part_byte dv cap psz s a" if "a < fat_end (fsb s)" for a
  proof -
    have "a \<notin> file_pos (fsb s) cs ` {p..<p + n}"
    proof
      assume "a \<in> file_pos (fsb s) cs ` {p..<p + n}"
      then obtain q where "q < p + n" "a = file_pos (fsb s) cs q" by auto
      with file_pos_behind [OF fa, of q] rm that show False by simp
    qed
    with sp show ?thesis by (simp add: file_splice_def)
  qed
  have "fat_table dv cap psz s' c = fat_table dv cap psz s c" if "has_entry (fsb s) c" for c
    unfolding fat_table_def f by (rule fat_entry_low [OF that g low])
  then show ?thesis by (simp add: table_is_def f)
qed

lemma growable_flush: "growable dv cap psz s i cs \<Longrightarrow> cs \<noteq> [] \<Longrightarrow> flush_range s i cs = {}"
  by (auto simp: growable_def flush_range_def)

text \<open>How many bytes the file and the free clusters have room for.\<close>

definition reach :: "'d block_device \<Rightarrow> nat \<Rightarrow> nat \<Rightarrow> 'd fat_state \<Rightarrow> u32 list \<Rightarrow> nat" where
  "reach dv cap psz s cs = (length cs + card (free_clusters dv cap psz s)) * (spc (fsb s) * 512)"

lemma finite_free [simp]: "finite (free_clusters dv cap psz s)"
  by (rule finite_subset [OF subset_UNIV]) simp

lemma grows_reach:
  assumes g: "growable dv cap psz s i cs" and a: "grows dv cap psz i cs new s s'"
  shows "reach dv cap psz s cs \<le> reach dv cap psz s' (cs @ new)"
proof -
  from a have vg: "vol_geom s' = vol_geom s" and sub: "set new \<subseteq> free_clusters dv cap psz s" by (simp_all add: grows_def)
  have "free_clusters dv cap psz s' = free_clusters dv cap psz s - set new"
    using grows_free [OF a] g growable_free_disjoint [OF g] by (auto simp: growable_def)
  then have "card (free_clusters dv cap psz s') = card (free_clusters dv cap psz s) - card (set new)"
    using sub by (simp add: card_Diff_subset)
  then have "length cs + card (free_clusters dv cap psz s) \<le> length (cs @ new) + card (free_clusters dv cap psz s')"
    using card_length [of new] by simp
  then show ?thesis unfolding reach_def vol_geom_fields [OF vg] by (rule mult_right_mono) simp
qed

text \<open>One turn of the loop of \<open>writeFile\<close>: a cluster, and the bytes of one sector.\<close>

lemma write_turn_ok:
  assumes g: "growable dv cap psz s i cs" and p: "unat offset \<le> room (fsb s) cs"
    and fr: "unat offset < reach dv cap psz s cs" and sm: "unat offset < 2147483648"
    and left: "left \<noteq> 0" and len: "unat left \<le> length src"
  obtains new c s1 s2 sector so n where
    "write_cluster dv i offset s = Some (Some c, s1)" "cluster_position c offset s1 = (sector, so)"
    "n = transfer_nbytes left so" "n \<noteq> 0" "n \<le> left" "writeSector dv (Some src) sector so n s1 = Some (0, s2)"
    "grows dv cap psz i cs new s s2" "cs @ new \<noteq> []" "unat offset + unat n \<le> room (fsb s) (cs @ new)"
    "kept_outside dv cap psz (flush_range s i cs) s s1"
    "file_splice (fsb s) (cs @ new) (unat offset) (unat n) src (part_byte dv cap psz s1) (part_byte dv cap psz s2)"
proof -
  define q where "q = unat offset"
  define idx where "idx = q div (spc (fsb s) * 512)"
  have "q < room (fsb s) cs \<or> free_clusters dv cap psz s \<noteq> {}"
    using fr by (cases "free_clusters dv cap psz s = {}") (auto simp: reach_def room_def q_def)
  from write_cluster_ok [OF g p this [unfolded q_def]] obtain new s1 where
    w: "write_cluster dv i offset s = Some (Some ((cs @ new) ! idx), s1)" "grows dv cap psz i cs new s s1"
      "q < room (fsb s) (cs @ new)" "kept_outside dv cap psz (flush_range s i cs) s s1" by (auto simp: q_def idx_def)
  from w(2) have g1: "growable dv cap psz s1 i (cs @ new)" and vg: "vol_geom s1 = vol_geom s" by (simp_all add: grows_def)
  note geo = vol_geom_fields [OF vg]
  note fa = growable_file [OF g1]
  have rm: "q < room (fsb s1) (cs @ new)" using w(3) by (simp add: geo)
  obtain sector so where cp: "cluster_position ((cs @ new) ! idx) offset s1 = (sector, so)" by fastforce
  note pos = cluster_position_ok [OF fa rm [unfolded q_def] sm cp [unfolded idx_def q_def, folded geo(8)], folded q_def]
  have so: "so < 512" using pos(2) by (simp add: word_less_nat_alt)
  define n where "n = transfer_nbytes left so"
  note un = unat_transfer [OF so left, folded n_def]
  have k: "unat n \<le> 512 - q mod 512" using un pos(2) by simp
  have nle: "n \<le> left" by (simp add: n_def transfer_nbytes_le)
  then have "unat n \<le> unat left" by (simp add: word_le_nat_alt)
  with len have nlen: "unat n \<le> length src" by simp
  have n0: "0 < unat n" using un(2) by (simp add: unat_gt_0)
  have fit: "q + unat n \<le> room (fsb s1) (cs @ new)" by (rule transfer_fits(3) [OF fa rm k n0])
  from writeSector_file [OF fa rm k un(2) pos(1) so nlen] obtain s2 where
    x: "writeSector dv (Some src) sector so n s1 = Some (0, s2)" "file_at dv cap psz s2 i (cs @ new)"
      "part_rest s2 = part_rest s1"
      "file_splice (fsb s1) (cs @ new) q (unat n) src (part_byte dv cap psz s1) (part_byte dv cap psz s2)" .
  have "vol_ok dv cap psz s2" using x(2) by (simp add: file_at_def)
  from grows_trans [OF g w(2) grows_same [OF g1 this x(3) table_splice [OF fa x(3,4) fit]]]
  have g2: "grows dv cap psz i cs new s s2" by simp
  have ne: "cs @ new \<noteq> []" using w(3) by (auto simp: room_def)
  have sp: "file_splice (fsb s) (cs @ new) q (unat n) src (part_byte dv cap psz s1) (part_byte dv cap psz s2)"
    using x(4) by (simp add: file_splice_def geo)
  show ?thesis
    by (rule that [OF w(1) cp n_def un(2) nle x(1) g2 ne _ w(4) sp [unfolded q_def]])
      (use fit in \<open>simp add: geo q_def\<close>)
qed

lemma fat_write_grow_ok:
  "growable dv cap psz s i cs \<Longrightarrow> unat offset \<le> room (fsb s) cs \<Longrightarrow>
   unat offset + unat left \<le> reach dv cap psz s cs \<Longrightarrow> unat offset + unat left \<le> 2147483648 \<Longrightarrow>
   unat left \<le> length src \<Longrightarrow>
   \<exists>new s'. fat_write_loop dv i src left offset s = Some (True, 0, offset + left, s') \<and>
     grows dv cap psz i cs new s s' \<and> unat offset + unat left \<le> room (fsb s) (cs @ new) \<and>
     wrote dv cap psz (flush_range s i cs) (fsb s) (cs @ new) (unat offset) (unat left) src s s'"
proof (induction "unat left" arbitrary: left offset src s cs rule: less_induct)
  case less
  note g = less.prems(1) and rm = less.prems(2) and rc = less.prems(3) and sm = less.prems(4) and len = less.prems(5)
  show ?case
  proof (cases "left = 0")
    case True
    have "grows dv cap psz i cs [] s s"
      using growable_file [OF g] by (intro grows_view [OF g] same_view_refl) (simp add: file_at_def)
    with True rm show ?thesis
      by (intro exI [of _ "[]"] exI [of _ s]) (auto simp: fat_write_loop.simps [of dv i src 0] wrote_def)
  next
    case False
    then have l0: "0 < unat left" by (simp add: unat_gt_0)
    have "unat offset < reach dv cap psz s cs" "unat offset < 2147483648" using rc sm l0 by linarith+
    from write_turn_ok [OF g rm this False len] obtain new c s1 s2 sector so n where
      t: "write_cluster dv i offset s = Some (Some c, s1)" "cluster_position c offset s1 = (sector, so)"
        "n = transfer_nbytes left so" "n \<noteq> 0" "n \<le> left" "writeSector dv (Some src) sector so n s1 = Some (0, s2)"
        "grows dv cap psz i cs new s s2" "cs @ new \<noteq> []" "unat offset + unat n \<le> room (fsb s) (cs @ new)"
        "kept_outside dv cap psz (flush_range s i cs) s s1"
        "file_splice (fsb s) (cs @ new) (unat offset) (unat n) src (part_byte dv cap psz s1) (part_byte dv cap psz s2)" .
    have nle: "unat n \<le> unat left" using t(5) by (simp add: word_le_nat_alt)
    have ul: "unat (left - n) = unat left - unat n" using t(5) by (simp add: unat_sub)
    have uo: "unat (offset + n) = unat offset + unat n" using nle sm by (simp add: unat_word_ariths)
    have n0: "0 < unat n" using t(4) by (simp add: unat_gt_0)
    from t(7) have g2: "growable dv cap psz s2 i (cs @ new)" and vg2: "vol_geom s2 = vol_geom s" by (simp_all add: grows_def)
    note geo = vol_geom_fields [OF vg2]
    have a: "unat (left - n) < unat left" "unat (offset + n) \<le> room (fsb s2) (cs @ new)"
      "unat (offset + n) + unat (left - n) \<le> 2147483648" "unat (left - n) \<le> length (drop (unat n) src)"
      using ul uo n0 l0 nle t(9) sm len by (simp_all add: geo)
    have b: "unat (offset + n) + unat (left - n) \<le> reach dv cap psz s2 (cs @ new)"
      using grows_reach [OF g t(7)] rc nle by (simp add: ul uo)
    from less.hyps [OF a(1) g2 a(2) b a(3,4)] obtain new' s3 where
      IH: "fat_write_loop dv i (drop (unat n) src) (left - n) (offset + n) s2 = Some (True, 0, offset + left, s3)"
        "grows dv cap psz i (cs @ new) new' s2 s3"
        "unat offset + unat left \<le> room (fsb s2) (cs @ new @ new')"
        "wrote dv cap psz {} (fsb s2) (cs @ new @ new') (unat offset + unat n) (unat left - unat n) (drop (unat n) src) s2 s3"
      using nle by (auto simp: ul uo growable_flush [OF g2 t(8)])
    have eq: "fat_write_loop dv i src left offset s = Some (True, 0, offset + left, s3)"
      using False t(1,2,4,6) IH(1) by (simp add: fat_write_loop.simps [of dv i src left offset s] t(3) [symmetric])
    note gr = grows_trans [OF g t(7) IH(2)]
    then have fa3: "file_at dv cap psz s3 i ((cs @ new) @ new')" and vg3: "vol_geom s3 = vol_geom s"
      by (simp_all add: grows_def growable_def)
    have w: "wrote dv cap psz {} (fsb s) ((cs @ new) @ new') (unat offset + unat n) (unat left - unat n) (drop (unat n) src) s2 s3"
      using IH(4) by (simp add: wrote_def geo)
    have rm3: "unat offset + (unat n + (unat left - unat n)) \<le> room (fsb s) ((cs @ new) @ new')"
      using IH(3) nle by (simp add: geo)
    have nlen: "unat n \<le> length src" using nle len by simp
    from wrote_trans [OF t(10) refl t(11) w fa3 vg3 t(9) rm3 nlen] eq gr rm3 nle show ?thesis by auto
  qed
qed

text \<open>\<open>writeFile\<close> as a whole.\<close>

lemma growable_size:
  assumes "growable dv cap psz s i cs"
  shows "growable dv cap psz (upd_dirent i (\<lambda>d. d\<lparr>fd_size := z\<rparr>) s) i cs"
proof -
  let ?s = "upd_dirent i (\<lambda>d. d\<lparr>fd_size := z\<rparr>) s"
  from assms obtain n where n: "the_node i s = Some n" "dirent_ok psz (fsb s) n"
    "fn_hint_cluster n = 0 \<or> fn_hint_cluster n \<in> set cs"
    "cs = [] \<longrightarrow> GetFirstCluster (fn_dirent n) (fsb s) = CLUSTER_EOC" by (auto simp: growable_def)
  have "fat_table dv cap psz ?s = fat_table dv cap psz s" by (simp add: upd_dirent_def)
  with assms n the_node_upd_dirent [OF n(1), of "\<lambda>d. d\<lparr>fd_size := z\<rparr>"] file_at_size(1) [of dv cap psz s i cs z]
  show ?thesis by (simp add: growable_def search_ok_def dirent_ok_def dirent_pos_def)
qed

lemma wrote_content:
  assumes w: "wrote dv cap psz (flush_range s i cs) (fsb s) (cs @ new) off n src s s'"
    and g: "growable dv cap psz s i cs" and fa: "file_at dv cap psz s' i (cs @ new)" and vg: "vol_geom s' = vol_geom s"
    and sz: "node_size s i \<le> room (fsb s) cs" "off \<le> node_size s i" "off + n \<le> room (fsb s) (cs @ new)"
    and q: "q < node_size s i" "\<not> (off \<le> q \<and> q < off + n)"
  shows "part_byte dv cap psz s' (file_pos (fsb s) (cs @ new) q) = part_byte dv cap psz s (file_pos (fsb s) cs q)"
proof -
  note geo = vol_geom_fields [OF vg]
  note fas = growable_file [OF g]
  have qr: "q < room (fsb s) cs" using q(1) sz(1) by simp
  then have ne: "cs \<noteq> []" by (auto simp: room_def)
  have eq: "file_pos (fsb s) (cs @ new) q = file_pos (fsb s) cs q"
    using fas by (intro file_pos_append [OF qr]) (simp add: file_at_def data_geom_def)
  have "file_pos (fsb s) (cs @ new) q \<notin> file_pos (fsb s) (cs @ new) ` {off..<off + n}"
  proof
    assume "file_pos (fsb s) (cs @ new) q \<in> file_pos (fsb s) (cs @ new) ` {off..<off + n}"
    then obtain r where r: "off \<le> r" "r < off + n" "file_pos (fsb s) (cs @ new) q = file_pos (fsb s) (cs @ new) r" by auto
    have "q < room (fsb s') (cs @ new)" "r < room (fsb s') (cs @ new)" using qr r(2) sz(3) by (simp_all add: geo room_append)
    from file_pos_inj [OF fa this] r q(2) show False by (simp add: geo)
  qed
  with w file_pos_behind [OF fas qr] growable_flush [OF g ne] show ?thesis by (simp add: wrote_def eq)
qed

lemma writeFile_grow_ok:
  assumes g: "growable dv cap psz s i cs" and ok: "file_ok dv cap psz s i cs" and off: "unat offset \<le> node_size s i"
    and rc: "unat offset + unat count \<le> reach dv cap psz s cs" and sm: "unat offset + unat count \<le> 2147483648"
    and len: "unat count \<le> length buf"
  obtains new s' where "writeFile dv i buf count offset s = Some (count, s')"
    "file_ok dv cap psz s' i (cs @ new)" "growable dv cap psz s' i (cs @ new)"
    "set new \<subseteq> free_clusters dv cap psz s"
    "file_content dv cap psz s' i (cs @ new) = take (unat offset) (file_content dv cap psz s i cs) @ take (unat count) buf @
       drop (unat offset + unat count) (file_content dv cap psz s i cs)"
    "\<And>x. has_entry (fsb s) x \<Longrightarrow> x \<notin> set (cs @ new) \<Longrightarrow> fat_table dv cap psz s' x = fat_table dv cap psz s x"
    "\<And>a. a < fat_start (fsb s) 0 \<or> fat_end (fsb s) \<le> a \<Longrightarrow> a \<notin> flush_range s i cs \<Longrightarrow>
       a \<notin> file_pos (fsb s) (cs @ new) ` {unat offset..<unat offset + unat count} \<Longrightarrow>
       part_byte dv cap psz s' a = part_byte dv cap psz s a"
proof -
  from ok have sz: "node_size s i \<le> room (fsb s) cs" "node_size s i \<le> 2147483648" by (simp_all add: file_ok_def)
  from growable_node [OF g] obtain n where n: "the_node i s = Some n" .
  have ns: "node_size s i = unat (fd_size (fn_dirent n))" by (simp add: node_size_def n)
  then have nogap: "\<not> fd_size (fn_dirent n) < offset" using off by (simp add: word_less_nat_alt)
  have orm: "unat offset \<le> room (fsb s) cs" using off sz(1) by simp
  from fat_write_grow_ok [OF g orm rc sm len] obtain new s1 where
    w: "fat_write_loop dv i buf count offset s = Some (True, 0, offset + count, s1)" "grows dv cap psz i cs new s s1"
      "unat offset + unat count \<le> room (fsb s) (cs @ new)"
      "wrote dv cap psz (flush_range s i cs) (fsb s) (cs @ new) (unat offset) (unat count) buf s s1" by blast
  from w(2) have g1: "growable dv cap psz s1 i (cs @ new)" and vg: "vol_geom s1 = vol_geom s"
    and ns1: "node_size s1 i = node_size s i" and sub: "set new \<subseteq> free_clusters dv cap psz s"
    and tab: "\<And>x. has_entry (fsb s) x \<Longrightarrow> x \<notin> set (cs @ new) \<Longrightarrow> fat_table dv cap psz s1 x = fat_table dv cap psz s x"
    by (simp_all add: grows_def)
  note geo = vol_geom_fields [OF vg]
  note fa1 = growable_file [OF g1]
  from growable_node [OF g1] obtain n1 where n1: "the_node i s1 = Some n1" .
  have sz1: "fd_size (fn_dirent n1) = fd_size (fn_dirent n)"
    using ns1 by (simp add: node_size_def n n1 word_unat_eq_iff)
  define s2 where "s2 = (if fd_size (fn_dirent n) < offset + count
    then upd_dirent i (\<lambda>d. d\<lparr>fd_size := offset + count\<rparr>) s1 else s1)"
  have uo: "unat (offset + count) = unat offset + unat count" using sm by (simp add: unat_word_ariths)
  have a: "writeFile dv i buf count offset s = Some (count, s2)"
    using n nogap w(1) n1 by (simp add: writeFile_def sz1 s2_def)
  have g2: "growable dv cap psz s2 i (cs @ new)"
    using g1 growable_size [OF g1, of "offset + count"] unfolding s2_def by (simp split: if_splits)
  have ns2: "node_size s2 i = max (node_size s i) (unat offset + unat count)"
    using file_at_size(2) [OF fa1] ns1 by (auto simp: s2_def ns uo word_less_nat_alt)
  have fs2: "fsb s2 = fsb s1" and pb2: "part_byte dv cap psz s2 = part_byte dv cap psz s1" by (simp_all add: s2_def)
  have b: "file_ok dv cap psz s2 i (cs @ new)"
    using growable_file [OF g2] ns2 sz w(3) sm by (simp add: file_ok_def fs2 geo room_append)
  have c: "file_content dv cap psz s2 i (cs @ new) = take (unat offset) (file_content dv cap psz s i cs) @ take (unat count) buf @
       drop (unat offset + unat count) (file_content dv cap psz s i cs)" (is "?l = ?r")
  proof (rule nth_equalityI)
    show "length ?l = length ?r" using ns2 off len by simp
    fix q assume "q < length ?l"
    then have q: "q < node_size s2 i" by simp
    then have "?l ! q = part_byte dv cap psz s1 (file_pos (fsb s) (cs @ new) q)"
      by (simp add: nth_file_content pb2 fs2 geo)
    also have "\<dots> = (if unat offset \<le> q \<and> q < unat offset + unat count then buf ! (q - unat offset)
        else part_byte dv cap psz s (file_pos (fsb s) cs q))"
      using w(4) wrote_content [OF w(4) g fa1 vg sz(1) off w(3)] q ns2 off by (auto simp: wrote_def)
    also have "\<dots> = ?r ! q"
      using q ns2 off len by (auto simp: nth_append nth_file_content)
    finally show "?l ! q = ?r ! q" .
  qed
  have d: "fat_table dv cap psz s2 x = fat_table dv cap psz s x" if "has_entry (fsb s) x" "x \<notin> set (cs @ new)" for x
    using tab [OF that] by (simp add: s2_def upd_dirent_def)
  have e: "part_byte dv cap psz s2 a = part_byte dv cap psz s a"
    if "a < fat_start (fsb s) 0 \<or> fat_end (fsb s) \<le> a" "a \<notin> flush_range s i cs"
      "a \<notin> file_pos (fsb s) (cs @ new) ` {unat offset..<unat offset + unat count}" for a
    using w(4) that by (auto simp: pb2 wrote_def)
  show ?thesis by (rule that [OF a b g2 sub c d e])
qed

end
