(* ===== verification/FatVolume.thy ===== *)
theory FatVolume
  imports FatGrow
begin

text \<open>
  What a mounted FAT12 or FAT16 volume promises: its table, its allocator of clusters and its files,
  each with a concrete volume on which the hypotheses hold; files grow through \<open>FatGrow\<close>.
\<close>

section \<open>A volume in memory\<close>

text \<open>
  A FAT16 volume of 100 sectors at sector 2 of a device of 128: a boot sector, two copies of a table
  of one sector, one sector for the root directory and 16 clusters of a sector each, all zero. Node
  1 is a file of 5 bytes in cluster 3.
\<close>

definition demo_fat :: "(nat \<Rightarrow> byte) fat_state" where
  "demo_fat = (fat_globals False (memory_cache 0))
     \<lparr>fsb := zero_fatsb\<lparr>sb_fat_type := TYPE_FAT16,
        bpb := (bpb zero_fatsb)\<lparr>sectors_per_cluster := 1, reserved_sectors_cnt := 1, fat_cnt := 2,
                 sectors_per_fat16 := 1\<rparr>,
        partition_start := 2, partition_size := 100, sectors_per_fat := 1, cluster_cnt := 16,
        first_data_sector := 4, start_search_cluster := 2\<rparr>,
      node_heap := [Some zero_node,
        Some (zero_node\<lparr>fn_dirent := zero_dirent\<lparr>fd_first_cluster_lo := 3, fd_size := 5\<rparr>\<rparr>)]\<rparr>"

lemma demo_cache: "block_cache demo_fat = memory_cache 0" "fat_be demo_fat = False"
  by (simp_all add: demo_fat_def fat_globals_def)

lemma demo_fsb [simp]:
  "sb_fat_type (fsb demo_fat) = TYPE_FAT16" "sectors_per_cluster (bpb (fsb demo_fat)) = 1"
  "reserved_sectors_cnt (bpb (fsb demo_fat)) = 1" "fat_cnt (bpb (fsb demo_fat)) = 2"
  "sectors_per_fat16 (bpb (fsb demo_fat)) = 1" "partition_start (fsb demo_fat) = 2"
  "cluster_cnt (fsb demo_fat) = 16" "first_data_sector (fsb demo_fat) = 4"
  "start_search_cluster (fsb demo_fat) = 2"
  by (simp_all add: demo_fat_def)

lemma demo_byte: "part_byte memory_device 128 100 demo_fat a = 0"
proof -
  from CreateCache_ok [OF memory_device_contract, of 64 "replicate 32768 0" 0 0 1 0 512 "\<lambda>_. 0"]
  have "\<And>n. sector_bytes memory_device (memory_cache 0) n = dv_read memory_device (\<lambda>_. 0) (n * 512)"
    by (simp add: memory_cache_eq) metis
  then show ?thesis
    by (simp add: part_byte_def disk_byte_def demo_cache memory_device_def)
qed

lemma demo_has_entry: "has_entry (fsb demo_fat) cl \<longleftrightarrow> unat cl < 256"
  by (auto simp: has_entry_def fat_off_def fat_width_def fat_sectors_def)

lemma demo_vol_ok: "vol_ok memory_device 128 100 demo_fat"
proof -
  have "has_entry (fsb demo_fat) cl" if "cl < 16" for cl
    using that by (simp add: demo_has_entry word_less_nat_alt)
  then show ?thesis
    by (simp add: vol_ok_def fat_ok_def part_ok_def demo_cache memory_cache_ok fat_geom_def fat_end_def fat_start_def
        fat_sectors_def)
qed

lemma demo_table: "fat_table memory_device 128 100 demo_fat cl = CLUSTER_FREE"
  by (simp add: fat_table_def fat_entry_def Let_def fat_width_def raw_entry_def demo_byte dec16_def fat_mark_def)

lemma demo_search_ok: "search_ok memory_device 128 100 demo_fat"
  unfolding search_ok_def by (rule search_at_two) simp_all

lemma demo_node:
  "the_node (Suc 0) demo_fat = Some (zero_node\<lparr>fn_dirent := zero_dirent\<lparr>fd_first_cluster_lo := 3, fd_size := 5\<rparr>\<rparr>)"
  by (simp add: the_node_def demo_fat_def)

lemma demo_file_ok: "file_ok memory_device 128 100 demo_fat 1 [3]"
proof -
  have "GetFirstCluster (zero_dirent\<lparr>fd_first_cluster_lo := 3, fd_size := 5\<rparr>) (fsb demo_fat) = 3"
    by (simp add: GetFirstCluster_def Let_def fat_mark_def)
  then have "file_at memory_device 128 100 demo_fat 1 [3]"
    by (simp add: file_at_def demo_vol_ok demo_node data_geom_def in_data_def demo_has_entry demo_table
        spc_def cluster_start_def fat_end_def fat_start_def fat_sectors_def zero_node_def allocated_def)
  then show ?thesis by (simp add: file_ok_def node_size_def demo_node room_def spc_def)
qed

lemma demo_content: "file_content memory_device 128 100 demo_fat (Suc 0) [3] = [0, 0, 0, 0, 0]"
  by (simp add: file_content_def file_bytes_def demo_byte node_size_def demo_node upt_rec)



section \<open>Files\<close>

text \<open>C23.
  Reading a file of a FAT12 or FAT16 volume delivers exactly the bytes of the file in the range
  asked for, cut at the end of the file, for every count and offset; and it changes neither the file
  nor any other byte of the partition.
\<close>

theorem readFile_delivers_range:
  assumes "file_ok dv cap psz s i cs"
  shows "\<exists>s'. readFile dv i count offset s =
      Some (take (unat count) (drop (unat offset) (file_content dv cap psz s i cs)), s') \<and>
    file_content dv cap psz s' i cs = file_content dv cap psz s i cs \<and>
    part_byte dv cap psz s' = part_byte dv cap psz s"
proof -
  from readFile_ok [OF assms] obtain s' where
    r: "readFile dv i count offset s =
      Some (take (unat count) (drop (unat offset) (file_content dv cap psz s i cs)), s')" "same_view dv cap psz s s'" .
  note v = same_view_fields [OF r(2)]
  have "file_content dv cap psz s' i cs = file_content dv cap psz s i cs"
    by (simp add: file_content_def node_size_def v)
  with r(1) v(6) show ?thesis by blast
qed

lemma readFile_delivers_range_witness:
  "\<exists>s'. readFile memory_device 1 100 2 demo_fat = Some ([0, 0, 0], s')"
  using readFile_delivers_range [OF demo_file_ok, of 100 2] by (auto simp: demo_content)

text \<open>C21.
  Writing to a file at or before its end, as far as its clusters reach, succeeds: the bytes written
  replace those at the offset, the file grows when the write passes its end, and every byte of the
  partition outside the part of the file that was written keeps its value.
\<close>

theorem writeFile_replaces_range:
  assumes "file_ok dv cap psz s i cs" and "unat offset \<le> node_size s i"
    and "unat offset + unat count \<le> room (fsb s) cs" and "unat offset + unat count \<le> 2147483648"
    and "unat count \<le> length buf"
  shows "\<exists>s'. writeFile dv i buf count offset s = Some (count, s') \<and> file_ok dv cap psz s' i cs \<and>
    file_content dv cap psz s' i cs = take (unat offset) (file_content dv cap psz s i cs) @ take (unat count) buf @
      drop (unat offset + unat count) (file_content dv cap psz s i cs) \<and>
    (\<forall>a. a \<notin> file_pos (fsb s) cs ` {unat offset..<unat offset + unat count} \<longrightarrow>
      part_byte dv cap psz s' a = part_byte dv cap psz s a)"
  by (rule writeFile_ok [OF assms]) blast

lemma demo_room: "room (fsb demo_fat) [3] = 512" "node_size demo_fat (Suc 0) = 5"
  by (simp_all add: room_def spc_def node_size_def demo_node)

lemma writeFile_replaces_range_witness:
  "\<exists>s'. writeFile memory_device 1 [7, 8] 2 4 demo_fat = Some (2, s') \<and>
     file_content memory_device 128 100 s' 1 [3] = [0, 0, 0, 0, 7, 8]"
  using writeFile_replaces_range [OF demo_file_ok, of 4 2 "[7, 8]" ] by (auto simp: demo_content demo_room)





section \<open>Files that grow\<close>

text \<open>The same volume with an empty file, whose directory entry is the first of the root directory.\<close>

definition demo_new :: "(nat \<Rightarrow> byte) fat_state" where
  "demo_new = demo_fat\<lparr>node_heap := [Some zero_node,
     Some (zero_node\<lparr>fn_dirent := zero_dirent\<lparr>fd_first_cluster_lo := 0xFFFF\<rparr>, fn_dirent_sector := 3\<rparr>)]\<rparr>"

lemma demo_new_simps:
  "fsb demo_new = fsb demo_fat" "fat_table memory_device 128 100 demo_new = fat_table memory_device 128 100 demo_fat"
  "part_byte memory_device 128 100 demo_new = part_byte memory_device 128 100 demo_fat"
  "the_node (Suc 0) demo_new = Some (zero_node\<lparr>fn_dirent := zero_dirent\<lparr>fd_first_cluster_lo := 0xFFFF\<rparr>, fn_dirent_sector := 3\<rparr>)"
proof -
  show p: "part_byte memory_device 128 100 demo_new = part_byte memory_device 128 100 demo_fat"
    by (rule ext) (simp add: demo_new_def part_byte_def)
  show "fsb demo_new = fsb demo_fat" by (simp add: demo_new_def)
  then show "fat_table memory_device 128 100 demo_new = fat_table memory_device 128 100 demo_fat"
    by (intro ext) (simp add: fat_table_def p, simp add: demo_new_def)
  show "the_node (Suc 0) demo_new = Some (zero_node\<lparr>fn_dirent := zero_dirent\<lparr>fd_first_cluster_lo := 0xFFFF\<rparr>, fn_dirent_sector := 3\<rparr>)"
    by (simp add: demo_new_def the_node_def)
qed

lemma demo_new_growable: "growable memory_device 128 100 demo_new 1 []"
proof -
  have f: "GetFirstCluster (zero_dirent\<lparr>fd_first_cluster_lo := 0xFFFF\<rparr>) (fsb demo_fat) = CLUSTER_EOC"
    by (simp add: GetFirstCluster_def Let_def fat_mark_def)
  have v: "vol_ok memory_device 128 100 demo_new"
    using demo_vol_ok by (simp add: vol_ok_def fat_ok_def part_ok_def demo_new_def)
  have dg: "data_geom 100 (fsb demo_fat)" using demo_file_ok by (simp add: file_ok_def file_at_def)
  have fa: "file_at memory_device 128 100 demo_new 1 []"
    by (simp add: file_at_def v dg demo_new_simps f allocated_def zero_node_def)
  have "in_data 100 (fsb demo_fat) c \<and> fat_value TYPE_FAT16 c \<and> allocated c" if "2 \<le> c" "c < 16" for c
  proof -
    have "2 \<le> unat c" "unat c < 16" using that by (simp_all add: word_le_nat_alt word_less_nat_alt)
    moreover from this have "1 \<le> unat c" by simp
    ultimately show ?thesis
      by (simp add: in_data_def demo_has_entry spc_def cluster_start_def fat_value_def allocated_def word_le_nat_alt)
  qed
  then have co: "clusters_ok 100 (fsb demo_fat)" by (simp add: clusters_ok_def)
  have "dirent_ok 100 (fsb demo_fat) (zero_node\<lparr>fn_dirent := zero_dirent\<lparr>fd_first_cluster_lo := 0xFFFF\<rparr>, fn_dirent_sector := 3\<rparr>)"
    by (simp add: dirent_ok_def dirent_pos_def pos_of_def zero_node_def zero_dirent_def fat_end_def fat_start_def fat_sectors_def)
  with fa co f demo_search_ok show ?thesis
    by (simp add: growable_def demo_new_simps search_ok_def) (simp add: zero_node_def)
qed

lemma demo_new_file: "file_ok memory_device 128 100 demo_new 1 []" "node_size demo_new 1 = 0"
  using growable_file [OF demo_new_growable]
  by (simp_all add: file_ok_def node_size_def demo_new_simps zero_node_def zero_dirent_def)

lemma demo_new_free: "free_clusters memory_device 128 100 demo_new = {2..<16}"
  by (auto simp: free_clusters_def demo_new_simps demo_table)

lemma demo_new_reach: "512 \<le> reach memory_device 128 100 demo_new []"
proof -
  have "2 \<in> free_clusters memory_device 128 100 demo_new" by (simp add: demo_new_free)
  then have "0 < card (free_clusters memory_device 128 100 demo_new)" by (auto simp: card_gt_0_iff)
  then show ?thesis by (simp add: reach_def demo_new_simps spc_def)
qed






section \<open>The table and its clusters\<close>

text \<open>C29.
  On FAT12 (little-endian) and FAT16 an entry written is the entry read back, no other entry changes,
  not even the FAT12 neighbour in the same byte, and no byte of the partition outside the copies of
  the table.
\<close>

theorem fat_entry_written:
  assumes "fat_ok dv cap psz s" and "has_entry (fsb s) cl" and "sb_fat_type (fsb s) \<noteq> TYPE_FAT32"
    and "sb_fat_type (fsb s) = TYPE_FAT12 \<longrightarrow> \<not> fat_be s" and "fat_value (sb_fat_type (fsb s)) v"
  shows "\<exists>s' s''. WriteFATEntry dv cl v s = Some (0, s') \<and> ReadFATEntry dv cl s' = Some (Some v, s'') \<and>
    (\<forall>cl'. has_entry (fsb s) cl' \<longrightarrow> cl' \<noteq> cl \<longrightarrow> fat_table dv cap psz s' cl' = fat_table dv cap psz s cl') \<and>
    (\<forall>a. a < fat_start (fsb s) 0 \<or> fat_end (fsb s) \<le> a \<longrightarrow> part_byte dv cap psz s' a = part_byte dv cap psz s a)"
proof -
  obtain s' where w: "WriteFATEntry dv cl v s = Some (0, s')" "fat_ok dv cap psz s'" "part_rest s' = part_rest s"
    "\<And>cl'. has_entry (fsb s) cl' \<Longrightarrow> fat_table dv cap psz s' cl' = (if cl' = cl then v else fat_table dv cap psz s cl')"
    "\<And>a. a < fat_start (fsb s) 0 \<or> fat_end (fsb s) \<le> a \<Longrightarrow> part_byte dv cap psz s' a = part_byte dv cap psz s a"
    using WriteFATEntry_ok [OF assms] by metis
  have "has_entry (fsb s') cl" using assms(2) by (simp add: part_rest_fields [OF w(3)])
  from ReadFATEntry_ok [OF w(2) this] obtain s'' where "ReadFATEntry dv cl s' = Some (Some (fat_table dv cap psz s' cl), s'')" .
  with w(1,4,5) assms(2) show ?thesis by auto
qed

lemma fat_entry_written_witness:
  "\<exists>s' s''. WriteFATEntry memory_device 7 CLUSTER_EOC demo_fat = Some (0, s') \<and>
     ReadFATEntry memory_device 7 s' = Some (Some CLUSTER_EOC, s'')"
  using fat_entry_written [of memory_device 128 100 demo_fat 7 CLUSTER_EOC] demo_vol_ok
  by (auto simp: vol_ok_def demo_has_entry fat_value_def)

text \<open>The calls of \<open>FindFreeCluster\<close> one after the other, until one fails.\<close>

primrec find_clusters :: "'d block_device \<Rightarrow> nat \<Rightarrow> 'd fat_state \<Rightarrow> (u32 list \<times> 'd fat_state) option" where
  "find_clusters dv 0 s = Some ([], s)"
| "find_clusters dv (Suc n) s = do {
     (r, s) \<leftarrow> FindFreeCluster dv s;
     (case r of
        None \<Rightarrow> Some ([], s)
      | Some c \<Rightarrow> do { (cs, s) \<leftarrow> find_clusters dv n s; Some (c # cs, s) })
   }"

lemma find_clusters_many:
  "vol_ok dv cap psz s \<Longrightarrow> search_ok dv cap psz s \<Longrightarrow>
   \<exists>cs s'. find_clusters dv n s = Some (cs, s') \<and> fat_clusters.alloc_many dv n s = (map unat cs, s')"
proof (induction n arbitrary: s)
  case (Suc n)
  from FindFreeCluster_ok [OF Suc.prems(1) table_is_table Suc.prems(2)] obtain r s1 where
    f: "FindFreeCluster dv s = Some (r, s1)" "vol_ok dv cap psz s1" "search_ok dv cap psz s1" by blast
  from Suc.IH [OF f(2,3)] obtain cs s2 where
    "find_clusters dv n s1 = Some (cs, s2)" "fat_clusters.alloc_many dv n s1 = (map unat cs, s2)" by blast
  moreover have "cluster_alloc dv s = (map_option unat r, s1)" using f(1) by (simp add: cluster_alloc_def)
  ultimately show ?case using f(1) by (cases r) simp_all
qed simp

lemma free_clusters_set:
  assumes "vol_ok dv cap psz s"
  shows "fat_clusters.free_slots dv cap psz s =
    unat ` {c. 2 \<le> c \<and> c < cluster_cnt (fsb s) \<and> fat_table dv cap psz s c = CLUSTER_FREE}"
proof (intro set_eqI iffI)
  fix i assume "i \<in> fat_clusters.free_slots dv cap psz s"
  then have i: "i < cluster_limit s" "2 \<le> i" "fat_table dv cap psz s (word_of_nat i) = CLUSTER_FREE"
    by (auto simp: fat_clusters.free_slots_def cluster_used_def)
  note w = cluster_word(1) [OF i(1) assms]
  then show "i \<in> unat ` {c. 2 \<le> c \<and> c < cluster_cnt (fsb s) \<and> fat_table dv cap psz s c = CLUSTER_FREE}"
    using i by (intro image_eqI [of _ _ "word_of_nat i"]) (simp_all add: word_le_nat_alt word_less_nat_alt cluster_limit_def)
next
  fix i assume "i \<in> unat ` {c. 2 \<le> c \<and> c < cluster_cnt (fsb s) \<and> fat_table dv cap psz s c = CLUSTER_FREE}"
  then show "i \<in> fat_clusters.free_slots dv cap psz s"
    by (auto simp: fat_clusters.free_slots_def cluster_used_def cluster_limit_def word_le_nat_alt word_less_nat_alt)
qed


text \<open>C30.
  While a FAT12 or FAT16 volume has free clusters \<open>FindFreeCluster\<close> finds one, wherever its search
  starts: \<open>n\<close> calls return pairwise distinct clusters that were free, as many as asked for or as
  there are free clusters below \<open>cluster_cnt\<close>.
\<close>

theorem find_clusters_distinct:
  assumes "vol_ok dv cap psz s" and "search_ok dv cap psz s"
  shows "\<exists>cs s'. find_clusters dv n s = Some (cs, s') \<and> distinct cs \<and>
    (\<forall>c\<in>set cs. 2 \<le> c \<and> c < cluster_cnt (fsb s) \<and> fat_table dv cap psz s c = CLUSTER_FREE) \<and>
    length cs = min n (card {c. 2 \<le> c \<and> c < cluster_cnt (fsb s) \<and> fat_table dv cap psz s c = CLUSTER_FREE})"
proof -
  let ?free = "{c. 2 \<le> c \<and> c < cluster_cnt (fsb s) \<and> fat_table dv cap psz s c = CLUSTER_FREE}"
  from find_clusters_many [OF assms] obtain cs s' where
    f: "find_clusters dv n s = Some (cs, s')" "fat_clusters.alloc_many dv n s = (map unat cs, s')" by blast
  note m = fat_clusters.alloc_many_distinct [OF conjI [OF assms] f(2), unfolded free_clusters_set [OF assms(1)]]
  have inj: "inj_on unat A" for A :: "u32 set" by (simp add: inj_on_def word_unat_eq_iff)
  have "distinct cs" using m by (simp add: distinct_map)
  moreover have "set cs \<subseteq> ?free"
    using m inj_image_subset_iff [OF inj [of UNIV], of "set cs" ?free] by simp
  moreover have "length cs = min n (card ?free)" using m by (simp add: card_image [OF inj])
  ultimately show ?thesis using f(1) by blast
qed

lemma find_clusters_distinct_witness:
  "\<exists>cs s'. find_clusters memory_device 14 demo_fat = Some (cs, s') \<and> distinct cs"
  using find_clusters_distinct [OF demo_vol_ok demo_search_ok] by blast


text \<open>A volume with the chain 3, 4.\<close>

definition demo_chain :: "(nat \<Rightarrow> byte) fat_state" where
  "demo_chain = (case WriteFATEntry memory_device 3 4 demo_fat of Some (rc, s) \<Rightarrow> s | None \<Rightarrow> demo_fat)"

lemma demo_chain_ok:
  "vol_ok memory_device 128 100 demo_chain"
  "chain (fat_table memory_device 128 100 demo_chain) 3 [3, 4]"
  "has_entry (fsb demo_chain) cl \<longleftrightarrow> unat cl < 256"
proof -
  have v: "fat_value (sb_fat_type (fsb demo_fat)) 4" by (simp add: fat_value_def)
  have h: "has_entry (fsb demo_fat) 3" by (simp add: demo_has_entry)
  from vol_write [OF demo_vol_ok h table_is_table v] obtain s' where
    w: "WriteFATEntry memory_device 3 4 demo_fat = Some (0, s')" "vol_ok memory_device 128 100 s'"
      "table_is memory_device 128 100 s' ((fat_table memory_device 128 100 demo_fat)(3 := 4))"
      "part_rest s' = part_rest demo_fat" by metis
  have e: "demo_chain = s'" by (simp add: demo_chain_def w(1))
  note f = part_rest_fields [OF w(4)]
  show "vol_ok memory_device 128 100 demo_chain" using w(2) by (simp add: e)
  show "has_entry (fsb demo_chain) cl \<longleftrightarrow> unat cl < 256" by (simp add: e f demo_has_entry)
  have "fat_table memory_device 128 100 s' 3 = 4" "fat_table memory_device 128 100 s' 4 = CLUSTER_FREE"
    using w(3) by (simp_all add: table_is_def f demo_has_entry demo_table)
  then show "chain (fat_table memory_device 128 100 demo_chain) 3 [3, 4]" by (simp add: e allocated_def)
qed




section \<open>FAT32\<close>

text \<open>The bytes \<open>WriteFATEntry\<close> touches on FAT32: four from byte \<open>cl\<close>, not \<open>4 * cl\<close>, of each copy.\<close>

lemma write_fat32_copy:
  assumes "fat_ok dv cap psz s" and "sb_fat_type (fsb s) = TYPE_FAT32" and "has_entry (fsb s) cl"
    and "f < unat (fat_cnt (bpb (fsb s)))"
  obtains s' where "write_fat_copy dv cl v f s = Some (True, s')" "fat_ok dv cap psz s'" "part_rest s' = part_rest s"
    "\<And>a. a < fat_start (fsb s) f + unat cl \<or> fat_start (fsb s) f + unat cl + 4 \<le> a \<Longrightarrow>
       part_byte dv cap psz s' a = part_byte dv cap psz s a"
proof -
  define sector where "sector = ucast (reserved_sectors_cnt (bpb (fsb s))) + cl div 512 +
    word_of_nat f * sectors_per_fat32 (bpb32 (fsb s))"
  define base where "base = unat (reserved_sectors_cnt (bpb (fsb s))) + f * unat (sectors_per_fat32 (bpb32 (fsb s)))"
  from assms(1) have po: "part_ok dv cap psz s" and g: "fat_end (fsb s) \<le> psz * 512" "psz \<le> 4294967296"
    by (simp_all add: fat_ok_def fat_geom_def)
  have st: "fat_start (fsb s) f = base * 512"
    by (simp add: fat_start_def fat_sectors_def assms(2) base_def)
  have fit: "base * 512 + (unat cl * 4 + 4) \<le> psz * 512"
    using copy_end [OF assms(4)] g(1) assms(3) st by (simp add: has_entry_def assms(2) fat_off_def fat_width_def)
  then have "base + unat cl div 512 < 4294967296" using g(2) by linarith
  then have "unat sector = base + unat cl div 512"
    unfolding sector_def base_def by (subst word_of_nat_offset) simp_all
  moreover have um: "unat (cl mod 512) = unat cl mod 512" by (simp add: unat_mod)
  ultimately have p: "pos_of sector (cl mod 512) = base * 512 + unat cl"
    using um by (simp add: pos_of_def)
  have "cl mod 512 < 512" using um by (simp add: word_less_nat_alt)
  from writeSector_ok [OF po this, of sector 4 "Some (enc32 (fat_be s) (fat_unmark TYPE_FAT32 v))"] fit p obtain s' where
    w: "writeSector dv (Some (enc32 (fat_be s) (fat_unmark TYPE_FAT32 v))) sector (cl mod 512) 4 s = Some (0, s')"
      "part_ok dv cap psz s'" "part_rest s' = part_rest s"
      "part_byte dv cap psz s' = wr_bytes (base * 512 + unat cl) (enc32 (fat_be s) (fat_unmark TYPE_FAT32 v))
         (part_byte dv cap psz s)" by auto
  note r = part_rest_fields [OF w(3)]
  have a: "write_fat_copy dv cl v f s = Some (True, s')"
    using w(1) by (simp add: write_fat_copy_def Let_def assms(2) sector_def)
  have b: "fat_ok dv cap psz s'" using w(2) assms(1) by (simp add: fat_ok_def r)
  have c: "part_byte dv cap psz s' a = part_byte dv cap psz s a"
    if "a < fat_start (fsb s) f + unat cl \<or> fat_start (fsb s) f + unat cl + 4 \<le> a" for a
    unfolding w(4) using that st by (intro wr_bytes_other) simp
  show ?thesis by (rule that [OF a b w(3) c])
qed

lemma write_fat32_loop:
  "fat_ok dv cap psz s \<Longrightarrow> sb_fat_type (fsb s) = TYPE_FAT32 \<Longrightarrow> has_entry (fsb s) cl \<Longrightarrow>
   f + n \<le> unat (fat_cnt (bpb (fsb s))) \<Longrightarrow>
   \<exists>s'. write_fat_loop dv cl v f n k s = Some (k + n, s') \<and> fat_ok dv cap psz s' \<and> part_rest s' = part_rest s \<and>
     (\<forall>a. (\<forall>g \<ge> f. a < fat_start (fsb s) g + unat cl \<or> fat_start (fsb s) g + unat cl + 4 \<le> a) \<longrightarrow>
        part_byte dv cap psz s' a = part_byte dv cap psz s a)"
proof (induction n arbitrary: f k s)
  case (Suc n)
  then have "f < unat (fat_cnt (bpb (fsb s)))" by simp
  from write_fat32_copy [OF Suc.prems(1-3) this, of v] obtain s1 where
    c: "write_fat_copy dv cl v f s = Some (True, s1)" "fat_ok dv cap psz s1" "part_rest s1 = part_rest s"
      "\<And>a. a < fat_start (fsb s) f + unat cl \<or> fat_start (fsb s) f + unat cl + 4 \<le> a \<Longrightarrow>
         part_byte dv cap psz s1 a = part_byte dv cap psz s a" by metis
  note r = part_rest_fields [OF c(3)]
  from Suc.IH [OF c(2), of "Suc f" "Suc k"] Suc.prems(2-4) obtain s2 where
    w: "write_fat_loop dv cl v (Suc f) n (Suc k) s1 = Some (Suc k + n, s2)" "fat_ok dv cap psz s2" "part_rest s2 = part_rest s"
      "\<forall>a. (\<forall>g \<ge> Suc f. a < fat_start (fsb s) g + unat cl \<or> fat_start (fsb s) g + unat cl + 4 \<le> a) \<longrightarrow>
         part_byte dv cap psz s2 a = part_byte dv cap psz s1 a" by (auto simp: r c(3))
  have "part_byte dv cap psz s2 a = part_byte dv cap psz s a"
    if "\<forall>g \<ge> f. a < fat_start (fsb s) g + unat cl \<or> fat_start (fsb s) g + unat cl + 4 \<le> a" for a
    using w(4) c(4) [of a] that by simp
  with c(1) w(1-3) show ?case by auto
qed simp


text \<open>The same volume with a FAT32 table.\<close>

definition demo_fat32 :: "(nat \<Rightarrow> byte) fat_state" where
  "demo_fat32 = demo_fat\<lparr>fsb := (fsb demo_fat)\<lparr>sb_fat_type := TYPE_FAT32,
     bpb32 := (bpb32 zero_fatsb)\<lparr>sectors_per_fat32 := 1\<rparr>\<rparr>\<rparr>"

lemma demo_fat32_ok: "fat_ok memory_device 128 100 demo_fat32"
  by (simp add: fat_ok_def part_ok_def demo_fat32_def demo_cache memory_cache_ok fat_geom_def fat_end_def
      fat_start_def fat_sectors_def)


end
