(* ===== verification/Replies.thy ===== *)
theory Replies
  imports Devfs Ifs ExtAlloc ExtOps FatMain FatVolume
begin

text \<open>
  The protocol with the kernel, which all servers share: a request is answered by exactly one
  \<open>ReplyMsg\<close>, and the data of a request is sent before its reply.
\<close>

section \<open>Answers\<close>

fun answered :: "ipc_out list \<Rightarrow> bool" where
  "answered [] \<longleftrightarrow> False"
| "answered (ReplyMsg st b # ms) \<longleftrightarrow> ms = []"
| "answered (WriteBytes bs n # ms) \<longleftrightarrow> answered ms"
| "answered (WriteDirents ds n # ms) \<longleftrightarrow> answered ms"

fun is_reply :: "ipc_out \<Rightarrow> bool" where
  "is_reply (ReplyMsg st b) \<longleftrightarrow> True"
| "is_reply _ \<longleftrightarrow> False"

lemma answered_append: "\<forall>m\<in>set ms. \<not> is_reply m \<Longrightarrow> answered (ms @ [ReplyMsg st b])"
proof (induction ms)
  case (Cons m ms)
  then show ?case by (cases m) auto
qed simp

text \<open>A property of every defined result.\<close>

definition holds :: "('a \<Rightarrow> bool) \<Rightarrow> 'a option \<Rightarrow> bool" where
  "holds P m \<longleftrightarrow> (\<forall>x. m = Some x \<longrightarrow> P x)"

named_theorems holds_rules \<open>a property of every defined result, by the shape of the code\<close>

lemma holds_None [holds_rules]: "holds P None"
  by (simp add: holds_def)

lemma holds_Some [holds_rules]: "P x \<Longrightarrow> holds P (Some x)"
  by (simp add: holds_def)

lemma holds_bind [holds_rules]: "(\<And>x. holds P (f x)) \<Longrightarrow> holds P (m \<bind> f)"
  by (cases m) (simp_all add: holds_def)

lemma holds_bind_some: "holds Q m \<Longrightarrow> (\<And>x. Q x \<Longrightarrow> holds P (f x)) \<Longrightarrow> holds P (m \<bind> f)"
  by (cases m) (simp_all add: holds_def)

lemma holds_if [holds_rules]: "(c \<Longrightarrow> holds P x) \<Longrightarrow> (\<not> c \<Longrightarrow> holds P y) \<Longrightarrow> holds P (if c then x else y)"
  by simp

lemma holds_Let [holds_rules]: "holds P (f e) \<Longrightarrow> holds P (Let e f)"
  by simp

lemma holds_prod [holds_rules]: "(\<And>a b. holds P (f a b)) \<Longrightarrow> holds P (case x of (a, b) \<Rightarrow> f a b)"
  by (cases x) simp

lemma holds_prod_app [holds_rules]:
  "(\<And>a b. holds P (f a b y)) \<Longrightarrow> holds P ((case x of (a, b) \<Rightarrow> f a b) y)"
  by (cases x) simp

lemma holds_option [holds_rules]:
  "holds P m \<Longrightarrow> (\<And>a. holds P (f a)) \<Longrightarrow> holds P (case x of None \<Rightarrow> m | Some a \<Rightarrow> f a)"
  by (cases x) simp_all

lemma holds_sum [holds_rules]:
  "(\<And>a. holds P (f a)) \<Longrightarrow> (\<And>a. holds P (g a)) \<Longrightarrow> holds P (case x of Inl a \<Rightarrow> f a | Inr a \<Rightarrow> g a)"
  by (cases x) simp_all

text \<open>One handler after the other.\<close>

abbreviation (input) answers :: "(ipc_out list \<times> 's) option \<Rightarrow> bool" where
  "answers \<equiv> holds (\<lambda>(out, s). answered out)"

section \<open>fatfs\<close>

lemma fat_handlers:
  "answers (fatLookup dv w d n p s)" "answers (fatClose s)" "answers (fatRead dv w i off sz s)"
  "answers (fatWrite dv i off sz p s)" "answers (fatReadDir dv w i off s)" "answers (fatMkNod s)"
  "answers (fatRename s)" "answers (fatMkDir dv w d n p s)" "answers (fatUnlink dv w d n p s)"
  "answers (fatRmDir dv w d n p s)" "answers (fatTruncate dv i sz s)"
  unfolding fatLookup_def fatClose_def fatRead_def fatWrite_def fatReadDir_def fatMkNod_def fatRename_def
    fatMkDir_def fatUnlink_def fatRmDir_def fatTruncate_def
  by (intro holds_rules; simp)+



definition demo_world :: fat_world where
  "demo_world = \<lparr>fw_writemsg = int, fw_malloc = Some False, fw_stack = \<lambda>_. 0, fw_dirent = zero_dirent,
     fw_dot = zero_dirent, fw_dotdot = zero_dirent, fw_nbytes_read = 0, fw_name_offset = 24,
     fw_signed_char = True\<rparr>"



section \<open>extfs\<close>

lemma ext_nonexistent_no_reply:
  "\<forall>m\<in>set out. \<not> is_reply m \<Longrightarrow> \<forall>m\<in>set (snd (read_nonexistent_block wm off n out)). \<not> is_reply m"
  by (induction wm off n out rule: read_nonexistent_block.induct)
    (subst read_nonexistent_block.simps, auto simp: Let_def)

lemma ext_chunk_no_reply:
  assumes "read_chunk bc wm i p off n mo s = Some (sc, out, s')"
  shows "\<forall>m\<in>set out. \<not> is_reply m"
proof -
  have none: "\<forall>m\<in>set (snd (read_nonexistent_block wm a k [])). \<not> is_reply m" for a k
    using ext_nonexistent_no_reply [of "[]" wm a k] by simp
  have "holds (\<lambda>(sc, out, s). \<forall>m\<in>set out. \<not> is_reply m) (read_chunk bc wm i p off n mo s)"
    unfolding read_chunk_def
  proof (rule holds_bind, rule holds_prod, rule holds_if)
    fix block s'' show "holds (\<lambda>(sc, out, s). \<forall>m\<in>set out. \<not> is_reply m)
      (case read_nonexistent_block wm (unat mo) (unat n) [] of (sc, out) \<Rightarrow> Some (sc, out, s''))"
      using none [of "unat mo" "unat n"]
      by (cases "read_nonexistent_block wm (unat mo) (unat n) []") (simp add: holds_def)
  qed (rule holds_prod, auto intro!: holds_rules split: bool.split)
  with assms show ?thesis by (auto simp: holds_def)
qed

lemma ext_read_loop_no_reply:
  assumes "read_file_loop bc wm i fsz n x p out s = Some y"
  shows "(\<forall>m\<in>set out. \<not> is_reply m) \<longrightarrow> (\<forall>m\<in>set (fst (snd (snd y))). \<not> is_reply m)"
  using assms
proof (rule read_file_loop.raw_induct [rotated])
  fix f bc wm i fsz n x p out s y
  assume IH: "\<And>bc wm i fsz n x p out s y. f bc wm i fsz n x p out s = Some y \<Longrightarrow>
      (\<forall>m\<in>set out. \<not> is_reply m) \<longrightarrow> (\<forall>m\<in>set (fst (snd (snd y))). \<not> is_reply m)"
    and body: "(if x < n
      then if sb_block_size s = 0 then None
           else let off = offset_in_block p (block_size s); chunk = ucast (sb_block_size s) - off;
                    chunk = (if n < chunk then n else chunk)
                in if fsz \<le> p then Some (0, x, out, s)
                   else let bytes_left = fsz - p;
                            chunk = (if bytes_left < uint chunk then word_of_int bytes_left else chunk)
                        in read_chunk bc wm i p off chunk x s \<bind>
                           (\<lambda>(res, o1, s). if res \<noteq> 0 then Some (res, x, out @ o1, s)
                              else f bc wm i fsz n (x + chunk) (p + uint chunk) (out @ o1) s)
      else Some (0, x, out, s)) = Some y"
  show "(\<forall>m\<in>set out. \<not> is_reply m) \<longrightarrow> (\<forall>m\<in>set (fst (snd (snd y))). \<not> is_reply m)"
  proof
    assume out: "\<forall>m\<in>set out. \<not> is_reply m"
    from body consider "fst (snd (snd y)) = out"
      | off k res o1 s1 where "read_chunk bc wm i p off k x s = Some (res, o1, s1)" "fst (snd (snd y)) = out @ o1"
      | off k o1 s1 n' p' where "read_chunk bc wm i p off k x s = Some (0, o1, s1)"
          "f bc wm i fsz n n' p' (out @ o1) s1 = Some y"
      by (auto simp: Let_def Option.bind_eq_Some_conv split: if_splits)
    then show "\<forall>m\<in>set (fst (snd (snd y))). \<not> is_reply m"
    proof cases
      case 2
      with ext_chunk_no_reply [OF 2(1)] out show ?thesis by auto
    next
      case 3
      from ext_chunk_no_reply [OF 3(1)] out have "\<forall>m\<in>set (out @ o1). \<not> is_reply m" by auto
      with IH [OF 3(2)] show ?thesis by blast
    qed (use out in simp)
  qed
qed

lemma ext2_read_answers: "answers (ext2_read bc wm ino off n s)"
proof -
  have "holds (\<lambda>(k, out, s). \<forall>m\<in>set out. \<not> is_reply m) (read_file bc wm ino n p s)" for p
    unfolding read_file_def holds_def
    by (auto simp: Let_def Option.bind_eq_Some_conv dest!: ext_read_loop_no_reply split: option.splits if_splits)
  then show ?thesis unfolding ext2_read_def
    by (rule holds_bind_some) (auto intro!: holds_rules answered_append)
qed

lemma ext_handlers:
  "answers (ext2_write bc rm now rnd ino off n s)" "answers (ext2_lookup bc now stk d nsz p s)"
  "answers (ext2_close s)" "answers (ext2_create bc now rnd lm stk d nsz p m u g s)"
  "answers (ext2_readdir bc now dno d off64 n s)" "answers (ext2_unlink bc now stk d nsz p s)"
  "answers (ext2_rmdir bc now stk d nsz p s)" "answers (ext2_mkdir bc now rnd lm stk d nsz p m u g s)"
  "answers (ext2_mknod bc now rnd lm stk d nsz p m u g s)" "answers (ext2_truncate s)"
  "answers (ext2_rename bc now rnd stk stk' d nsz p d' nsz' p' s)"
  "answers (ext2_chmod bc now ino m s)" "answers (ext2_chown bc now ino u g s)"
  unfolding ext2_write_def ext2_lookup_def ext2_close_def ext2_create_def ext2_readdir_def ext2_unlink_def
    ext2_rmdir_def ext2_mkdir_def ext2_mknod_def ext2_truncate_def ext2_rename_def ext2_chmod_def ext2_chown_def
  by (intro holds_rules; simp)+


definition demo_mounted :: "memory_cache ext_state" where
  "demo_mounted = demo_ext\<lparr>hash_inodes := replicate 128 []\<rparr>"


end
