(* ===== verification/Posix.thy ===== *)
theory Posix
  imports Ipc
begin

text \<open>
  What the start-up code and the main loops of the servers use of the C library and of the kernel:
  command-line options, numbers in text, the structure that describes a mount point, and the events
  and messages that drive a server.
\<close>

section \<open>Command-line options\<close>

text \<open>What \<open>getopt\<close> returns: an option with its argument, or the character \<open>?\<close> for an error.\<close>

datatype optval = Opt byte bytes | BadOpt

text \<open>
  The options of one argument, whose characters are \<open>cs\<close>; \<open>spec\<close> tells of each option letter
  whether it takes an argument, which is the rest of this argument or the next one.
\<close>

fun getopt_cluster :: "(byte \<rightharpoonup> bool) \<Rightarrow> bytes \<Rightarrow> bytes list \<Rightarrow> optval list \<times> bytes list" where
  "getopt_cluster spec [] rest = ([], rest)"
| "getopt_cluster spec (c # cs) rest =
     (case spec c of
        None \<Rightarrow> (let (os, rest) = getopt_cluster spec cs rest in (BadOpt # os, rest))
      | Some False \<Rightarrow> (let (os, rest) = getopt_cluster spec cs rest in (Opt c [] # os, rest))
      | Some True \<Rightarrow>
          if cs \<noteq> [] then ([Opt c cs], rest)
          else (case rest of [] \<Rightarrow> ([BadOpt], []) | a # rest \<Rightarrow> ([Opt c a], rest)))"

lemma getopt_cluster_length: "length (snd (getopt_cluster spec cs rest)) \<le> length rest"
  by (induction spec cs rest rule: getopt_cluster.induct)
    (auto split: option.splits bool.splits list.splits prod.splits)

text \<open>
  The loop over \<open>getopt\<close>: all options in order, and the arguments from \<open>optind\<close> on. It ends at the
  first argument that is not an option, and after \<open>--\<close>.
\<close>

function getopt :: "(byte \<rightharpoonup> bool) \<Rightarrow> bytes list \<Rightarrow> optval list \<times> bytes list" where
  "getopt spec [] = ([], [])"
| "getopt spec (a # rest) =
     (if length a < 2 \<or> a ! 0 \<noteq> 0x2D then ([], a # rest)
      else if a = [0x2D, 0x2D] then ([], rest)
      else let (os, rest') = getopt_cluster spec (tl a) rest; (os', rest'') = getopt spec rest'
           in (os @ os', rest''))"
  by pat_completeness auto
termination
proof (relation "measure (\<lambda>(spec, args). length args)", goal_cases)
  case (2 spec a rest x os rest')
  then show ?case using getopt_cluster_length [of spec "tl a" rest] by (cases "getopt_cluster spec (tl a) rest") simp
qed simp

text \<open>
  \<open>atoi\<close>: white space, a sign and digits; a number that does not fit an \<open>int\<close> has no result.
\<close>

definition is_digit :: "byte \<Rightarrow> bool" where
  "is_digit b \<longleftrightarrow> 0x30 \<le> b \<and> b \<le> 0x39"

definition is_space :: "byte \<Rightarrow> bool" where
  "is_space b \<longleftrightarrow> b = 0x20 \<or> 0x09 \<le> b \<and> b \<le> 0x0D"

definition digits_value :: "bytes \<Rightarrow> int" where
  "digits_value bs = foldl (\<lambda>n b. n * 10 + (uint b - 0x30)) 0 bs"

definition atoi :: "bytes \<Rightarrow> int option" where
  "atoi str =
     (let s = dropWhile is_space str;
          neg = (s \<noteq> [] \<and> s ! 0 = 0x2D);
          ds = takeWhile is_digit (if s \<noteq> [] \<and> (s ! 0 = 0x2D \<or> s ! 0 = 0x2B) then tl s else s);
          v = (if neg then - digits_value ds else digits_value ds)
      in if - (2 ^ 31) \<le> v \<and> v < 2 ^ 31 then Some v else None)"

text \<open>\<open>strtoul\<close> for a 32-bit \<open>unsigned long\<close>: the largest value when the number does not fit.\<close>

definition digit_of :: "byte \<Rightarrow> nat option" where
  "digit_of b =
     (if 0x30 \<le> b \<and> b \<le> 0x39 then Some (unat b - 0x30)
      else if 0x61 \<le> b \<and> b \<le> 0x66 then Some (unat b - 0x61 + 10)
      else if 0x41 \<le> b \<and> b \<le> 0x46 then Some (unat b - 0x41 + 10)
      else None)"

definition in_base :: "nat \<Rightarrow> byte \<Rightarrow> bool" where
  "in_base base b \<longleftrightarrow> (case digit_of b of None \<Rightarrow> False | Some d \<Rightarrow> d < base)"

text \<open>The prefix \<open>0x\<close> of a number in base 16 counts only before a digit.\<close>

definition skip_0x :: "nat \<Rightarrow> bytes \<Rightarrow> bytes" where
  "skip_0x base s =
     (if base = 16 \<and> 3 \<le> length s \<and> s ! 0 = 0x30 \<and> (s ! 1 = 0x78 \<or> s ! 1 = 0x58) \<and> in_base 16 (s ! 2)
      then drop 2 s else s)"

definition strtoul :: "nat \<Rightarrow> bytes \<Rightarrow> u32" where
  "strtoul base str =
     (let s = dropWhile is_space str;
          neg = (s \<noteq> [] \<and> s ! 0 = 0x2D);
          s = skip_0x base (if s \<noteq> [] \<and> (s ! 0 = 0x2D \<or> s ! 0 = 0x2B) then tl s else s);
          v = foldl (\<lambda>n b. n * base + the (digit_of b)) 0 (takeWhile (in_base base) s)
      in if 2 ^ 32 \<le> v then - 1 else if neg then - word_of_nat v else word_of_nat v)"


section \<open>Mounting\<close>

record mnt_stat =
  st_dev :: int
  st_ino :: int
  st_mode :: u32
  st_uid :: int
  st_gid :: int
  st_blksize :: int
  st_size :: int
  st_blocks :: int

text \<open>
  The kernel at start-up: the port \<open>createmsgport\<close> returns for a path and a mount point, and the
  result of \<open>kqueue\<close>.
\<close>

record kernel =
  createmsgport :: "bytes \<Rightarrow> mnt_stat \<Rightarrow> int"
  kqueue :: int


section \<open>Events and messages\<close>

text \<open>
  One return of \<open>kevent\<close>: messages are at the port, which \<open>getmsg\<close> delivers one after the other
  until it returns something other than the size of a request; another event; or SIGTERM arrived.
\<close>

datatype 'r wakeup = Msgport "'r list" int | OtherEvent | Sigterm

text \<open>The inner loop: the answers to each request.\<close>

fun serve :: "('r \<Rightarrow> 's \<Rightarrow> (ipc_out list \<times> 's) option) \<Rightarrow> 'r list \<Rightarrow> 's \<Rightarrow> (ipc_out list list \<times> 's) option" where
  "serve step [] s = Some ([], s)"
| "serve step (r # rs) s = do {
     (out, s) \<leftarrow> step r s;
     (outs, s) \<leftarrow> serve step rs s;
     Some (out # outs, s)
   }"

text \<open>
  The outer loop over a list of wakeups: the answers, the exit status (None while the server waits
  for more) and the state. \<open>stop\<close> is the loop's condition, \<open>term\<close> the signal handler and \<open>fail\<close> the
  exit status when \<open>getmsg\<close> fails.
\<close>

fun event_loop ::
    "('r \<Rightarrow> 's \<Rightarrow> (ipc_out list \<times> 's) option) \<Rightarrow> ('s \<Rightarrow> bool) \<Rightarrow> ('s \<Rightarrow> 's option) \<Rightarrow> int \<Rightarrow>
     'r wakeup list \<Rightarrow> 's \<Rightarrow> (ipc_out list list \<times> int option \<times> 's) option" where
  "event_loop step stop term fail [] s = Some ([], if stop s then Some 0 else None, s)"
| "event_loop step stop term fail (w # ws) s =
     (if stop s then Some ([], Some 0, s)
      else (case w of
         OtherEvent \<Rightarrow> event_loop step stop term fail ws s
       | Sigterm \<Rightarrow> do { s \<leftarrow> term s; event_loop step stop term fail ws s }
       | Msgport rs sc \<Rightarrow> do {
           (outs, s) \<leftarrow> serve step rs s;
           if sc \<noteq> 0 then Some (outs, Some fail, s)
           else do {
             (outs', ex, s) \<leftarrow> event_loop step stop term fail ws s;
             Some (outs @ outs', ex, s)
           }
         }))"

text \<open>The requests a run takes from the port.\<close>

fun delivered :: "'r wakeup list \<Rightarrow> 'r list" where
  "delivered [] = []"
| "delivered (Msgport rs sc # ws) = rs @ (if sc \<noteq> 0 then [] else delivered ws)"
| "delivered (OtherEvent # ws) = delivered ws"
| "delivered (Sigterm # ws) = delivered ws"

lemma serve_length: "serve step rs s = Some (outs, s') \<Longrightarrow> length outs = length rs"
  by (induction rs arbitrary: s outs) (auto simp: Option.bind_eq_Some_conv)

lemma serve_all:
  assumes "\<And>r s out s'. step r s = Some (out, s') \<Longrightarrow> P out"
  shows "serve step rs s = Some (outs, s') \<Longrightarrow> \<forall>out\<in>set outs. P out"
  by (induction rs arbitrary: s outs) (auto simp: Option.bind_eq_Some_conv dest: assms)

text \<open>A property of the answers to each request is one of every run.\<close>

lemma event_loop_all:
  assumes "\<And>r s out s'. step r s = Some (out, s') \<Longrightarrow> P out"
  shows "event_loop step stop term fail ws s = Some (outs, ex, s') \<Longrightarrow> \<forall>out\<in>set outs. P out"
proof (induction ws arbitrary: s outs)
  case (Cons w ws)
  have sv: "serve step rs t = Some (os, t') \<Longrightarrow> \<forall>out\<in>set os. P out" for rs t os t'
    by (rule serve_all) (rule assms)
  from Cons show ?case
    by (cases w) (auto simp: Option.bind_eq_Some_conv split: if_splits dest!: sv)
qed (simp split: if_splits)

text \<open>A run that is not stopped has one answer for each request delivered.\<close>

lemma event_loop_length:
  "event_loop step stop term fail ws s = Some (outs, ex, s') \<Longrightarrow> ex \<noteq> Some 0 \<Longrightarrow> fail \<noteq> 0 \<Longrightarrow>
   length outs = length (delivered ws)"
proof (induction ws arbitrary: s outs)
  case (Cons w ws)
  then show ?case
    by (cases w) (fastforce simp: Option.bind_eq_Some_conv split: if_splits dest!: serve_length)+
qed simp

text \<open>A server whose requests keep an invariant keeps it over every run of its loop.\<close>

locale kept_server =
  fixes step :: "'r \<Rightarrow> 's \<Rightarrow> (ipc_out list \<times> 's) option"
    and sigterm :: "'s \<Rightarrow> 's option"
    and inv :: "'s \<Rightarrow> bool"
  assumes step_keeps: "inv s \<Longrightarrow> step r s = Some (out, s') \<Longrightarrow> inv s'"
    and sigterm_keeps: "inv s \<Longrightarrow> sigterm s = Some s' \<Longrightarrow> inv s'"
begin

lemma serve_keeps: "inv s \<Longrightarrow> serve step rs s = Some (outs, s') \<Longrightarrow> inv s'"
  by (induction rs arbitrary: s outs) (auto simp: Option.bind_eq_Some_conv dest: step_keeps)

lemma run_keeps: "inv s \<Longrightarrow> event_loop step stop sigterm fail ws s = Some (outs, ex, s') \<Longrightarrow> inv s'"
proof (induction ws arbitrary: s outs)
  case (Cons w ws)
  then show ?case
    by (cases w) (fastforce simp: Option.bind_eq_Some_conv split: if_splits dest: serve_keeps sigterm_keeps)+
qed (simp split: if_splits)

end

end
