(* ===== verification/Servers.thy ===== *)
theory Servers
  imports Posix FatInit Replies
begin

text \<open>
  The servers as processes: their command line, what they mount, and their main loops. None is a
  process that exits or panics during start-up. \<open>argv\<close> is the whole vector, strings without their
  terminators.
\<close>

section \<open>devfs\<close>

record devfs_config =
  dc_pathname :: bytes
  dc_uid :: int
  dc_gid :: int
  dc_mode :: u32
  dc_dev :: int

definition devfs_optspec :: "byte \<rightharpoonup> bool" where
  "devfs_optspec = [0x75 \<mapsto> True, 0x67 \<mapsto> True, 0x6D \<mapsto> True, 0x64 \<mapsto> True]"

fun devfs_options :: "optval list \<Rightarrow> devfs_config \<Rightarrow> devfs_config option" where
  "devfs_options [] cf = Some cf"
| "devfs_options (BadOpt # os) cf = devfs_options os cf"
| "devfs_options (Opt c a # os) cf = do {
     n \<leftarrow> atoi a;
     devfs_options os
       (if c = 0x75 then cf\<lparr>dc_uid := n\<rparr> else if c = 0x67 then cf\<lparr>dc_gid := n\<rparr>
        else if c = 0x6D then cf\<lparr>dc_mode := word_of_int n\<rparr>
        else if c = 0x64 then cf\<lparr>dc_dev := n\<rparr> else cf)
   }"

text \<open>
  \<open>process_args\<close>. \<open>strncpy\<close> leaves a path of more than \<open>PATH_MAX\<close> characters unterminated, and
  \<open>strlen\<close> then reads on: no result. \<open>pm\<close> is \<open>PATH_MAX\<close>, which limits.h decides.
\<close>

definition devfs_process_args :: "nat \<Rightarrow> bytes list \<Rightarrow> (int \<times> devfs_config) option" where
  "devfs_process_args pm argv =
     (let cf = \<lparr>dc_pathname = [], dc_uid = 0, dc_gid = 0, dc_mode = 0x1FF, dc_dev = - 1\<rparr> in
      if length argv \<le> 1 then Some (- 1, cf)
      else let (os, rest) = getopt devfs_optspec (tl argv) in do {
        cf \<leftarrow> devfs_options os cf;
        (case rest of
           [] \<Rightarrow> Some (- 1, cf)
         | path # _ \<Rightarrow>
             if pm < length path then None
             else Some (if path = [] then - 1 else 0, cf\<lparr>dc_pathname := path\<rparr>))
      })"

definition mount_device :: "kernel \<Rightarrow> devfs_config \<Rightarrow> (int \<times> int) option" where
  "mount_device k cf =
     (let port = createmsgport k (dc_pathname cf)
            \<lparr>st_dev = dc_dev cf, st_ino = 0, st_mode = or S_IFDIR (and (dc_mode cf) 0x1FF),
             st_uid = dc_uid cf, st_gid = dc_gid cf, st_blksize = 512, st_size = 0, st_blocks = 0\<rparr>
      in if port = - 1 then None else if kqueue k = - 1 then None else Some (port, kqueue k))"

definition devfs_init :: "nat \<Rightarrow> kernel \<Rightarrow> bytes list \<Rightarrow> ((int \<times> int) \<times> devfs) option" where
  "devfs_init pm k argv = do {
     (rc, cf) \<leftarrow> devfs_process_args pm argv;
     if rc \<noteq> 0 then None
     else let (rc, s) = init_devfs devfs_zero in
       if rc \<noteq> 0 then None else do { ports \<leftarrow> mount_device k cf; Some (ports, s) }
   }"

definition devfs_main_loop ::
    "(nat \<Rightarrow> byte) \<Rightarrow> nat \<Rightarrow> devfs_req wakeup list \<Rightarrow> devfs \<Rightarrow> (ipc_out list list \<times> int option \<times> devfs) option" where
  "devfs_main_loop stk dno =
     event_loop (devfs_step stk dno) devfs_shutdown (\<lambda>s. Some (devfs_sigterm_handler s)) 1"

text \<open>\<open>main\<close>; \<open>sa\<close> is the result of \<open>sigaction\<close>.\<close>

definition devfs_main ::
    "nat \<Rightarrow> kernel \<Rightarrow> int \<Rightarrow> (nat \<Rightarrow> byte) \<Rightarrow> nat \<Rightarrow> bytes list \<Rightarrow> devfs_req wakeup list \<Rightarrow>
     (ipc_out list list \<times> int option \<times> devfs) option" where
  "devfs_main pm k sa stk dno argv ws = do {
     (ports, s) \<leftarrow> devfs_init pm k argv;
     if sa \<noteq> 0 then None else devfs_main_loop stk dno ws s
   }"


section \<open>ifs\<close>

text \<open>The mapping of the image is an argument: what \<open>mmap\<close> gives for an address and a size.\<close>

definition ifs_root_stat :: mnt_stat where
  "ifs_root_stat = \<lparr>st_dev = 0, st_ino = 0, st_mode = or 0x1FF S_IFDIR, st_uid = 0, st_gid = 0,
     st_blksize = 512, st_size = 0, st_blocks = 0\<rparr>"

definition ifs_init :: "(u32 \<Rightarrow> u32 \<Rightarrow> bytes option) \<Rightarrow> kernel \<Rightarrow> bytes list \<Rightarrow> bytes option" where
  "ifs_init mmap k argv =
     (if length argv < 3 then None
      else init_ifs (int (length argv)) (mmap (strtoul 16 (argv ! 1)) (strtoul 10 (argv ! 2)))
             (createmsgport k [0x2F] ifs_root_stat) (kqueue k))"

text \<open>The roles after \<open>fork\<close>: the parent becomes the init process, the child serves the image.\<close>

datatype ifs_role = ExecInit | ServeImage | ForkFailed

definition ifs_fork :: "int \<Rightarrow> ifs_role" where
  "ifs_fork rc = (if 0 < rc then ExecInit else if rc = 0 then ServeImage else ForkFailed)"

text \<open>The state of the loop is \<open>shutdown\<close>; the image is only read.\<close>

definition ifs_message_loop ::
    "(nat \<Rightarrow> byte) \<Rightarrow> (nat \<Rightarrow> int) \<Rightarrow> nat \<Rightarrow> bytes \<Rightarrow> ifs_req wakeup list \<Rightarrow>
     (ipc_out list list \<times> int option \<times> bool) option" where
  "ifs_message_loop stk wm dno img ws =
     event_loop (\<lambda>r stop. do { out \<leftarrow> ifs_step stk wm dno r img; Some (out, stop) })
       (\<lambda>stop. stop) (\<lambda>_. Some True) (- 1) ws False"

text \<open>\<open>main\<close>, as the process that serves the image; the loop returns 0 from \<open>main\<close>.\<close>

definition ifs_main ::
    "(u32 \<Rightarrow> u32 \<Rightarrow> bytes option) \<Rightarrow> kernel \<Rightarrow> int \<Rightarrow> int \<Rightarrow> (nat \<Rightarrow> byte) \<Rightarrow> (nat \<Rightarrow> int) \<Rightarrow> nat \<Rightarrow> bytes list \<Rightarrow>
     ifs_req wakeup list \<Rightarrow> (ipc_out list list \<times> int option \<times> bool) option" where
  "ifs_main mmap k rc sa stk wm dno argv ws = do {
     img \<leftarrow> ifs_init mmap k argv;
     (case ifs_fork rc of
        ServeImage \<Rightarrow> if sa \<noteq> 0 then None else ifs_message_loop stk wm dno img ws
      | _ \<Rightarrow> None)
   }"


section \<open>extfs\<close>

record ext_config =
  ec_uid :: int
  ec_gid :: int
  ec_mode :: u32
  ec_read_only :: bool
  ec_mount_path :: bytes
  ec_device_path :: bytes

definition ext_optspec :: "byte \<rightharpoonup> bool" where
  "ext_optspec = [0x75 \<mapsto> True, 0x67 \<mapsto> True, 0x6D \<mapsto> True, 0x72 \<mapsto> False]"

fun ext_options :: "optval list \<Rightarrow> ext_config \<Rightarrow> ext_config option" where
  "ext_options [] cf = Some cf"
| "ext_options (BadOpt # os) cf = ext_options os cf"
| "ext_options (Opt c a # os) cf =
     (if c = 0x72 then ext_options os (cf\<lparr>ec_read_only := True\<rparr>)
      else do {
        n \<leftarrow> atoi a;
        ext_options os
          (if c = 0x75 then cf\<lparr>ec_uid := n\<rparr> else if c = 0x67 then cf\<lparr>ec_gid := n\<rparr>
           else if c = 0x6D then cf\<lparr>ec_mode := word_of_int n\<rparr> else cf)
      })"

definition ext_process_args :: "bytes list \<Rightarrow> (int \<times> ext_config) option" where
  "ext_process_args argv =
     (let cf = \<lparr>ec_uid = 0, ec_gid = 0, ec_mode = 0x1C0, ec_read_only = False,
                ec_mount_path = [], ec_device_path = []\<rparr> in
      if length argv \<le> 1 then Some (- 1, cf)
      else let (os, rest) = getopt ext_optspec (tl argv) in do {
        cf \<leftarrow> ext_options os cf;
        (case rest of
           mnt # dev # _ \<Rightarrow> Some (0, cf\<lparr>ec_mount_path := mnt, ec_device_path := dev\<rparr>)
         | _ \<Rightarrow> Some (- 1, cf))
      })"

text \<open>
  \<open>init\<close> around \<open>ext_init\<close>: \<open>open_dev\<close> opens the device, \<open>fstat_dev\<close> is \<open>blk_stat.st_dev\<close> (not set
  when \<open>fstat\<close> fails).
\<close>

definition ext_start ::
    "kernel \<Rightarrow> (bytes \<Rightarrow> (64 word \<Rightarrow> nat \<Rightarrow> bytes) option) \<Rightarrow> int \<Rightarrow> bool \<Rightarrow>
     (nat \<Rightarrow> nat \<Rightarrow> nat \<Rightarrow> 'c option) \<Rightarrow> bytes list \<Rightarrow> 'c ext_state \<Rightarrow> ((int \<times> int) \<times> 'c ext_state) option" where
  "ext_start k open_dev fstat_dev be mk argv s = do {
     (rc, cf) \<leftarrow> ext_process_args argv;
     if rc \<noteq> 0 then None
     else do {
       rd \<leftarrow> open_dev (ec_device_path cf);
       s \<leftarrow> ext_init be rd mk s;
       let port = createmsgport k (ec_mount_path cf)
             \<lparr>st_dev = fstat_dev, st_ino = uint EXT2_ROOT_INO, st_mode = or S_IFDIR (and (ec_mode cf) 0x1FF),
              st_uid = ec_uid cf, st_gid = ec_gid cf, st_blksize = 512, st_size = sint (0xFFFFFF00 :: u32),
              st_blocks = uint (s_blocks_count (superblock s))\<rparr>;
       if port = - 1 then None else if kqueue k = - 1 then None else Some ((port, kqueue k), s)
     }
   }"

definition ext_main_loop ::
    "'c block_cache \<Rightarrow> ext_world \<Rightarrow> ext_req wakeup list \<Rightarrow> 'c ext_state \<Rightarrow>
     (ipc_out list list \<times> int option \<times> 'c ext_state) option" where
  "ext_main_loop bc w = event_loop (ext_step bc w) ext_shutdown (\<lambda>s. Some (ext_sigterm_handler s)) (- 1)"


section \<open>fatfs\<close>

record fat_config =
  fc_mount_path :: bytes
  fc_device_path :: bytes
  fc_uid :: int
  fc_gid :: int
  fc_mode :: u32
  fc_fat_format :: bool

definition fat_optspec :: "byte \<rightharpoonup> bool" where
  "fat_optspec = [0x75 \<mapsto> True, 0x67 \<mapsto> True, 0x6D \<mapsto> True, 0x66 \<mapsto> False]"

fun fat_options :: "optval list \<Rightarrow> fat_config \<Rightarrow> fat_config option" where
  "fat_options [] cf = Some cf"
| "fat_options (BadOpt # os) cf = fat_options os cf"
| "fat_options (Opt c a # os) cf =
     (if c = 0x66 then fat_options os (cf\<lparr>fc_fat_format := True\<rparr>)
      else do {
        n \<leftarrow> atoi a;
        fat_options os
          (if c = 0x75 then cf\<lparr>fc_uid := n\<rparr> else if c = 0x67 then cf\<lparr>fc_gid := n\<rparr>
           else if c = 0x6D then cf\<lparr>fc_mode := word_of_int n\<rparr> else cf)
      })"

text \<open>\<open>processArgs\<close>, which exits where the others return -1.\<close>

definition processArgs :: "nat \<Rightarrow> bytes list \<Rightarrow> fat_config option" where
  "processArgs pm argv =
     (let cf = \<lparr>fc_mount_path = [], fc_device_path = [], fc_uid = 0, fc_gid = 0, fc_mode = 0,
                fc_fat_format = False\<rparr> in
      if length argv \<le> 1 then None
      else let (os, rest) = getopt fat_optspec (tl argv) in do {
        cf \<leftarrow> fat_options os cf;
        (case rest of
           mnt # dev # _ \<Rightarrow>
             if pm < length mnt \<or> pm < length dev then None
             else Some (cf\<lparr>fc_mount_path := mnt, fc_device_path := dev\<rparr>)
         | _ \<Rightarrow> None)
      })"

text \<open>
  \<open>init\<close> around \<open>fat_init\<close>: \<open>open_dev\<close> opens the device, \<open>sz\<close> and \<open>blks\<close> are the fields of the
  mount point that are never set.
\<close>

definition fat_startup ::
    "nat \<Rightarrow> kernel \<Rightarrow> (bytes \<Rightarrow> ('d block_device \<times> 'd) option) \<Rightarrow> bool \<Rightarrow> bool \<Rightarrow> bytes option \<Rightarrow>
     FatDirEntry \<Rightarrow> int \<Rightarrow> int \<Rightarrow> bytes list \<Rightarrow> ((int \<times> int) \<times> 'd block_device \<times> 'd fat_state) option" where
  "fat_startup pm k open_dev be sc mem d0 sz blks argv = do {
     cf \<leftarrow> processArgs pm argv;
     (dv, d) \<leftarrow> open_dev (fc_device_path cf);
     s \<leftarrow> fat_init dv be sc mem d0 (fc_uid cf) (fc_gid cf) (fc_fat_format cf) d;
     let port = createmsgport k (fc_mount_path cf)
           \<lparr>st_dev = 0, st_ino = 0, st_mode = or 0x1FF S_IFDIR, st_uid = 0, st_gid = 0,
            st_blksize = 512, st_size = sz, st_blocks = blks\<rparr>;
     if port < 0 then None else if kqueue k < 0 then None else Some ((port, kqueue k), dv, s)
   }"

text \<open>The loop never ends by itself, and SIGTERM, for which there is no handler, kills the process.\<close>

definition fat_main_loop ::
    "'d block_device \<Rightarrow> fat_world \<Rightarrow> fat_req wakeup list \<Rightarrow> 'd fat_state \<Rightarrow>
     (ipc_out list list \<times> int option \<times> 'd fat_state) option" where
  "fat_main_loop dv w = event_loop (fat_step dv w) (\<lambda>_. False) (\<lambda>_. None) (- 1)"



section \<open>Serving\<close>

text \<open>
  The contract of a server: in states that satisfy its invariant it answers every good request, and
  it keeps the invariant. A run of its main loop over any sequence of events then comes to its end,
  with one answer for each request.
\<close>

locale server =
  fixes step :: "'r \<Rightarrow> 's \<Rightarrow> (ipc_out list \<times> 's) option"
    and stop :: "'s \<Rightarrow> bool"
    and sigterm :: "'s \<Rightarrow> 's option"
    and fail :: int
    and inv :: "'s \<Rightarrow> bool"
    and good :: "'r \<Rightarrow> bool"
  assumes step_serves: "inv s \<Longrightarrow> good r \<Longrightarrow> \<exists>out s'. step r s = Some (out, s') \<and> answered out \<and> inv s'"
    and sigterm_inv: "inv s \<Longrightarrow> \<exists>s'. sigterm s = Some s' \<and> inv s'"
    and fail_nonzero: "fail \<noteq> 0"
begin

lemma serve_good:
  "inv s \<Longrightarrow> \<forall>r\<in>set rs. good r \<Longrightarrow>
   \<exists>outs s'. serve step rs s = Some (outs, s') \<and> (\<forall>out\<in>set outs. answered out) \<and> length outs = length rs \<and> inv s'"
proof (induction rs arbitrary: s)
  case (Cons r rs)
  from step_serves [of s r] Cons.prems obtain out s1 where
    o: "step r s = Some (out, s1)" "answered out" "inv s1" by auto
  from Cons.IH [OF o(3)] Cons.prems(2) obtain outs s2 where
    "serve step rs s1 = Some (outs, s2)" "\<forall>out\<in>set outs. answered out" "length outs = length rs" "inv s2" by auto
  with o show ?case by auto
qed simp

theorem run_serves:
  "inv s \<Longrightarrow> \<forall>r\<in>set (delivered ws). good r \<Longrightarrow>
   \<exists>outs ex s'. event_loop step stop sigterm fail ws s = Some (outs, ex, s') \<and> inv s' \<and>
     (\<forall>out\<in>set outs. answered out) \<and> (ex \<noteq> Some 0 \<longrightarrow> length outs = length (delivered ws))"
proof (induction ws arbitrary: s)
  case Nil
  then show ?case by simp
next
  case (Cons w ws)
  show ?case
  proof (cases "stop s")
    case True
    with Cons.prems(1) show ?thesis by simp
  next
    case False
    show ?thesis
    proof (cases w)
      case (Msgport rs sc)
      from serve_good [OF Cons.prems(1), of rs] Cons.prems(2) Msgport obtain outs s1 where
        v: "serve step rs s = Some (outs, s1)" "\<forall>out\<in>set outs. answered out" "length outs = length rs" "inv s1"
        by auto
      show ?thesis
      proof (cases "sc = 0")
        case True
        with Cons.IH [OF v(4)] Cons.prems(2) Msgport obtain outs' ex s2 where
          "event_loop step stop sigterm fail ws s1 = Some (outs', ex, s2)" "inv s2"
          "\<forall>out\<in>set outs'. answered out" "ex \<noteq> Some 0 \<longrightarrow> length outs' = length (delivered ws)" by auto
        with v True False Msgport show ?thesis by auto
      qed (use v False Msgport fail_nonzero in auto)
    next
      case OtherEvent
      with Cons False show ?thesis by simp
    next
      case Sigterm
      from sigterm_inv [OF Cons.prems(1)] obtain s1 where "sigterm s = Some s1" "inv s1" by blast
      with Cons.IH [of s1] Cons.prems(2) Sigterm False show ?thesis by simp
    qed
  qed
qed

end

text \<open>
  devfs: a directory is read from a position at or after its start, and a new node has a name that
  is terminated and fits.
\<close>

fun devfs_good :: "devfs_req \<Rightarrow> bool" where
  "devfs_good (DevReaddir off sz) \<longleftrightarrow> 0 \<le> off"
| "devfs_good (DevMknod d n p m u g) \<longleftrightarrow> n \<le> 256 \<and> 0 \<in> set (take n p) \<and> length (cstr p) < DEVFS_NAME_LEN"
| "devfs_good _ \<longleftrightarrow> True"

lemma devfs_lookup_answers:
  assumes "devfs_ok s"
  shows "\<exists>out. devfsLookup stk d n p s = Some (out, s) \<and> answered out"
proof (cases "DEVFS_NAME_LEN < n")
  case False
  then obtain buf where b: "readmsg_into (map stk [0..<DEVFS_NAME_LEN + 1]) n p = Some buf" "length buf = DEVFS_NAME_LEN + 1"
    by (auto simp: readmsg_into_def)
  then have "terminated (buf[n := 0])" using False by (intro terminated_upd) simp
  from devfs_find_table [OF assms this] show ?thesis
    using b False by (auto simp: devfsLookup_def split: option.splits)
qed (simp add: devfsLookup_def)

lemma devfs_readdir_answers:
  assumes "devfs_ok s" and "0 \<le> off"
  shows "\<exists>out. devfsReaddir dno off sz s = Some (out, s) \<and> answered out"
proof -
  define c where "c = nat (if off = 0 then 1 else off)"
  have c: "(if off = 0 then 1 else off) = int c" using assms(2) by (simp add: c_def)
  show ?thesis
    unfolding devfsReaddir_def Let_def c devfs_readdir_loop_fill [OF assms(1)]
    by (simp split: prod.split)
qed

lemma devfs_mknod_answers:
  assumes ok: "devfs_ok s" and n: "n \<le> 256" "0 \<in> set (take n p)" and len: "length (cstr p) < DEVFS_NAME_LEN"
  shows "\<exists>out s'. devfsMknod stk d n p m u g s = Some (out, s') \<and> answered out"
proof -
  obtain nb where nb: "readmsg_into (map stk [0..<256]) n p = Some nb" "nb = splice 0 (take n p) (map stk [0..<256])"
    using n(1) by (simp add: readmsg_into_def)
  have t: "terminated nb" using n(2) by (simp add: nb(2) terminated_def splice_def)
  have "cstr (take n p @ zs) = cstr (take n p)" for zs
    unfolding cstr_def by (rule takeWhile_append1 [OF n(2)]) simp
  from this [of "drop (length (take n p)) (map stk [0..<256])"] this [of "drop n p"]
  have "cstr nb = cstr p" by (simp add: nb(2) splice_def del: length_take)
  then have fits: "length (cstr nb) < DEVFS_NAME_LEN" using len by simp
  note f = devfs_find_table [OF ok t]
  show ?thesis
  proof (cases "devfs_slot_of s (cstr nb)")
    case (Some i)
    with nb(1) f show ?thesis by (simp add: devfsMknod_def)
  next
    case None
    show ?thesis
    proof (cases "devfs_free_slot 1 (drop (Suc 0) (devfs_inode_table s))")
      case none: None
      with nb(1) f None show ?thesis by (simp add: devfsMknod_def)
    next
      case (Some k)
      with devfs_free_slot_table(1) [OF ok] have "k < DEVFS_MAX_INODE" by blast
      then have "c_strcpy (dn_name (devfs_inode_table s ! k)) nb \<noteq> None"
        using t fits devfs_okD(3) [OF ok] by (simp add: c_strcpy_def)
      with nb(1) f None Some show ?thesis by (auto simp: devfsMknod_def Let_def)
    qed
  qed
qed

interpretation devfs_server: server "devfs_step stk dno" devfs_shutdown "\<lambda>s. Some (devfs_sigterm_handler s)" 1
    devfs_ok devfs_good
  for stk :: "nat \<Rightarrow> byte" and dno :: nat
proof unfold_locales
  fix s r assume ok: "devfs_ok s" and good: "devfs_good r"
  have "\<exists>out s'. devfs_step stk dno r s = Some (out, s') \<and> answered out"
  proof (cases r)
    case (DevLookup d n p)
    with devfs_lookup_answers [OF ok, of stk d n p] show ?thesis by auto
  next
    case (DevReaddir off sz)
    with devfs_readdir_answers [OF ok, of off dno sz] good show ?thesis by auto
  next
    case (DevMknod d n p m u g)
    with devfs_mknod_answers [OF ok, of n p stk d m u g] good show ?thesis by auto
  qed (simp_all add: devfsClose_def devfsUnlink_def)
  with devfs_step_ok [OF ok] show "\<exists>out s'. devfs_step stk dno r s = Some (out, s') \<and> answered out \<and> devfs_ok s'"
    by blast
qed (auto simp: devfs_sigterm_handler_def devfs_ok_def devfs_name_def)


text \<open>
  ifs, over a well-formed image: names are looked up and files read in nodes of the table, and a
  read starts inside its file.
\<close>

fun ifs_good :: "bytes \<Rightarrow> ifs_req \<Rightarrow> bool" where
  "ifs_good img (IfsLookup d n p) \<longleftrightarrow> 0 \<le> d \<and> d < int (ifs_cnt img) \<and> n \<le> 256"
| "ifs_good img (IfsRead i off n) \<longleftrightarrow> 0 \<le> i \<and> i < int (ifs_cnt img) \<and> 0 \<le> sint off \<and>
     sint off \<le> int (unat (file_size (ifs_nd img (nat i)))) \<and> unat (file_size (ifs_nd img (nat i))) < 2147483648"
| "ifs_good img _ \<longleftrightarrow> True"

lemma ifs_lookup_answers:
  assumes ok: "ifs_image_ok img" and d: "0 \<le> d" "d < int (ifs_cnt img)" and n: "n \<le> 256"
  shows "\<exists>out. ifs_lookup stk d n p img = Some out \<and> answered out"
proof -
  obtain buf where b: "readmsg_into (map stk [0..<256]) n p = Some buf" "length buf = 256"
    using n by (simp add: readmsg_into_def)
  then have t: "terminated (buf[255 := 0])" by (intro terminated_upd) simp
  from ifs_image_okD(1) [OF ok] obtain h where h: "ifs_header img = Some h" "node_cnt h = int (ifs_cnt img)" by blast
  have "nat d < ifs_cnt img" using d by simp
  from ifs_find_spec [OF ok this t, of 0] d(1) b(1) h show ?thesis
    by (auto simp: ifs_lookup_def split: option.split)
qed

lemma ifs_read_answers:
  assumes ok: "ifs_image_ok img" and i: "0 \<le> i" "i < int (ifs_cnt img)" and off: "0 \<le> sint off"
    "sint off \<le> int (unat (file_size (ifs_nd img (nat i))))" and sz: "unat (file_size (ifs_nd img (nat i))) < 2147483648"
  shows "\<exists>out. ifs_read wm i off n img = Some out \<and> answered out"
proof -
  let ?nd = "ifs_nd img (nat i)"
  have k: "nat i < ifs_cnt img" and "int (nat i) = i" using i by simp_all
  then have node: "ifs_node img i = Some ?nd" using ifs_image_okD(2) [OF ok, of "nat i"] by simp
  define k where "k = nat (sint off)"
  have so: "sint off = int k" using off(1) by (simp add: k_def)
  have kl: "k \<le> unat (file_size ?nd)" using off(2) unfolding so of_nat_le_iff .
  have "(word_of_int (sint off) :: 64 word) = off" by simp
  then have "off = word_of_nat k" by (simp only: so of_int_of_nat_eq)
  then have "unat (ucast off :: u32) = k" using kl sz ucast_offset [of k] by simp
  then have r: "unat (file_size ?nd - ucast off) = unat (file_size ?nd) - k"
    using kl by (simp add: unat_sub word_le_nat_alt)
  have "unat (file_offset ?nd) + unat (file_size ?nd) \<le> length img" by (rule ifs_image_okD(6) [OF ok k])
  then have "ifs_read wm i off n img = Some (if min (unat n) (unat (file_size ?nd) - k) = 0 then [ReplyMsg 0 NoBody]
      else [WriteBytes (slice (unat (file_offset ?nd) + k) (min (unat n) (unat (file_size ?nd) - k)) img) 0,
            ReplyMsg (wm (min (unat n) (unat (file_size ?nd) - k))) NoBody])"
    using sz kl by (intro ifs_read_at [OF node r so refl]) auto
  then show ?thesis by simp
qed

lemma ifs_readdir_answers:
  assumes ok: "ifs_image_ok img"
  shows "\<exists>out. ifs_readdir dno d off sz img = Some out \<and> answered out"
proof -
  from ifs_image_okD(1) [OF ok] obtain h where h: "ifs_header img = Some h" "node_cnt h = int (ifs_cnt img)" by blast
  show ?thesis
  proof (cases "off < 0")
    case True
    with h show ?thesis by (simp add: ifs_readdir_def ifs_readdir_loop.simps)
  next
    case False
    then obtain c where "off = int c" by (metis nonneg_int_cases not_less)
    with h ifs_readdir_loop_fill [OF ok] show ?thesis
      by (simp add: ifs_readdir_def split: prod.split)
  qed
qed

interpretation ifs_server: server "\<lambda>r stop. do { out \<leftarrow> ifs_step stk wm dno r img; Some (out, stop) }"
    "\<lambda>stop. stop" "\<lambda>_. Some True" "- 1" "\<lambda>_. ifs_image_ok img" "ifs_good img"
  for stk :: "nat \<Rightarrow> byte" and wm :: "nat \<Rightarrow> int" and dno :: nat and img :: bytes
proof unfold_locales
  fix stop r assume ok: "ifs_image_ok img" and good: "ifs_good img r"
  have "\<exists>out. ifs_step stk wm dno r img = Some out \<and> answered out"
  proof (cases r)
    case (IfsLookup d n p)
    with ifs_lookup_answers [OF ok, of d n stk p] good show ?thesis by simp
  next
    case (IfsRead i off n)
    with ifs_read_answers [OF ok, of i off wm n] good show ?thesis by simp
  next
    case (IfsReaddir d off sz)
    with ifs_readdir_answers [OF ok, of dno d off sz] show ?thesis by simp
  qed (simp_all add: ifs_close_def ifs_write_def)
  with ok show "\<exists>out s'. do { out \<leftarrow> ifs_step stk wm dno r img; Some (out, stop) } = Some (out, s') \<and>
    answered out \<and> ifs_image_ok img" by auto
qed auto

text \<open>C1.
  devfs serves every sequence of events: whatever requests with proper names come in, in whatever
  order, interrupted by other events and SIGTERM, the main loop never gets stuck or crashes, each
  request served has exactly one reply, and unless the server was shut down every request that was
  delivered is served; the table stays well formed.
\<close>

theorem devfs_serves:
  assumes "\<forall>r\<in>set (delivered ws). devfs_good r"
  shows "\<exists>outs ex s'. devfs_main_loop stk dno ws (snd (init_devfs devfs_zero)) = Some (outs, ex, s') \<and> devfs_ok s' \<and>
    (\<forall>out\<in>set outs. answered out) \<and> (ex \<noteq> Some 0 \<longrightarrow> length outs = length (delivered ws))"
  using devfs_server.run_serves [OF devfs_ok_init assms] unfolding devfs_main_loop_def .

lemma devfs_serves_witness:
  "\<exists>outs ex s'. devfs_main_loop (\<lambda>_. 0) 19
      [OtherEvent, Msgport [DevMknod 0 2 [97, 0] 0x2000 0 0, DevLookup 0 1 [97]] 0, Sigterm, Msgport [DevUnlink] 0]
      (snd (init_devfs devfs_zero)) = Some (outs, ex, s') \<and> (\<forall>out\<in>set outs. answered out)"
  using devfs_serves [of "[OtherEvent, Msgport [DevMknod 0 2 [97, 0] 0x2000 0 0, DevLookup 0 1 [97]] 0, Sigterm,
    Msgport [DevUnlink] 0]" "\<lambda>_. 0" 19] by (fastforce simp: cstr_def)

text \<open>C2.
  ifs serves every sequence of events over a well-formed image in the same way.
\<close>

theorem ifs_serves:
  assumes "ifs_image_ok img" and "\<forall>r\<in>set (delivered ws). ifs_good img r"
  shows "\<exists>outs ex stop. ifs_message_loop stk wm dno img ws = Some (outs, ex, stop) \<and>
    (\<forall>out\<in>set outs. answered out) \<and> (ex \<noteq> Some 0 \<longrightarrow> length outs = length (delivered ws))"
  using ifs_server.run_serves [OF assms] unfolding ifs_message_loop_def by blast

lemma ifs_serves_witness:
  "\<exists>outs ex stop. ifs_message_loop (\<lambda>_. 0) int 19 (ifs_demo [])
      [Msgport [IfsLookup 0 2 [97, 0], IfsRead 1 1 5] 0, Msgport [IfsReaddir 0 0 512] (- 1)] = Some (outs, ex, stop) \<and>
    (\<forall>out\<in>set outs. answered out)"
proof -
  have "ifs_nd (ifs_demo []) (Suc 0) = \<lparr>ifs_name = drop 76 (ifs_demo []), inode_nr = 1, parent_inode_nr = 0,
          permissions = 0x81FF, ifs_uid = 0, ifs_gid = 0, file_offset = 136, file_size = 3\<rparr>"
    using ifs_demo_node1 [of "[]"] by (simp add: ifs_nd_def)
  then have "\<forall>r\<in>set (delivered [Msgport [IfsLookup 0 2 [97, 0], IfsRead 1 1 5] 0,
      Msgport [IfsReaddir 0 0 512] (- 1)]). ifs_good (ifs_demo []) r" by simp
  from ifs_serves [OF ifs_demo_ok this, of "\<lambda>_. 0" int 19] show ?thesis by blast
qed

end
