(* ===== verification/FatMount.thy ===== *)
theory FatMount
  imports FatVolume FatInit
begin

text \<open>
  Mounting: start-up finds the FAT16 partition of a device, and the volume it mounts is one of those
  that the theorems on files and clusters are about.
\<close>

section \<open>Reading the boot records\<close>

lemma p8_some: "bs \<noteq> [] \<Longrightarrow> p8 bs = Some (hd bs, tl bs)"
  by (cases bs) simp_all

lemma p16_some: "2 \<le> length bs \<Longrightarrow> p16 be bs = Some (dec16 be (bs ! 0) (bs ! 1), drop 2 bs)"
  by (simp add: p16_def ld16_def)

lemma p32_some: "4 \<le> length bs \<Longrightarrow> p32 be bs = Some (dec32 be (bs ! 0) (bs ! 1) (bs ! 2) (bs ! 3), drop 4 bs)"
  by (simp add: p32_def ld32_def numeral_2_eq_2)

lemma long_not_nil: "n \<le> length bs \<Longrightarrow> 0 < n \<Longrightarrow> bs \<noteq> []"
  by auto

lemma mbe_read_some: "16 \<le> length bs \<Longrightarrow> \<exists>e. mbe_read be bs = Some e"
  by (simp add: mbe_read_def p8_some p16_some p32_some pbytes_def long_not_nil flip: length_greater_0_conv) linarith

lemma bpb16_read_some: "26 \<le> length bs \<Longrightarrow> \<exists>e. bpb16_read be bs = Some e"
  by (simp add: bpb16_read_def p8_some p16_some p32_some pbytes_def long_not_nil flip: length_greater_0_conv) linarith

lemma bpb32_read_some: "102 \<le> length bs \<Longrightarrow> \<exists>e. bpb32_read be bs = Some e"
  by (simp add: bpb32_read_def p8_some p16_some p32_some pbytes_def long_not_nil flip: length_greater_0_conv) linarith

lemma bpb_roundtrip:
  "length (jump b) = 3 \<Longrightarrow> length (oem_name b) = 8 \<Longrightarrow> bpb_read be (bpb_bytes be b @ rest) = Some b"
  using p32_enc [of be "total_sectors_cnt32 b" rest]
  by (simp add: bpb_read_def bpb_bytes_def)


section \<open>A device that can be mounted\<close>

text \<open>The superblock from the boot record of a partition, on a device with the bytes \<open>f\<close>.\<close>

definition boot_fsb :: "bool \<Rightarrow> (nat \<Rightarrow> byte) \<Rightarrow> MBRPartitionEntry \<Rightarrow> FatSB option" where
  "boot_fsb be f e =
     (let boot = rd_bytes (unat (mbe_lba e) * 512) 512 f
      in do {
        b \<leftarrow> bpb_read be boot;
        b16 \<leftarrow> bpb16_read be (drop 36 boot);
        b32 \<leftarrow> bpb32_read be (drop 36 boot);
        precalculate (zero_fatsb\<lparr>partition_start := mbe_lba e, partition_size := mbe_nsectors e,
          bpb := b, bpb16 := b16, bpb32 := b32\<rparr>)
      })"

text \<open>
  The first partition is FAT16, lies on the device of \<open>cap\<close> sectors, its tables lie in it, and every
  cluster has an entry.
\<close>

definition mountable :: "bool \<Rightarrow> nat \<Rightarrow> (nat \<Rightarrow> byte) \<Rightarrow> MBRPartitionEntry \<Rightarrow> FatSB \<Rightarrow> bool" where
  "mountable be cap f e sb \<longleftrightarrow>
     mbe_read be (drop 446 (rd_bytes 0 512 f)) = Some e \<and> mbe_partition_type e \<noteq> 0 \<and>
     mbe_nsectors e \<noteq> 0 \<and> unat (mbe_lba e) + unat (mbe_nsectors e) \<le> cap \<and>
     boot_fsb be f e = Some sb \<and> bpb_valid sb \<and> sb_fat_type sb = TYPE_FAT16 \<and> root_entries_cnt (bpb sb) \<noteq> 0 \<and>
     fat_geom (unat (mbe_nsectors e)) sb \<and> (\<forall>cl. cl < cluster_cnt sb \<longrightarrow> has_entry sb cl)"

lemma blockRead_ok:
  assumes "cache_ok dv cap c" and "unat n < cap"
  obtains c' where "blockRead dv 512 n c = Some (512, rd_bytes (unat n * 512) 512 (disk_byte dv cap c), c')"
    "cache_ok dv cap c'" "disk_byte dv cap c' = disk_byte dv cap c"
proof -
  have "pos_of n 0 + unat (512 :: u32) \<le> cap * 512" using assms(2) by (simp add: pos_of_def)
  from BufReadBlocks_ok [OF assms(1) _ this] obtain c' where
    r: "BufReadBlocks dv n 0 512 c = Some (0, rd_bytes (unat n * 512) 512 (disk_byte dv cap c), c')"
    "cache_ok dv cap c'" "disk_byte dv cap c' = disk_byte dv cap c" by (auto simp: pos_of_def)
  have "blockRead dv 512 n c = Some (512, rd_bytes (unat n * 512) 512 (disk_byte dv cap c), c')"
    by (simp add: blockRead_def r(1))
  then show ?thesis using r(2,3) by (rule that)
qed

lemma precalculate_same:
  assumes "precalculate sb = Some sb'"
  shows "bpb sb' = bpb sb" "bpb32 sb' = bpb32 sb" "partition_start sb' = partition_start sb"
    "start_search_cluster sb' = start_search_cluster sb" "bpb_valid sb' = bpb_valid sb"
proof -
  from assms obtain r spf t fds ds cc ty where
    e: "sb\<lparr>root_dir_sectors := r, sectors_per_fat := spf, total_sectors_cnt := t, first_data_sector := fds,
      data_sectors := ds, cluster_cnt := cc, sb_fat_type := ty\<rparr> = sb'"
    unfolding precalculate_def Let_def by (simp only: option.inject option.distinct split: if_splits)
  show "bpb sb' = bpb sb" "bpb32 sb' = bpb32 sb" "partition_start sb' = partition_start sb"
    "start_search_cluster sb' = start_search_cluster sb" "bpb_valid sb' = bpb_valid sb"
    by (simp_all add: e [symmetric] bpb_valid_def)
qed

lemma detect_entry_ok:
  assumes m: "mountable be cap f e sb" and c: "cache_ok dv cap (block_cache s)"
    and f: "disk_byte dv cap (block_cache s) = f" and s: "fat_be s = be" "fsb s = zero_fatsb"
  obtains c' where "detect_entry dv e s = Some (True, InitRootNode (s\<lparr>block_cache := c', fsb := sb\<rparr>))"
    "cache_ok dv cap c'" "disk_byte dv cap c' = f"
proof -
  define t where "t = zero_fatsb\<lparr>partition_start := mbe_lba e, partition_size := mbe_nsectors e\<rparr>"
  from m have d: "mbe_partition_type e \<noteq> 0" "bpb_valid sb" "sb_fat_type sb = TYPE_FAT16" "root_entries_cnt (bpb sb) \<noteq> 0"
    and z: "mbe_nsectors e \<noteq> 0" "unat (mbe_lba e) + unat (mbe_nsectors e) \<le> cap" by (simp_all add: mountable_def)
  have "0 < unat (mbe_nsectors e)" using z(1) by (simp add: unat_gt_0)
  with z(2) have lt: "unat (mbe_lba e) < cap" by linarith
  from m obtain b b16 b32 where
    p: "bpb_read be (rd_bytes (unat (mbe_lba e) * 512) 512 f) = Some b"
      "bpb16_read be (drop 36 (rd_bytes (unat (mbe_lba e) * 512) 512 f)) = Some b16"
      "bpb32_read be (drop 36 (rd_bytes (unat (mbe_lba e) * 512) 512 f)) = Some b32"
      "precalculate (t\<lparr>bpb := b, bpb16 := b16, bpb32 := b32\<rparr>) = Some sb"
    by (auto simp: mountable_def boot_fsb_def Let_def t_def Option.bind_eq_Some_conv)
  from blockRead_ok [OF c lt] f obtain c' where
    r: "blockRead dv 512 (mbe_lba e) (block_cache s) = Some (512, rd_bytes (unat (mbe_lba e) * 512) 512 f, c')"
      "cache_ok dv cap c'" "disk_byte dv cap c' = f" by metis
  have v: "bpb_valid (t\<lparr>bpb := b, bpb16 := b16, bpb32 := b32\<rparr>)" using precalculate_same(5) [OF p(4)] d(2) by simp
  have "detect_entry dv e s = Some (True, InitRootNode (s\<lparr>block_cache := c', fsb := sb\<rparr>))"
    using d r(1) p v s by (simp add: detect_entry_def upd_fsb_def t_def Let_def)
  with r(2,3) that show ?thesis by blast
qed


lemma mounts_ok:
  assumes "device_contract dv cap" and "length mem = 32768" and "0 < cap"
    and "mountable be cap (device_byte dv cap d) e sb"
  shows "\<exists>s. fat_init dv be sc (Some mem) d0 uid gid False d = Some s \<and> fsb s = sb \<and>
    vol_ok dv cap (unat (mbe_nsectors e)) s \<and> node_list s = [ROOT_NODE] \<and>
    (\<forall>a < unat (mbe_nsectors e) * 512.
       part_byte dv cap (unat (mbe_nsectors e)) s a = device_byte dv cap d (unat (mbe_lba e) * 512 + a))"
proof -
  let ?f = "device_byte dv cap d"
  from CreateCache_ok [OF assms(1), of 64 mem 0 0 1 0 512 d] assms(2) obtain c where
    c: "CreateCache (Some mem) 64 512 0 0 1 0 512 d = Some c" "cache_ok dv cap c"
      "\<And>n. sector_bytes dv c n = dv_read dv d (n * 512)" by auto
  have f: "disk_byte dv cap c = ?f" using c(3) by (intro ext) (simp add: disk_byte_def device_byte_def)
  have z: "unat (0 :: u32) < cap" using assms(3) by simp
  obtain c1 where b: "blockRead dv 512 0 c = Some (512, rd_bytes 0 512 ?f, c1)" "cache_ok dv cap c1" "disk_byte dv cap c1 = ?f"
    by (rule blockRead_ok [OF c(2) z]) (simp add: f)
  define s0 where "s0 = (fat_globals be c1)\<lparr>fat_uid := uid, fat_gid := gid\<rparr>"
  obtain e1 e2 e3 where es: "mbe_read be (drop 462 (rd_bytes 0 512 ?f)) = Some e1"
    "mbe_read be (drop 478 (rd_bytes 0 512 ?f)) = Some e2" "mbe_read be (drop 494 (rd_bytes 0 512 ?f)) = Some e3"
    using mbe_read_some [of "drop 462 (rd_bytes 0 512 ?f)" be] mbe_read_some [of "drop 478 (rd_bytes 0 512 ?f)" be]
      mbe_read_some [of "drop 494 (rd_bytes 0 512 ?f)" be] by auto
  have e0: "mbe_read be (drop 446 (rd_bytes 0 512 ?f)) = Some e" using assms(4) by (simp add: mountable_def)
  have s0: "block_cache s0 = c1" "fat_be s0 = be" "fsb s0 = zero_fatsb" by (simp_all add: s0_def fat_globals_def)
  obtain c2 where d: "detect_entry dv e s0 = Some (True, InitRootNode (s0\<lparr>block_cache := c2, fsb := sb\<rparr>))"
    "cache_ok dv cap c2" "disk_byte dv cap c2 = ?f"
    by (rule detect_entry_ok [OF assms(4), where s = s0]) (use b(2,3) s0 in simp_all)
  define s where "s = InitRootNode (s0\<lparr>block_cache := c2, fsb := sb\<rparr>)"
  have "detectPartition dv ((fat_globals be c)\<lparr>fat_uid := uid, fat_gid := gid\<rparr>) = Some (0, s)"
    using b(1) e0 es d(1) by (simp add: detectPartition_def fat_globals_def s0_def s_def)
  then have i: "fat_init dv be sc (Some mem) d0 uid gid False d = Some s"
    using c(1) by (simp add: fat_init_def)
  have s: "fsb s = sb" "block_cache s = c2" "fat_be s = be" "node_list s = [ROOT_NODE]"
    by (simp_all add: s_def InitRootNode_def s0_def fat_globals_def)
  have ps: "partition_start sb = mbe_lba e"
    using assms(4) precalculate_same(3) by (fastforce simp: mountable_def boot_fsb_def Let_def Option.bind_eq_Some_conv)
  have "vol_ok dv cap (unat (mbe_nsectors e)) s"
    using assms(4) d(2) by (simp add: vol_ok_def fat_ok_def part_ok_def s ps mountable_def)
  moreover have "part_byte dv cap (unat (mbe_nsectors e)) s a = ?f (unat (mbe_lba e) * 512 + a)"
    if "a < unat (mbe_nsectors e) * 512" for a using that by (simp add: part_byte_def s ps d(3))
  ultimately show ?thesis using i s by blast
qed

text \<open>A device of 6000 sectors with a FAT16 partition of 5000 sectors at sector 1.\<close>

definition demo_bpb :: FatBPB where
  "demo_bpb = (bpb zero_fatsb)\<lparr>bytes_per_sector := 512, sectors_per_cluster := 1, reserved_sectors_cnt := 1,
     fat_cnt := 2, root_entries_cnt := 512, total_sectors_cnt16 := 5000, media_type := 0xF8, sectors_per_fat16 := 20\<rparr>"

definition demo_mbe :: MBRPartitionEntry where
  "demo_mbe = \<lparr>mbe_status = 0, mbe_chs = [0, 0, 0], mbe_partition_type = 6, mbe_chs_last = [0, 0, 0],
     mbe_lba = 1, mbe_nsectors = 5000\<rparr>"

definition demo_disk :: "nat \<Rightarrow> byte" where
  "demo_disk = wr_bytes 446 ([0, 0, 0, 0, 6, 0, 0, 0] @ enc32 False 1 @ enc32 False 5000)
     (wr_bytes 512 (bpb_bytes False demo_bpb) (\<lambda>_. 0))"

lemma memory_device_any: "cap \<le> 4294967296 \<Longrightarrow> device_contract memory_device cap"
  by (auto simp: device_contract_def memory_device_def intro: rd_wr_other)

lemma demo_disk_byte: "a < 3072000 \<Longrightarrow> device_byte memory_device 6000 demo_disk a = demo_disk a"
  by (simp add: device_byte_def memory_device_def)

lemma demo_disk_bytes: "a + n \<le> 3072000 \<Longrightarrow> rd_bytes a n (device_byte memory_device 6000 demo_disk) = rd_bytes a n demo_disk"
  by (intro rd_bytes_cong demo_disk_byte) simp

lemma drop_rd_bytes: "drop k (rd_bytes a n f) = rd_bytes (a + k) (n - k) f"
  by (cases "k \<le> n") (simp_all add: rd_bytes_def drop_map)

lemma length_demo_bpb: "length (bpb_bytes False demo_bpb) = 36"
  by (simp add: bpb_bytes_def demo_bpb_def zero_fatsb_def)

lemma demo_mountable: "\<exists>sb. mountable False 6000 (device_byte memory_device 6000 demo_disk) demo_mbe sb"
proof -
  let ?f = "device_byte memory_device 6000 demo_disk"
  let ?e = "[0, 0, 0, 0, 6, 0, 0, 0] @ enc32 False 1 @ enc32 False 5000"
  have "rd_bytes 446 16 demo_disk = ?e" unfolding demo_disk_def by (rule rd_wr_same) simp
  then have "rd_bytes 446 66 demo_disk = ?e @ rd_bytes 462 50 demo_disk"
    using rd_bytes_append [of 446 16 demo_disk 50] by simp
  then have m: "mbe_read False (drop 446 (rd_bytes 0 512 ?f)) = Some demo_mbe"
    using p32_enc [of False 5000 "rd_bytes 462 50 demo_disk"]
    by (simp add: demo_disk_bytes drop_rd_bytes mbe_read_def demo_mbe_def pbytes_def)
  have "rd_bytes 512 36 demo_disk = rd_bytes 512 36 (wr_bytes 512 (bpb_bytes False demo_bpb) (\<lambda>_. 0))"
    unfolding demo_disk_def by (rule rd_wr_other) simp
  also have "\<dots> = bpb_bytes False demo_bpb" by (rule rd_wr_same) (simp add: length_demo_bpb)
  finally have "rd_bytes 512 512 demo_disk = bpb_bytes False demo_bpb @ rd_bytes 548 476 demo_disk"
    using rd_bytes_append [of 512 36 demo_disk 476] by simp
  then have b: "bpb_read False (rd_bytes 512 512 ?f) = Some demo_bpb"
    using bpb_roundtrip [of demo_bpb False] by (simp add: demo_disk_bytes demo_bpb_def zero_fatsb_def)
  obtain b16 b32 where x: "bpb16_read False (drop 36 (rd_bytes 512 512 ?f)) = Some b16"
    "bpb32_read False (drop 36 (rd_bytes 512 512 ?f)) = Some b32"
    using bpb16_read_some [of "drop 36 (rd_bytes 512 512 ?f)" False] bpb32_read_some [of "drop 36 (rd_bytes 512 512 ?f)" False] by auto
  define sb0 where "sb0 = zero_fatsb\<lparr>partition_start := 1, partition_size := 5000, bpb := demo_bpb, bpb16 := b16, bpb32 := b32\<rparr>"
  define sb where "sb = sb0\<lparr>root_dir_sectors := 32, sectors_per_fat := 20, total_sectors_cnt := 5000,
    first_data_sector := 73, data_sectors := 4927, cluster_cnt := 4927, sb_fat_type := TYPE_FAT16\<rparr>"
  have "precalculate sb0 = Some sb"
    by (simp add: precalculate_def sb0_def sb_def demo_bpb_def ROOT_DIR_SECTORS_def SECTORS_PER_FAT_def TOTAL_SECTORS_def
        fat_type_of_def Let_def)
  then have "boot_fsb False ?f demo_mbe = Some sb"
    using b x by (simp add: boot_fsb_def demo_mbe_def sb0_def Let_def)
  moreover have "bpb_valid sb" "fat_geom 5000 sb"
    by (simp_all add: bpb_valid_def sb_def sb0_def demo_bpb_def fat_geom_def fat_end_def fat_start_def fat_sectors_def)
  moreover have "has_entry sb cl" if "cl < cluster_cnt sb" for cl
  proof -
    have "unat cl < 4927" using that by (simp add: sb_def word_less_nat_alt)
    then show ?thesis
      by (simp add: has_entry_def fat_off_def fat_width_def fat_sectors_def sb_def sb0_def demo_bpb_def)
  qed
  ultimately have "mountable False 6000 ?f demo_mbe sb"
    using m by (simp add: mountable_def) (simp add: demo_mbe_def sb_def sb0_def demo_bpb_def)
  then show ?thesis by blast
qed

lemma demo_started:
  "\<exists>s. fat_init memory_device False True (Some (replicate 32768 0)) zero_dirent 0 0 False demo_disk = Some s"
proof -
  obtain sb where m: "mountable False 6000 (device_byte memory_device 6000 demo_disk) demo_mbe sb" using demo_mountable by blast
  from mounts_ok [OF memory_device_any _ _ m, of "replicate 32768 0" True zero_dirent 0 0] show ?thesis by auto
qed


section \<open>Mounting\<close>



text \<open>C36.
  Start-up never mounts a FAT12 partition, whatever is on the device, though the code handles FAT12:
  when \<open>init\<close> comes to its end the volume is FAT16 or FAT32.
\<close>

theorem fat12_never_mounted:
  assumes "fat_init dv be sc mem d0 uid gid fmt d = Some s"
  shows "sb_fat_type (fsb s) \<noteq> TYPE_FAT12"
proof -
  have e: "detect_entry dv e t = Some (True, t') \<Longrightarrow> sb_fat_type (fsb t') \<noteq> TYPE_FAT12" for e t t'
    by (auto simp: detect_entry_def Let_def InitRootNode_def upd_node_def Option.bind_eq_Some_conv split: if_splits)
  have l: "detect_loop dv es t = Some (rc, t') \<Longrightarrow> rc = - 1 \<or> sb_fat_type (fsb t') \<noteq> TYPE_FAT12" for es t rc t'
    by (induction es arbitrary: t) (auto simp: Option.bind_eq_Some_conv split: if_splits dest: e)
  from assms obtain t rc where "detectPartition dv t = Some (rc, s)" "rc \<noteq> - 1"
    by (auto simp: fat_init_def Let_def Option.bind_eq_Some_conv split: if_splits)
  then obtain es t' where "detect_loop dv es t' = Some (rc, s)" "rc \<noteq> - 1"
    by (auto simp: detectPartition_def Let_def Option.bind_eq_Some_conv simp del: detect_loop.simps)
  with l show ?thesis by blast
qed

lemma fat12_never_mounted_witness:
  "\<exists>s. fat_init memory_device False True (Some (replicate 32768 0)) zero_dirent 0 0 False demo_disk = Some s \<and>
     sb_fat_type (fsb s) \<noteq> TYPE_FAT12"
proof -
  obtain s where i: "fat_init memory_device False True (Some (replicate 32768 0)) zero_dirent 0 0 False demo_disk = Some s"
    using demo_started by blast
  with fat12_never_mounted [OF i] show ?thesis by blast
qed

end
