(* ===== verification/Keeps.thy ===== *)
theory Keeps
  imports Prelude
begin

text \<open>
  Invariants of fallible code with state: \<open>keeps I st m\<close> says that a defined result of \<open>m\<close> carries, at
  \<open>st\<close>, a state with the invariant. The rules follow the shape of the code.
\<close>

definition keeps :: "('s \<Rightarrow> bool) \<Rightarrow> ('r \<Rightarrow> 's) \<Rightarrow> 'r option \<Rightarrow> bool" where
  "keeps I st m \<longleftrightarrow> (\<forall>x. m = Some x \<longrightarrow> I (st x))"

lemma keepsI: "(\<And>x. m = Some x \<Longrightarrow> I (st x)) \<Longrightarrow> keeps I st m"
  by (simp add: keeps_def)

lemma keepsD: "keeps I st m \<Longrightarrow> m = Some x \<Longrightarrow> I (st x)"
  by (simp add: keeps_def)

text \<open>A step that carries the state, and one that does not.\<close>

lemma keeps_bind: "keeps I st m \<Longrightarrow> (\<And>x. I (st x) \<Longrightarrow> keeps I st' (f x)) \<Longrightarrow> keeps I st' (m \<bind> f)"
  by (cases m) (simp_all add: keeps_def)

lemma keeps_skip: "(\<And>x. keeps I st (f x)) \<Longrightarrow> keeps I st (m \<bind> f)"
  by (cases m) (simp_all add: keeps_def)

lemma keeps_None: "keeps I st None"
  by (simp add: keeps_def)

lemma keeps_Some: "I (st y) \<Longrightarrow> keeps I st (Some y)"
  by (simp add: keeps_def)

lemma keeps_if: "(c \<Longrightarrow> keeps I st x) \<Longrightarrow> (\<not> c \<Longrightarrow> keeps I st y) \<Longrightarrow> keeps I st (if c then x else y)"
  by simp

lemma keeps_Let: "keeps I st (f e) \<Longrightarrow> keeps I st (Let e f)"
  by simp

lemma keeps_prod: "keeps I st (f (fst x) (snd x)) \<Longrightarrow> keeps I st (case x of (a, b) \<Rightarrow> f a b)"
  by (cases x) simp

lemma keeps_prod_app: "keeps I st (f (fst x) (snd x) y) \<Longrightarrow> keeps I st ((case x of (a, b) \<Rightarrow> f a b) y)"
  by (cases x) simp

lemma keeps_option: "keeps I st m \<Longrightarrow> (\<And>a. keeps I st (f a)) \<Longrightarrow> keeps I st (case x of None \<Rightarrow> m | Some a \<Rightarrow> f a)"
  by (cases x) simp_all

lemma keeps_sum:
  "(\<And>a. keeps I st (f a)) \<Longrightarrow> (\<And>a. keeps I st (g a)) \<Longrightarrow> keeps I st (case x of Inl a \<Rightarrow> f a | Inr a \<Rightarrow> g a)"
  by (cases x) simp_all

text \<open>
  The rules in the order to try them: the type of a step tells where its result carries the state, and
  a step that carries none is skipped.
\<close>

lemmas keeps_flow = keeps_None keeps_if keeps_Let keeps_prod keeps_prod_app keeps_option keeps_sum
  keeps_bind [where st = "\<lambda>x. x"] keeps_bind [where st = snd] keeps_bind [where st = "\<lambda>x. snd (snd x)"]
  keeps_bind [where st = "\<lambda>x. snd (snd (snd x))"] keeps_skip

end
