(* ===== verification/FatReach.thy ===== *)
theory FatReach
  imports Keeps Servers FatMount
begin

text \<open>
  The nodes of fatfs in core: every state that a run of the server can reach, from start-up on, has a
  node list and a heap that fit together.
\<close>

section \<open>What file operations leave alone\<close>

text \<open>The list, and of each node whether it is the root and how often it is used.\<close>

definition node_shape :: "'d fat_state \<Rightarrow> nat list \<times> (bool \<times> int) option list" where
  "node_shape s = (node_list s, map (map_option (\<lambda>n. (fn_is_root n, fn_reference_cnt n))) (node_heap s))"

lemma shape_upd_node:
  assumes "\<And>n. fn_is_root (f n) = fn_is_root n" and "\<And>n. fn_reference_cnt (f n) = fn_reference_cnt n"
  shows "node_shape (upd_node i f s) = node_shape s"
proof -
  let ?h = "\<lambda>n. (fn_is_root n, fn_reference_cnt n)"
  have g: "?h \<circ> f = ?h" by (rule ext) (simp add: assms)
  have "map (map_option ?h) ((node_heap s)[i := map_option f (node_heap s ! i)]) = map (map_option ?h) (node_heap s)"
    by (cases "i < length (node_heap s)")
      (simp_all add: map_update option.map_comp g list_update_same_conv list_update_beyond)
  then show ?thesis by (simp add: node_shape_def upd_node_def)
qed

lemma node_shape_simps [simp]:
  "node_shape (s\<lparr>block_cache := c\<rparr>) = node_shape s" "node_shape (s\<lparr>write_buf := b\<rparr>) = node_shape s"
  "node_shape (s\<lparr>fsb := x\<rparr>) = node_shape s" "node_shape (upd_fsb g s) = node_shape s"
  "node_shape (upd_dirent i h s) = node_shape s"
  "node_shape (upd_node i (\<lambda>n. n\<lparr>fn_hint_cluster := p n, fn_hint_offset := q n\<rparr>) s) = node_shape s"
  "node_shape (upd_node i (\<lambda>n. n\<lparr>fn_hint_offset := q n, fn_hint_cluster := p n\<rparr>) s) = node_shape s"
proof -
  show "node_shape (s\<lparr>block_cache := c\<rparr>) = node_shape s" "node_shape (s\<lparr>write_buf := b\<rparr>) = node_shape s"
    "node_shape (s\<lparr>fsb := x\<rparr>) = node_shape s" "node_shape (upd_fsb g s) = node_shape s"
    by (simp_all add: node_shape_def upd_fsb_def)
  show "node_shape (upd_dirent i h s) = node_shape s" unfolding upd_dirent_def by (rule shape_upd_node) simp_all
qed (rule shape_upd_node; simp)+

text \<open>An invariant of the shape alone; the lemmas below hold for every one.\<close>

abbreviation shaped :: "(nat list \<times> (bool \<times> int) option list \<Rightarrow> bool) \<Rightarrow> 'd fat_state \<Rightarrow> bool" where
  "shaped Q \<equiv> \<lambda>s. Q (node_shape s)"

named_theorems shapes \<open>operations that keep the shape of the nodes\<close>

lemma keeps_fat_type:
  "keeps I st a \<Longrightarrow> keeps I st b \<Longrightarrow> keeps I st c \<Longrightarrow>
   keeps I st (case x of TYPE_FAT12 \<Rightarrow> a | TYPE_FAT16 \<Rightarrow> b | TYPE_FAT32 \<Rightarrow> c)"
  by (cases x) simp_all

lemmas shape_flow = keeps_fat_type keeps_flow

lemma shape_sector [shapes]:
  "shaped Q s \<Longrightarrow> keeps (shaped Q) (\<lambda>x. snd (snd x)) (readSector dv a b c s)"
  "shaped Q s \<Longrightarrow> keeps (shaped Q) snd (writeSector dv m a b c s)"
  by (auto simp: keeps_def readSector_def writeSector_def split: Option.bind_splits)

lemma shape_entry [shapes]:
  "shaped Q s \<Longrightarrow> keeps (shaped Q) snd (ReadFATEntry dv c s)"
  "shaped Q s \<Longrightarrow> keeps (shaped Q) snd (write_fat_copy dv c v f s)"
  unfolding ReadFATEntry_def write_fat_copy_def
  by (rule shapes shape_flow | assumption | simp add: keeps_Some)+

lemma shape_write_loop [shapes]: "shaped Q s \<Longrightarrow> keeps (shaped Q) snd (write_fat_loop dv c v f n k s)"
  by (induction n arbitrary: f k s)
    (simp_all only: write_fat_loop.simps,
     (rule shapes shape_flow | assumption | simp add: keeps_Some)+)

lemma shape_write [shapes]:
  "shaped Q s \<Longrightarrow> keeps (shaped Q) snd (WriteFATEntry dv c v s)"
  "shaped Q s \<Longrightarrow> keeps (shaped Q) snd (FlushDirent dv i s)"
  unfolding WriteFATEntry_def FlushDirent_def
  by (rule shapes shape_flow | assumption | simp add: keeps_Some)+

lemma shape_find_free [shapes]: "shaped Q s \<Longrightarrow> keeps (shaped Q) snd (find_free_loop dv c b s)"
proof (induction "unat b - unat c" arbitrary: c s rule: less_induct)
  case less
  then have IH: "c < b \<Longrightarrow> shaped Q t \<Longrightarrow> keeps (shaped Q) snd (find_free_loop dv (c + 1) b t)" for t
    by (simp add: unat_suc_less word_less_nat_alt)
  show ?case
    by (subst find_free_loop.simps)
      (rule shapes IH shape_flow | assumption | simp add: keeps_Some less.prems)+
qed

lemma shape_free_cluster [shapes]: "shaped Q s \<Longrightarrow> keeps (shaped Q) snd (FindFreeCluster dv s)"
  unfolding FindFreeCluster_def
  by (rule shapes shape_flow | assumption | simp add: keeps_Some)+

text \<open>A loop that may not end keeps the invariant when its body does, given that the next turn does.\<close>

lemma shape_find_last [shapes]:
  assumes "shaped Q s"
  shows "keeps (shaped Q) snd (find_last_loop dv i c n s)"
proof (rule keepsI)
  fix y assume "find_last_loop dv i c n s = Some y"
  then have "shaped Q s \<longrightarrow> shaped Q (snd y)"
  proof (induction rule: find_last_loop.raw_induct [rotated, consumes 1, case_names turn])
    case (turn f)
    then have IH: "shaped Q t \<Longrightarrow> keeps (shaped Q) snd (f dv i a b t)" for dv i a b t by (simp add: keeps_def)
    show ?case
      by (rule impI, rule keepsD [OF _ turn(2)])
        (rule shapes IH shape_flow | assumption | simp add: keeps_Some)+
  qed
  with assms show "shaped Q (snd y)" by simp
qed

lemma shape_append [shapes]:
  "shaped Q s \<Longrightarrow> keeps (shaped Q) snd (AppendCluster dv i s)"
proof -
  have [shapes]: "shaped Q s \<Longrightarrow> keeps (shaped Q) snd (FindLastCluster dv i s)" for s
    unfolding FindLastCluster_def by (rule shapes shape_flow | assumption | simp add: keeps_Some)+
  show "shaped Q s \<Longrightarrow> keeps (shaped Q) snd (AppendCluster dv i s)"
    unfolding AppendCluster_def by (rule shapes shape_flow | assumption | simp add: keeps_Some)+
qed

lemma shape_find_cluster [shapes]: "shaped Q s \<Longrightarrow> keeps (shaped Q) snd (find_cluster_loop dv n c s)"
  by (induction n arbitrary: c s)
    (simp_all only: find_cluster_loop.simps,
     (rule shapes shape_flow | assumption | simp add: keeps_Some)+)

lemma shape_free_clusters [shapes]:
  assumes "shaped Q s"
  shows "keeps (shaped Q) (\<lambda>x. x) (FreeClusters dv c s)"
proof (rule keepsI)
  fix y assume "FreeClusters dv c s = Some y"
  then have "shaped Q s \<longrightarrow> shaped Q y"
  proof (induction rule: FreeClusters.raw_induct [rotated, consumes 1, case_names turn])
    case (turn f)
    then have IH: "shaped Q t \<Longrightarrow> keeps (shaped Q) (\<lambda>x. x) (f dv c t)" for dv c t by (simp add: keeps_def)
    show ?case
      by (rule impI, rule keepsD [OF _ turn(2), where st = "\<lambda>x. x"])
        (rule shapes IH shape_flow | assumption | simp add: keeps_Some)+
  qed
  with assms show "shaped Q y" by simp
qed

lemma shape_cluster [shapes]:
  "shaped Q s \<Longrightarrow> keeps (shaped Q) snd (FindCluster dv i off s)"
  "shaped Q s \<Longrightarrow> keeps (shaped Q) snd (clear_sectors dv n c s)"
  "shaped Q s \<Longrightarrow> keeps (shaped Q) snd (ClearCluster dv c s)"
proof -
  show "shaped Q s \<Longrightarrow> keeps (shaped Q) snd (FindCluster dv i off s)"
    unfolding FindCluster_def by (rule shapes shape_flow | assumption | simp add: keeps_Some)+
  show c: "shaped Q s \<Longrightarrow> keeps (shaped Q) snd (clear_sectors dv n c s)" for n c
    by (induction n arbitrary: c s)
      (simp_all only: clear_sectors.simps, (rule shapes shape_flow | assumption | simp add: keeps_Some)+)
  then show "shaped Q s \<Longrightarrow> keeps (shaped Q) snd (ClearCluster dv c s)" by (simp add: ClearCluster_def)
qed


text \<open>Directories.\<close>

lemma shape_dir [shapes]:
  "shaped Q s \<Longrightarrow> keeps (shaped Q) (\<lambda>x. snd (snd x)) (fat_dir_read dv i cookie s)"
  "shaped Q s \<Longrightarrow> keeps (shaped Q) snd (create_at dv d pos s)"
  "shaped Q s \<Longrightarrow> keeps (shaped Q) (\<lambda>x. x) (FatDeleteDirEntry dv c so s)"
  unfolding fat_dir_read_def create_at_def FatDeleteDirEntry_def
  by (rule shapes shape_flow | assumption | simp add: keeps_Some)+

lemma shape_create_root [shapes]:
  "shaped Q s \<Longrightarrow> keeps (shaped Q) (\<lambda>x. snd (snd x)) (create_root_loop dv d off s)"
proof (induction "65536 - unat off" arbitrary: off s rule: less_induct)
  case less
  have IH: "unat off < unat (root_entries_cnt (bpb (fsb t))) \<Longrightarrow> shaped Q s' \<Longrightarrow>
      keeps (shaped Q) (\<lambda>x. snd (snd x)) (create_root_loop dv d (off + 1) s')" for s' t
  proof -
    assume o: "unat off < unat (root_entries_cnt (bpb (fsb t)))" and s: "shaped Q s'"
    then have "unat off < 65536" using unat_u16_lt [of "root_entries_cnt (bpb (fsb t))"] by linarith
    then show ?thesis using less(1) [OF _ s, of "off + 1"] unat_suc_less [of off 65536] by (simp add: word_less_nat_alt)
  qed
  show ?case
    by (subst create_root_loop.simps)
      (rule shapes IH shape_flow | assumption | simp add: keeps_Some less.prems)+
qed

lemma shape_create_chain [shapes]:
  assumes "shaped Q s"
  shows "keeps (shaped Q) (\<lambda>x. snd x) (create_chain_loop dv i d off s)"
proof (rule keepsI)
  fix y assume "create_chain_loop dv i d off s = Some y"
  then have "shaped Q s \<longrightarrow> shaped Q ((\<lambda>x. snd x) y)"
  proof (induction rule: create_chain_loop.raw_induct [rotated, consumes 1, case_names turn])
    case (turn f)
    then have IH: "shaped Q t \<Longrightarrow> keeps (shaped Q) (\<lambda>x. snd x) (f dv i d off t)" for dv i d off t by (simp add: keeps_def)
    show ?case
      by (rule impI, rule keepsD [OF _ turn(2), where st = "\<lambda>x. snd x"])
        (rule shapes IH shape_flow | assumption | simp add: keeps_Some)+
  qed
  with assms show "shaped Q ((\<lambda>x. snd x) y)" by simp
qed

lemma shape_is_empty [shapes]:
  assumes "shaped Q s"
  shows "keeps (shaped Q) (\<lambda>x. snd x) (is_empty_loop dv i off s)"
proof (rule keepsI)
  fix y assume "is_empty_loop dv i off s = Some y"
  then have "shaped Q s \<longrightarrow> shaped Q ((\<lambda>x. snd x) y)"
  proof (induction rule: is_empty_loop.raw_induct [rotated, consumes 1, case_names turn])
    case (turn f)
    then have IH: "shaped Q t \<Longrightarrow> keeps (shaped Q) (\<lambda>x. snd x) (f dv i off t)" for dv i off t by (simp add: keeps_def)
    show ?case
      by (rule impI, rule keepsD [OF _ turn(2), where st = "\<lambda>x. snd x"])
        (rule shapes IH shape_flow | assumption | simp add: keeps_Some)+
  qed
  with assms show "shaped Q ((\<lambda>x. snd x) y)" by simp
qed

lemma shape_readdir [shapes]:
  assumes "shaped Q s"
  shows "keeps (shaped Q) (\<lambda>x. snd (snd (snd x))) (fat_readdir_loop dv dno i cookie sz acc s)"
proof (rule keepsI)
  fix y assume "fat_readdir_loop dv dno i cookie sz acc s = Some y"
  then have "shaped Q s \<longrightarrow> shaped Q ((\<lambda>x. snd (snd (snd x))) y)"
  proof (induction rule: fat_readdir_loop.raw_induct [rotated, consumes 1, case_names turn])
    case (turn f)
    then have IH: "shaped Q t \<Longrightarrow> keeps (shaped Q) (\<lambda>x. snd (snd (snd x))) (f dv dno i cookie sz acc t)" for dv dno i cookie sz acc t by (simp add: keeps_def)
    show ?case
      by (rule impI, rule keepsD [OF _ turn(2), where st = "\<lambda>x. snd (snd (snd x))"])
        (rule shapes IH shape_flow | assumption | simp add: keeps_Some)+
  qed
  with assms show "shaped Q ((\<lambda>x. snd (snd (snd x))) y)" by simp
qed

lemma shape_write_cluster [shapes]:
  assumes "shaped Q s"
  shows "keeps (shaped Q) (\<lambda>x. snd x) (write_cluster dv i off s)"
proof (rule keepsI)
  fix y assume "write_cluster dv i off s = Some y"
  then have "shaped Q s \<longrightarrow> shaped Q ((\<lambda>x. snd x) y)"
  proof (induction rule: write_cluster.raw_induct [rotated, consumes 1, case_names turn])
    case (turn f)
    then have IH: "shaped Q t \<Longrightarrow> keeps (shaped Q) (\<lambda>x. snd x) (f dv i off t)" for dv i off t by (simp add: keeps_def)
    show ?case
      by (rule impI, rule keepsD [OF _ turn(2), where st = "\<lambda>x. snd x"])
        (rule shapes IH shape_flow | assumption | simp add: keeps_Some)+
  qed
  with assms show "shaped Q ((\<lambda>x. snd x) y)" by simp
qed

lemma shape_dir_entry [shapes]:
  "shaped Q s \<Longrightarrow> keeps (shaped Q) (\<lambda>x. snd (snd x)) (FatCreateDirEntry dv p d s)"
  "shaped Q s \<Longrightarrow> keeps (shaped Q) snd (IsDirEmpty dv i s)"
  unfolding FatCreateDirEntry_def IsDirEmpty_def
  by (rule shapes shape_flow | assumption | simp add: keeps_Some)+

text \<open>Reading and writing.\<close>

lemma transfer_smaller: "left \<noteq> 0 \<Longrightarrow> transfer_nbytes left so \<noteq> 0 \<Longrightarrow> unat (left - transfer_nbytes left so) < unat left"
  using transfer_nbytes_le [of left so] by (simp add: unat_sub unat_gt_0 word_le_nat_alt)

lemma shape_read_loop [shapes]: "shaped Q s \<Longrightarrow> keeps (shaped Q) snd (fat_read_loop dv i left off s)"
proof (induction "unat left" arbitrary: left off s rule: less_induct)
  case less
  have IH: "left \<noteq> 0 \<Longrightarrow> transfer_nbytes left so \<noteq> 0 \<Longrightarrow> shaped Q t \<Longrightarrow>
      keeps (shaped Q) snd (fat_read_loop dv i (left - transfer_nbytes left so) o' t)" for so o' t
    by (rule less(1)) (simp_all add: transfer_smaller)
  show ?case
    by (subst fat_read_loop.simps)
      (rule shapes IH shape_flow | assumption | simp add: keeps_Some less.prems)+
qed

lemma shape_write_data_loop [shapes]:
  "shaped Q s \<Longrightarrow> keeps (shaped Q) (\<lambda>x. snd (snd (snd x))) (fat_write_loop dv i src left off s)"
proof (induction "unat left" arbitrary: src left off s rule: less_induct)
  case less
  have IH: "left \<noteq> 0 \<Longrightarrow> transfer_nbytes left so \<noteq> 0 \<Longrightarrow> shaped Q t \<Longrightarrow>
      keeps (shaped Q) (\<lambda>x. snd (snd (snd x))) (fat_write_loop dv i src' (left - transfer_nbytes left so) o' t)" for so src' o' t
    by (rule less(1)) (simp_all add: transfer_smaller)
  show ?case
    by (subst fat_write_loop.simps)
      (rule shapes IH shape_flow | assumption | simp add: keeps_Some less.prems)+
qed

lemma shape_file [shapes]:
  "shaped Q s \<Longrightarrow> keeps (shaped Q) snd (readFile dv i n off s)"
  "shaped Q s \<Longrightarrow> keeps (shaped Q) snd (writeFile dv i buf n off s)"
proof -
  show "shaped Q s \<Longrightarrow> keeps (shaped Q) snd (readFile dv i n off s)"
    unfolding readFile_def by (rule shapes shape_flow | assumption | simp add: keeps_Some)+
  have [shapes]: "shaped Q s \<Longrightarrow> keeps (shaped Q) snd (clear_gap dv i sz off s)" for sz off s
    unfolding clear_gap_def by (rule shapes shape_flow | assumption | simp add: keeps_Some)+
  show "shaped Q s \<Longrightarrow> keeps (shaped Q) snd (writeFile dv i buf n off s)"
    unfolding writeFile_def by (rule shapes shape_flow | assumption | simp add: keeps_Some)+
qed


section \<open>The nodes\<close>

text \<open>
  The list holds exactly the nodes in memory, each once and the root first; every other node is in use.
\<close>

definition nodes_ok :: "'d fat_state \<Rightarrow> bool" where
  "nodes_ok s \<longleftrightarrow> distinct (node_list s) \<and> node_list s \<noteq> [] \<and> hd (node_list s) = ROOT_NODE \<and>
     (\<forall>i. i \<in> set (node_list s) \<longleftrightarrow> the_node i s \<noteq> None) \<and>
     (\<exists>n. the_node ROOT_NODE s = Some n \<and> fn_is_root n) \<and>
     (\<forall>i n. i \<noteq> ROOT_NODE \<longrightarrow> the_node i s = Some n \<longrightarrow> 1 \<le> fn_reference_cnt n)"

definition shape_at :: "(bool \<times> int) option list \<Rightarrow> nat \<Rightarrow> (bool \<times> int) option" where
  "shape_at h i = (if i < length h then h ! i else None)"

fun shape_ok :: "nat list \<times> (bool \<times> int) option list \<Rightarrow> bool" where
  "shape_ok (l, h) \<longleftrightarrow> distinct l \<and> l \<noteq> [] \<and> hd l = ROOT_NODE \<and> (\<forall>i. i \<in> set l \<longleftrightarrow> shape_at h i \<noteq> None) \<and>
     (\<exists>c. shape_at h ROOT_NODE = Some (True, c)) \<and>
     (\<forall>i b c. i \<noteq> ROOT_NODE \<longrightarrow> shape_at h i = Some (b, c) \<longrightarrow> 1 \<le> c)"

lemma shape_at_node:
  "shape_at (snd (node_shape s)) i = map_option (\<lambda>n. (fn_is_root n, fn_reference_cnt n)) (the_node i s)"
  by (simp add: shape_at_def node_shape_def the_node_def)

lemma nodes_shape: "nodes_ok s \<longleftrightarrow> shape_ok (node_shape s)"
proof -
  have "node_shape s = (node_list s, snd (node_shape s))" by (simp add: node_shape_def)
  then have "shape_ok (node_shape s) \<longleftrightarrow> shape_ok (node_list s, snd (node_shape s))" by simp
  also have "\<dots> \<longleftrightarrow> nodes_ok s"
    by (auto simp: shape_at_node nodes_ok_def)
  finally show ?thesis by simp
qed

lemma keeps_nodes_iff: "keeps nodes_ok st m \<longleftrightarrow> keeps (shaped shape_ok) st m"
  by (simp add: keeps_def nodes_shape)

text \<open>A node whose use count changes, without ending.\<close>

lemma nodes_ok_count:
  assumes "nodes_ok s" and "\<And>n. fn_is_root (f n) = fn_is_root n"
    and "\<And>n. the_node i s = Some n \<Longrightarrow> i \<noteq> ROOT_NODE \<Longrightarrow> 1 \<le> fn_reference_cnt (f n)"
  shows "nodes_ok (upd_node i f s)"
  using assms unfolding nodes_ok_def by (auto simp: the_node_upd)

lemma nodes_ok_used: "nodes_ok s \<Longrightarrow> the_node i s = Some n \<Longrightarrow> i \<noteq> ROOT_NODE \<Longrightarrow> 1 \<le> fn_reference_cnt n"
  by (simp add: nodes_ok_def)

text \<open>\<open>FindNode\<close> never meets a node that is gone, and finds one of the list.\<close>

lemma find_node_some:
  "\<forall>i\<in>set is. the_node i s \<noteq> None \<Longrightarrow> \<exists>r. find_node ino is s = Some r \<and> (\<forall>i. r = Some i \<longrightarrow> i \<in> set is)"
  by (induction "is") auto

lemma FindNode_ok:
  assumes "nodes_ok s"
  shows "\<exists>r s'. FindNode ino s = Some (r, s') \<and> nodes_ok s' \<and> (\<forall>i. r = Some i \<longrightarrow> the_node i s' \<noteq> None)"
proof -
  have l: "\<forall>i\<in>set (node_list s). the_node i s \<noteq> None" using assms by (simp add: nodes_ok_def)
  from find_node_some [OF l] obtain r where r: "find_node ino (node_list s) s = Some r"
    "\<And>i. r = Some i \<Longrightarrow> i \<in> set (node_list s)" by blast
  show ?thesis
  proof (cases r)
    case (Some i)
    have "nodes_ok (upd_node i (\<lambda>n. n\<lparr>fn_reference_cnt := fn_reference_cnt n + 1\<rparr>) s)"
      using assms by (intro nodes_ok_count) (auto dest: nodes_ok_used [OF assms])
    with r Some l show ?thesis by (auto simp: FindNode_def the_node_upd)
  qed (use r assms in \<open>simp add: FindNode_def\<close>)
qed

lemma nodes_find: "nodes_ok s \<Longrightarrow> keeps nodes_ok snd (FindNode ino s)"
  using FindNode_ok [of s ino] by (auto simp: keeps_def)

lemma nodes_alloc: "nodes_ok s \<Longrightarrow> nodes_ok (snd (AllocNode mal d c off s))"
proof (cases mal)
  case (Some junk)
  assume ok: "nodes_ok s"
  let ?i = "length (node_heap s)"
  define s' where "s' = snd (AllocNode mal d c off s)"
  show ?thesis
  proof (cases "node_list s' = node_list s")
    case True
    then have "s' = s" unfolding s'_def by (auto simp: AllocNode_def Some Let_def split: if_splits)
    with ok show ?thesis by (simp add: s'_def)
  next
    case False
    then obtain n where n: "node_list s' = node_list s @ [?i]" "node_heap s' = node_heap s @ [Some n]" "fn_reference_cnt n = 1"
      unfolding s'_def by (auto simp: AllocNode_def Some Let_def split: if_splits)
    have at: "the_node j s' = (if j = ?i then Some n else the_node j s)" for j
      using n(2) by (auto simp: the_node_def nth_append)
    have new: "the_node ?i s = None" by (simp add: the_node_def)
    with ok have i: "?i \<notin> set (node_list s)" "?i \<noteq> ROOT_NODE" unfolding nodes_ok_def by (metis, auto simp: the_node_def)
    show ?thesis
      using ok i new unfolding nodes_ok_def s'_def [symmetric] n(1) at by (auto simp: n(3) hd_append)
  qed
qed (simp add: AllocNode_def)

lemma nodes_free: "nodes_ok s \<Longrightarrow> keeps nodes_ok (\<lambda>x. x) (FreeNode i s)"
proof (rule keepsI)
  fix s' assume ok: "nodes_ok s" and r: "FreeNode i s = Some s'"
  then obtain n where n: "the_node i s = Some n" by (auto simp: FreeNode_def Option.bind_eq_Some_conv)
  let ?s = "upd_node i (\<lambda>n. n\<lparr>fn_reference_cnt := fn_reference_cnt n - 1\<rparr>) s"
  show "nodes_ok s'"
  proof (cases "i \<noteq> ROOT_NODE \<and> fn_reference_cnt n - 1 = 0")
    case True
    with n r have s': "node_list s' = remove1 i (node_list s)" "node_heap s' = (node_heap s)[i := None]"
      by (auto simp: FreeNode_def Let_def upd_node_def)
    have at: "the_node j s' = (if j = i then None else the_node j s)" for j
      using s'(2) by (simp add: the_node_def nth_list_update)
    obtain rest where l: "node_list s = ROOT_NODE # rest" using ok by (cases "node_list s") (auto simp: nodes_ok_def)
    show ?thesis using ok True unfolding nodes_ok_def at s'(1) l by auto
  next
    case False
    then have "s' = ?s" using n r by (auto simp: FreeNode_def Let_def)
    moreover have "1 \<le> fn_reference_cnt n - 1" if "i \<noteq> ROOT_NODE"
    proof -
      have "1 \<le> fn_reference_cnt n" using ok n that by (simp add: nodes_ok_def)
      with False that show ?thesis by linarith
    qed
    then have "nodes_ok ?s" using ok n by (intro nodes_ok_count) auto
    ultimately show ?thesis by simp
  qed
qed


section \<open>Requests\<close>

text \<open>The lemmas above, for \<open>nodes_ok\<close>.\<close>

lemmas node_rules = shapes [where Q = shape_ok, folded nodes_shape keeps_nodes_iff] nodes_find nodes_free

lemma nodes_ok_simps [simp]:
  "nodes_ok (s\<lparr>write_buf := b\<rparr>) = nodes_ok s" "nodes_ok (upd_dirent i h s) = nodes_ok s"
  by (simp_all add: nodes_shape)

lemma nodes_lookup_hit: "nodes_ok s \<Longrightarrow> keeps nodes_ok (\<lambda>x. snd (snd x)) (lookup_hit mal d c off s)"
proof -
  assume ok: "nodes_ok s"
  let ?set = "\<lambda>n. n\<lparr>fn_inode_nr := or (push_bit 16 (ucast (fd_first_cluster_hi d))) (ucast (fd_first_cluster_lo d)),
    fn_hint_cluster := 0, fn_hint_offset := 0, fn_dirent := d\<rparr>"
  have u: "nodes_ok t \<Longrightarrow> nodes_ok (upd_node i ?set t)" for i t
    unfolding nodes_shape by (subst shape_upd_node) simp_all
  from FindNode_ok [OF ok, of "GetFirstCluster d (fsb s)"] obtain r s1 where
    f: "FindNode (GetFirstCluster d (fsb s)) s = Some (r, s1)" "nodes_ok s1" by blast
  show ?thesis
  proof (cases r)
    case None
    with f nodes_alloc [OF f(2), of mal d c off] ok show ?thesis
      by (cases "AllocNode mal d c off s1")
        (auto simp: lookup_hit_def Let_def keeps_def intro: u split: option.splits)
  next
    case (Some i)
    with f ok show ?thesis by (auto simp: lookup_hit_def Let_def keeps_def intro: u)
  qed
qed

lemma nodes_lookup_loop:
  assumes "nodes_ok s"
  shows "keeps nodes_ok (\<lambda>x. snd (snd x)) (lookup_loop dv mal i name off s)"
proof (rule keepsI)
  fix y assume "lookup_loop dv mal i name off s = Some y"
  then have "nodes_ok s \<longrightarrow> nodes_ok (snd (snd y))"
  proof (induction rule: lookup_loop.raw_induct [rotated, consumes 1, case_names turn])
    case (turn f)
    then have IH: "nodes_ok t \<Longrightarrow> keeps nodes_ok (\<lambda>x. snd (snd x)) (f dv mal i name off t)" for dv mal i name off t
      by (simp add: keeps_def)
    show ?case
      by (rule impI, rule keepsD [OF _ turn(2), where st = "\<lambda>x. snd (snd x)"])
        (rule node_rules nodes_lookup_hit IH shape_flow | assumption | simp add: keeps_Some)+
  qed
  with assms show "nodes_ok (snd (snd y))" by simp
qed

lemma nodes_lookup: "nodes_ok s \<Longrightarrow> keeps nodes_ok (\<lambda>x. snd (snd x)) (lookup dv mal i name s)"
  by (simp add: lookup_def nodes_lookup_loop)

lemma nodes_find_entry: "nodes_ok s \<Longrightarrow> keeps nodes_ok snd (find_entry dv w d n p s)"
  unfolding find_entry_def by (rule node_rules nodes_lookup shape_flow | assumption | simp add: keeps_Some)+

lemma nodes_remove: "nodes_ok s \<Longrightarrow> keeps nodes_ok (\<lambda>x. x) (remove_node dv p i s)"
  unfolding remove_node_def by (rule node_rules shape_flow | assumption | simp add: keeps_Some)+

lemma nodes_make_dots: "nodes_ok s \<Longrightarrow> keeps nodes_ok snd (make_dots dv w p i s)"
  unfolding make_dots_def by (rule node_rules shape_flow | assumption | simp add: keeps_Some)+

text \<open>The handlers.\<close>

lemma keeps_alloc:
  assumes "nodes_ok s" and "\<And>t. nodes_ok t \<Longrightarrow> keeps nodes_ok st (f t)" and "\<And>i t. nodes_ok t \<Longrightarrow> keeps nodes_ok st (g i t)"
  shows "keeps nodes_ok st (case AllocNode mal d c off s of (None, t) \<Rightarrow> f t | (Some i, t) \<Rightarrow> g i t)"
  using assms nodes_alloc [OF assms(1), of mal d c off]
  by (cases "AllocNode mal d c off s") (simp split: option.split)

lemma nodes_fatMkDir: "nodes_ok s \<Longrightarrow> keeps nodes_ok snd (fatMkDir dv w d n p s)"
  unfolding fatMkDir_def
  by (rule keeps_alloc node_rules nodes_make_dots shape_flow | assumption | simp add: keeps_Some)+

lemma nodes_handlers:
  assumes "nodes_ok s"
  shows "keeps nodes_ok snd (fatLookup dv w d n p s)" "keeps nodes_ok snd (fatRead dv w i off sz s)"
    "keeps nodes_ok snd (fatWrite dv i off sz p s)" "keeps nodes_ok snd (fatReadDir dv w i off s)"
    "keeps nodes_ok snd (fatUnlink dv w d n p s)" "keeps nodes_ok snd (fatRmDir dv w d n p s)"
  unfolding fatLookup_def fatRead_def fatWrite_def fatReadDir_def fatUnlink_def fatRmDir_def
  by (rule node_rules nodes_lookup nodes_find_entry nodes_remove shape_flow | assumption | simp add: keeps_Some assms)+

lemma nodes_step: "nodes_ok s \<Longrightarrow> keeps nodes_ok snd (fat_step dv w r s)"
  by (cases r)
    (simp_all only: fat_step.simps fatClose_def fatCreate_def fatMkNod_def fatRename_def,
     (rule nodes_handlers nodes_fatMkDir shape_flow | assumption | simp add: keeps_Some)+)

interpretation fat_nodes: kept_server "fat_step dv w" "\<lambda>_. None" nodes_ok
  for dv :: "'d block_device" and w :: fat_world
  by unfold_locales (auto dest: keepsD [OF nodes_step])



section \<open>From start-up on\<close>

lemma nodes_init_root:
  assumes "node_shape t = ([], [Some (b, c)])"
  shows "nodes_ok (InitRootNode t)"
proof -
  from assms obtain n where n: "node_list t = []" "node_heap t = [Some n]"
    by (auto simp: node_shape_def map_eq_Cons_conv)
  have "the_node i (InitRootNode t) \<noteq> None \<longleftrightarrow> i = ROOT_NODE" for i
    using n by (auto simp: the_node_def InitRootNode_def upd_node_def)
  with n show ?thesis
    by (auto simp: nodes_ok_def InitRootNode_def upd_node_def the_node_def)
qed

lemma detect_nodes:
  assumes "detect_loop dv es t = Some (rc, t')" and "node_shape t = ([], [Some (b, c)])" and "rc \<noteq> - 1"
  shows "nodes_ok t'"
proof -
  let ?K = "([], [Some (b, c)]) :: nat list \<times> (bool \<times> int) option list"
  define I where "I = (\<lambda>(r :: bool, u :: 'a fat_state). if r then nodes_ok u else node_shape u = ?K)"
  have some: "I (r, u) \<Longrightarrow> keeps I (\<lambda>x. x) (Some (r, u))" for r u by (simp add: keeps_def)
  have e: "keeps I (\<lambda>x. x) (detect_entry dv e u)" if u: "node_shape u = ?K" for e u
    unfolding detect_entry_def Let_def
    by (rule keeps_flow some | simp add: I_def u nodes_init_root)+
  show ?thesis using assms
  proof (induction es arbitrary: t)
    case (Cons e es)
    then obtain r u where r: "detect_entry dv e t = Some (r, u)" "(if r then Some (0, u) else detect_loop dv es u) = Some (rc, t')"
      by (auto simp: Option.bind_eq_Some_conv)
    with keepsD [OF e [OF Cons.prems(2)] r(1)] Cons show ?case by (auto simp: I_def split: if_splits)
  qed simp
qed

lemma init_nodes:
  assumes "fat_init dv be sc mem d0 uid gid fmt d = Some s"
  shows "nodes_ok s"
proof -
  have f: "FatFormat dv sc d0 (Some l) t = Some (rc, t') \<Longrightarrow> t' = t" for l t rc t'
    by (auto simp: FatFormat_def label_dirent_def Option.bind_eq_Some_conv split: option.splits prod.splits bool.splits)
  from assms obtain c rc where "detectPartition dv ((fat_globals be c)\<lparr>fat_uid := uid, fat_gid := gid\<rparr>) = Some (rc, s)" "rc \<noteq> - 1"
    by (auto simp: fat_init_def Let_def Option.bind_eq_Some_conv split: if_splits dest!: f)
  then obtain es t where "detect_loop dv es t = Some (rc, s)" "rc \<noteq> - 1" "node_shape t = node_shape (fat_globals be c)"
    by (auto simp: detectPartition_def Let_def Option.bind_eq_Some_conv node_shape_def simp del: detect_loop.simps)
  then show ?thesis using detect_nodes [of dv es t rc s False 0]
    by (simp add: node_shape_def fat_globals_def zero_node_def)
qed

text \<open>The states that requests can lead to, whatever the world does at each.\<close>

inductive fat_reachable :: "'d block_device \<Rightarrow> 'd fat_state \<Rightarrow> 'd fat_state \<Rightarrow> bool" for dv s0 where
  start: "fat_reachable dv s0 s0"
| request: "fat_reachable dv s0 s \<Longrightarrow> fat_step dv w r s = Some (out, s') \<Longrightarrow> fat_reachable dv s0 s'"

interpretation fat_run: kept_server "fat_step dv w" "\<lambda>_. None" "fat_reachable dv s0"
  for dv :: "'d block_device" and w :: fat_world and s0 :: "'d fat_state"
  by unfold_locales (auto intro: fat_reachable.request)

text \<open>The main loop stays in them.\<close>

lemma main_loop_reachable:
  "fat_main_loop dv w ws s0 = Some (outs, ex, s) \<Longrightarrow> fat_reachable dv s0 s"
  unfolding fat_main_loop_def by (rule fat_run.run_keeps [OF fat_reachable.start])



end
