(* ===== verification/ExtTree.thy ===== *)
theory ExtTree
  imports ExtTypes
begin

text \<open>
  Trees of blocks, as the indirect blocks of a file form them: their leaves, the blocks they consist
  of, and what becomes of a tree when one of its subtrees is replaced.
\<close>

section \<open>Trees of blocks\<close>

text \<open>
  \<open>leaf E a d b k\<close> is the \<open>k\<close>-th leaf of the tree of depth \<open>d\<close> at block \<open>b\<close>, where \<open>E b j\<close> is the
  \<open>j\<close>-th of the \<open>a\<close> entries of an indirect block; below a hole are holes.
\<close>

fun leaf :: "(u32 \<Rightarrow> nat \<Rightarrow> u32) \<Rightarrow> nat \<Rightarrow> nat \<Rightarrow> u32 \<Rightarrow> nat \<Rightarrow> u32" where
  "leaf E a 0 b k = b"
| "leaf E a (Suc d) b k =
     (if b = NO_BLOCK then NO_BLOCK else leaf E a d (E b (k div a ^ d)) (k mod a ^ d))"

lemma leaf_hole [simp]: "leaf E a d NO_BLOCK k = NO_BLOCK"
  by (cases d) simp_all

text \<open>The offsets on the way to a leaf.\<close>

fun path :: "nat \<Rightarrow> nat \<Rightarrow> nat \<Rightarrow> nat list" where
  "path a 0 r = []"
| "path a (Suc d) r = r div a ^ d # path a d (r mod a ^ d)"

lemma length_path [simp]: "length (path a d r) = d"
  by (induction d arbitrary: r) simp_all

lemma digit_bounds:
  assumes "(r :: nat) < a ^ Suc d"
  shows "r div a ^ d < a" and "r mod a ^ d < a ^ d"
proof -
  show "r div a ^ d < a" using assms less_mult_imp_div_less [of r a "a ^ d"] by simp
  have "0 < a ^ d" using assms by (cases "a = 0") (auto simp: power_0_left split: if_splits)
  then show "r mod a ^ d < a ^ d" by simp
qed


section \<open>The blocks of a tree\<close>

text \<open>\<open>nodes\<close> are all blocks of a tree, \<open>inner\<close> its indirect blocks.\<close>

fun nodes :: "(u32 \<Rightarrow> nat \<Rightarrow> u32) \<Rightarrow> nat \<Rightarrow> nat \<Rightarrow> u32 \<Rightarrow> u32 set" where
  "nodes E a 0 b = (if b = NO_BLOCK then {} else {b})"
| "nodes E a (Suc d) b = (if b = NO_BLOCK then {} else insert b (\<Union>j<a. nodes E a d (E b j)))"

fun inner :: "(u32 \<Rightarrow> nat \<Rightarrow> u32) \<Rightarrow> nat \<Rightarrow> nat \<Rightarrow> u32 \<Rightarrow> u32 set" where
  "inner E a 0 b = {}"
| "inner E a (Suc d) b = (if b = NO_BLOCK then {} else insert b (\<Union>j<a. inner E a d (E b j)))"

text \<open>No block is used twice.\<close>

fun tree_ok :: "(u32 \<Rightarrow> nat \<Rightarrow> u32) \<Rightarrow> nat \<Rightarrow> nat \<Rightarrow> u32 \<Rightarrow> bool" where
  "tree_ok E a 0 b = True"
| "tree_ok E a (Suc d) b =
     (b \<noteq> NO_BLOCK \<longrightarrow>
        (\<forall>j<a. tree_ok E a d (E b j) \<and> b \<notin> nodes E a d (E b j) \<and>
           (\<forall>k<a. k \<noteq> j \<longrightarrow> nodes E a d (E b j) \<inter> nodes E a d (E b k) = {})))"

lemma nodes_hole [simp]: "nodes E a d NO_BLOCK = {}" "inner E a d NO_BLOCK = {}" "tree_ok E a d NO_BLOCK"
  by (cases d; simp)+

lemma zero_notin_nodes: "NO_BLOCK \<notin> nodes E a d b"
  by (induction d arbitrary: b) auto

lemma inner_nodes: "inner E a d b \<subseteq> nodes E a d b"
  by (induction d arbitrary: b) (auto simp: subset_iff)

lemma root_in_nodes: "b \<noteq> NO_BLOCK \<Longrightarrow> b \<in> nodes E a d b"
  by (cases d) auto

lemma leaf_in_nodes: "r < a ^ d \<Longrightarrow> leaf E a d b r \<noteq> NO_BLOCK \<Longrightarrow> leaf E a d b r \<in> nodes E a d b"
proof (induction d arbitrary: b r)
  case (Suc d)
  note r = digit_bounds [OF Suc.prems(1)]
  have b: "b \<noteq> NO_BLOCK" and l: "leaf E a d (E b (r div a ^ d)) (r mod a ^ d) \<noteq> NO_BLOCK"
    using Suc.prems(2) by (auto split: if_splits)
  have "leaf E a d (E b (r div a ^ d)) (r mod a ^ d) \<in> nodes E a d (E b (r div a ^ d))"
    by (rule Suc.IH [OF r(2) l])
  with b r(1) show ?case by auto
qed auto

text \<open>A tree depends only on what its indirect blocks hold.\<close>

lemma tree_cong_all:
  "\<forall>c \<in> inner E a d b. \<forall>j < a. E' c j = E c j \<Longrightarrow>
   nodes E' a d b = nodes E a d b \<and> inner E' a d b = inner E a d b \<and> tree_ok E' a d b = tree_ok E a d b \<and>
   (\<forall>r < a ^ d. leaf E' a d b r = leaf E a d b r)"
proof (induction d arbitrary: b)
  case (Suc d)
  show ?case
  proof (cases "b = NO_BLOCK")
    case False
    have e: "E' b j = E b j" if "j < a" for j using Suc.prems False that by auto
    have sub: "nodes E' a d (E b j) = nodes E a d (E b j)" "inner E' a d (E b j) = inner E a d (E b j)"
      "tree_ok E' a d (E b j) = tree_ok E a d (E b j)"
      "\<forall>r < a ^ d. leaf E' a d (E b j) r = leaf E a d (E b j) r" if "j < a" for j
      using Suc.IH [of "E b j"] Suc.prems False that by auto
    have "leaf E' a (Suc d) b r = leaf E a (Suc d) b r" if "r < a ^ Suc d" for r
      using False e sub(4) digit_bounds [OF that] by simp
    with False e sub(1-3) show ?thesis by simp
  qed simp
qed simp

lemma tree_cong:
  assumes "\<forall>c \<in> inner E a d b. \<forall>j < a. E' c j = E c j"
  shows "nodes E' a d b = nodes E a d b" "inner E' a d b = inner E a d b" "tree_ok E' a d b \<longleftrightarrow> tree_ok E a d b"
    "r < a ^ d \<Longrightarrow> leaf E' a d b r = leaf E a d b r"
  using tree_cong_all [OF assms] by auto

text \<open>
  A subtree is replaced by one that has, besides blocks of the old one, only new ones.
\<close>

lemma graft:
  assumes ok: "tree_ok E a (Suc d) b" and b: "b \<noteq> NO_BLOCK" and j: "j < a"
    and E': "\<forall>k < a. E' b k = (if k = j then c else E b k)"
    and other: "\<forall>k < a. k \<noteq> j \<longrightarrow> (\<forall>x \<in> inner E a d (E b k). \<forall>l < a. E' x l = E x l)"
    and sub: "tree_ok E' a d c" "nodes E' a d c \<subseteq> nodes E a d (E b j) \<union> N"
    and N: "N \<inter> nodes E a (Suc d) b = {}"
  shows "tree_ok E' a (Suc d) b" and "nodes E' a (Suc d) b \<subseteq> nodes E a (Suc d) b \<union> N"
    and "r < a ^ Suc d \<Longrightarrow> leaf E' a (Suc d) b r =
      (if r div a ^ d = j then leaf E' a d c (r mod a ^ d) else leaf E a (Suc d) b r)"
proof -
  have same: "nodes E' a d (E b k) = nodes E a d (E b k)" "tree_ok E' a d (E b k)" if "k < a" "k \<noteq> j" for k
    using tree_cong [of E a d "E b k" E'] other that ok b by auto
  have sup: "nodes E a d (E b k) \<subseteq> nodes E a (Suc d) b" if "k < a" for k using that b by auto
  have cN: "b \<notin> nodes E' a d c"
    using ok b j sub(2) N root_in_nodes [OF b, of E a "Suc d"] by auto
  have dis: "nodes E' a d c \<inter> nodes E a d (E b k) = {}" if k: "k < a" "k \<noteq> j" for k
  proof -
    have "nodes E a d (E b j) \<inter> nodes E a d (E b k) = {}" using ok b j k by auto
    with sub(2) N sup [OF k(1)] show ?thesis by blast
  qed
  have new: "nodes E' a d (E' b k) = (if k = j then nodes E' a d c else nodes E a d (E b k))" if "k < a" for k
    using E' same(1) that by simp
  show "tree_ok E' a (Suc d) b"
  proof (simp only: tree_ok.simps, intro impI allI conjI)
    fix k assume k: "k < a"
    show "tree_ok E' a d (E' b k)" using E' same(2) sub(1) k by auto
    show "b \<notin> nodes E' a d (E' b k)" using new [OF k] cN ok b k by auto
    fix l assume l: "l < a" "l \<noteq> k"
    then show "nodes E' a d (E' b k) \<inter> nodes E' a d (E' b l) = {}"
      using new [OF k] new [OF l(1)] dis [OF k] dis [OF l(1)] ok b k by auto
  qed
  show "nodes E' a (Suc d) b \<subseteq> nodes E a (Suc d) b \<union> N"
  proof
    fix x assume "x \<in> nodes E' a (Suc d) b"
    then consider "x = b" | k where "k < a" "x \<in> nodes E' a d (E' b k)" using b by auto
    then show "x \<in> nodes E a (Suc d) b \<union> N"
    proof cases
      case 2
      then show ?thesis using new [OF 2(1)] sub(2) sup [OF j] sup [OF 2(1)] by (auto split: if_splits)
    qed (use b in simp)
  qed
  assume r: "r < a ^ Suc d"
  note r = digit_bounds [OF r]
  show "leaf E' a (Suc d) b r =
      (if r div a ^ d = j then leaf E' a d c (r mod a ^ d) else leaf E a (Suc d) b r)"
    using b r E' tree_cong(4) [of E a d "E b (r div a ^ d)" E' "r mod a ^ d"] other by auto
qed

end
