(* ===== verification/ExtMap.thy ===== *)
theory ExtMap
  imports ExtAlloc ExtSuper ExtInodeCache ExtTree
begin

text \<open>
  What the block map of an inode means. The blocks of a file are the leaves of four kinds of trees:
  the direct blocks, and the trees of depth one, two and three below the three indirect blocks. The
  reading half of block.c is shown to find the leaf of a file position.
\<close>

section \<open>The variables of the map\<close>

text \<open>The variables that \<open>precalculate_indirection\<close> sets, for blocks of \<open>bs\<close> bytes.\<close>

definition map_geometry :: "nat \<Rightarrow> 'c ext_state \<Rightarrow> bool" where
  "map_geometry bs s \<longleftrightarrow> block_size s = bs \<and> 1024 \<le> bs \<and> bs mod 4 = 0 \<and>
     sb_addr_in_block s = ucast (sb_block_size s) div 4 \<and>
     sb_addr_in_block2 s = sb_addr_in_block s * sb_addr_in_block s \<and>
     sb_doub_ind_s s = word_of_nat EXT2_NDIR_BLOCKS + sb_addr_in_block s \<and>
     sb_triple_ind_s s = sb_doub_ind_s s + sb_addr_in_block2 s \<and> sb_out_range_s s = 0xFFFF0000"

lemma map_geometryD:
  assumes "map_geometry bs s"
  defines "a \<equiv> bs div 4"
  shows "block_size s = bs" "1024 \<le> bs" "bs < 65536" "4 * a = bs" "256 \<le> a" "a < 16384"
    "unat (sb_addr_in_block s) = a" "unat (sb_addr_in_block2 s) = a * a"
    "unat (sb_doub_ind_s s) = 12 + a" "unat (sb_triple_ind_s s) = 12 + a + a * a"
    "sb_out_range_s s = 0xFFFF0000"
proof -
  have bs: "block_size s = bs" "1024 \<le> bs" "bs mod 4 = 0"
    and f: "sb_addr_in_block s = ucast (sb_block_size s) div 4"
    "sb_addr_in_block2 s = sb_addr_in_block s * sb_addr_in_block s"
    "sb_doub_ind_s s = 12 + sb_addr_in_block s" "sb_triple_ind_s s = sb_doub_ind_s s + sb_addr_in_block2 s"
    "sb_out_range_s s = 0xFFFF0000"
    using assms(1) by (simp_all add: map_geometry_def)
  have lt: "bs < 65536" using bs(1) unat_u16_lt by metis
  show "block_size s = bs" "1024 \<le> bs" "bs < 65536" using bs lt by simp_all
  show a4: "4 * a = bs" using bs(3) by (simp add: a_def) presburger
  show a: "256 \<le> a" "a < 16384" using a4 bs(2) lt by simp_all
  have aa: "a * a < 268435456"
    using mult_strict_mono [of a 16384 a 16384] a by simp
  show u1: "unat (sb_addr_in_block s) = a"
    unfolding f(1) using bs(1) by (simp add: unat_div a_def)
  show u2: "unat (sb_addr_in_block2 s) = a * a"
    unfolding f(2) using aa by (simp add: unat_word_ariths u1)
  show u3: "unat (sb_doub_ind_s s) = 12 + a"
    unfolding f(3) using a by (simp add: unat_word_ariths u1)
  show "unat (sb_triple_ind_s s) = 12 + a + a * a"
    unfolding f(4) using a aa by (simp add: unat_word_ariths u2 u3)
  show "sb_out_range_s s = 0xFFFF0000" by (rule f)
qed

text \<open>A mounted file system has them.\<close>

lemma read_superblock_geometry_size:
  assumes "read_superblock_geometry s = Some (0, s')"
  shows "block_size s' mod 512 = 0" and "1024 \<le> block_size s'"
  using assms by (auto simp: read_superblock_geometry_def Let_def not_less split: if_splits)

lemma read_superblock_map_geometry:
  fixes s :: "'c ext_state"
  assumes "read_superblock rd s = Some (0, s')"
  shows "map_geometry (block_size s') s'"
proof -
  have "\<exists>(g :: 'c ext_state) t u. read_superblock_geometry g = Some (0, t) \<and> s' = precalculate_indirection u \<and>
    block_size u = block_size t"
    using assms
    by (clarsimp simp: read_superblock_def Let_def bind_eq_Some_conv split_paired_Ex
          split: if_split_asm cong: conj_cong)
      (intro exI conjI, assumption, rule refl, simp)
  then obtain g t u :: "'c ext_state" where g: "read_superblock_geometry g = Some (0, t)"
    and s': "s' = precalculate_indirection u" "block_size u = block_size t"
    by blast
  note z = read_superblock_geometry_size [OF g]
  have "block_size t mod 4 = 0" using z(1) by presburger
  with s' z(2) show ?thesis
    by (auto simp: map_geometry_def precalculate_indirection_def Let_def)
qed


section \<open>The block numbers of a file\<close>

definition entry :: "'c block_cache \<Rightarrow> 'c ext_state \<Rightarrow> u32 \<Rightarrow> nat \<Rightarrow> u32" where
  "entry bc s b j = bswap4 (be_cpu s) (the (ld32 (be_cpu s) (block_data bc b s) (4 * j)))"

text \<open>Where the block number \<open>k\<close> of a file hangs: the slot of \<open>i_block\<close>, the depth and the leaf.\<close>

definition map_place :: "nat \<Rightarrow> nat \<Rightarrow> nat \<times> nat \<times> nat" where
  "map_place a k =
     (if k < 12 then (k, 0, 0)
      else if k < 12 + a then (12, 1, k - 12)
      else if k < 12 + a + a\<^sup>2 then (13, 2, k - 12 - a)
      else (14, 3, k - 12 - a - a\<^sup>2))"

text \<open>The block number \<open>k\<close> of the file of an inode.\<close>

definition map_block :: "'c block_cache \<Rightarrow> nat \<Rightarrow> 'c ext_state \<Rightarrow> nat \<Rightarrow> nat \<Rightarrow> u32" where
  "map_block bc bs s i k =
     (case map_place (bs div 4) k of (slot, d, r) \<Rightarrow>
        leaf (entry bc s) (bs div 4) d (i_block (odi (the_inode i s)) ! slot) r)"

text \<open>Every position of 32 bits has its place in trees of blocks of 1024 bytes and more.\<close>

lemma map_place_cases:
  assumes "map_place a k = (slot, d, r)" and "k < 4194304" and "256 \<le> a"
  shows "slot < 15" "d \<le> 3" "r < a ^ d" "d = 0 \<Longrightarrow> slot = k \<and> k < 12" "0 < d \<Longrightarrow> slot = 11 + d"
proof -
  have "k < a ^ 3"
  proof -
    have "(256 :: nat) ^ 3 \<le> a ^ 3" using assms(3) by (rule power_mono) simp
    with assms(2) show ?thesis by simp
  qed
  then show "slot < 15" "d \<le> 3" "r < a ^ d" "d = 0 \<Longrightarrow> slot = k \<and> k < 12" "0 < d \<Longrightarrow> slot = 11 + d"
    using assms(1) by (auto simp: map_place_def split: if_splits)
qed


section \<open>From positions to blocks\<close>

lemma word_div_nat:
  "x < 4294967296 \<Longrightarrow> y < 4294967296 \<Longrightarrow> word_of_nat x div word_of_nat y = (word_of_nat (x div y) :: u32)"
  by (simp add: word_unat_eq_iff unat_div unat_word_of_nat32 order.strict_trans1 [OF div_le_dividend])

lemma word_mod_nat:
  "x < 4294967296 \<Longrightarrow> y < 4294967296 \<Longrightarrow> word_of_nat x mod word_of_nat y = (word_of_nat (x mod y) :: u32)"
  by (simp add: word_unat_eq_iff unat_mod unat_word_of_nat32 order.strict_trans1 [OF mod_less_eq_dividend])

lemma calc_block_indirection_offsets_place:
  assumes g: "map_geometry bs s" and p: "p < 4294967296" and place: "map_place (bs div 4) (p div bs) = (slot, d, r)"
  shows "calc_block_indirection_offsets (word_of_nat p) s =
    Some (int d, word_of_nat slot # map word_of_nat (path (bs div 4) d r))"
proof -
  define a where "a = bs div 4"
  note G = map_geometryD [OF g, folded a_def] and pl = place [folded a_def]
  let ?k = "p div bs" and ?w = "word_of_nat p div ucast (sb_block_size s) :: u32"
  have k: "?k < 4194304" using p G(2) by (simp add: div_less_iff_less_mult)
  have w: "unat ?w = ?k" using p G(1) by (simp add: unat_div unat_word_of_nat32)
  have nz: "sb_block_size s \<noteq> 0" using G(1,2) by auto
  have word_nat_eq: "v = word_of_nat n" if "unat v = n" for v :: u32 and n
    using that by (metis word_unat_eq_iff unat_word_of_nat32 unat_u32_lt)
  have weq: "?w = word_of_nat ?k" using w k by (metis word_nat_eq)
  have aib: "sb_addr_in_block s = word_of_nat a" "sb_addr_in_block2 s = word_of_nat (a * a)"
    "sb_doub_ind_s s = word_of_nat (12 + a)" "sb_triple_ind_s s = word_of_nat (12 + a + a * a)"
    using G(7-10) by (metis word_nat_eq)+
  have rng: "\<not> sb_out_range_s s \<le> ?w" "?w < word_of_nat 12 \<longleftrightarrow> ?k < 12"
    "?w < sb_doub_ind_s s \<longleftrightarrow> ?k < 12 + a" "?w < sb_triple_ind_s s \<longleftrightarrow> ?k < 12 + a + a * a"
    using k by (simp_all add: word_le_nat_alt word_less_nat_alt w G)
  have nza: "sb_addr_in_block s \<noteq> 0" "sb_addr_in_block2 s \<noteq> 0" using G(5,7,8) by auto
  have aa: "a * a < 4294967296" using G(6) mult_strict_mono [of a 16384 a 16384] by simp
  have small: "n < 4294967296" if "n \<le> ?k \<or> n \<le> a * a \<or> n \<le> a" for n
    using that k G(6) aa by auto
  have sub: "word_of_nat ?k - word_of_nat n = (word_of_nat (?k - n) :: u32)" if "n \<le> ?k" for n
    using that by (simp add: of_nat_diff)
  have calc: "calc_block_indirection_offsets (word_of_nat p) s =
     (if ?k < 12 then Some (0, [?w])
      else if ?k < 12 + a then Some (1, [12, ?w - word_of_nat 12])
      else if ?k < 12 + a + a * a then
        Some (2, [13, (?w - sb_doub_ind_s s) div sb_addr_in_block s, (?w - sb_doub_ind_s s) mod sb_addr_in_block s])
      else Some (3, [14, (?w - sb_triple_ind_s s) div sb_addr_in_block2 s,
        ((?w - sb_triple_ind_s s) mod sb_addr_in_block2 s) div sb_addr_in_block s,
        ((?w - sb_triple_ind_s s) mod sb_addr_in_block2 s) mod sb_addr_in_block s]))"
    unfolding calc_block_indirection_offsets_def Let_def using nz nza rng by (simp only: if_False simp_thms)
  have path2: "path a 2 x = [x div a, x mod a]"
    and path3: "path a 3 x = [x div (a * a), x mod (a * a) div a, x mod (a * a) mod a]" for x
    by (simp_all add: eval_nat_numeral)
  consider "?k < 12" | "12 \<le> ?k" "?k < 12 + a" | "12 + a \<le> ?k" "?k < 12 + a + a * a" | "12 + a + a * a \<le> ?k"
    by linarith
  then have "calc_block_indirection_offsets (word_of_nat p) s =
      Some (int d, word_of_nat slot # map word_of_nat (path a d r))"
  proof cases
    case 1
    then show ?thesis using pl by (auto simp: calc map_place_def weq)
  next
    case 2
    then show ?thesis using pl by (auto simp: calc map_place_def weq sub of_nat_diff)
  next
    case 3
    then have e: "?w - sb_doub_ind_s s = word_of_nat (?k - (12 + a))"
      using sub [of "12 + a"] by (simp only: weq aib(3))
    from 3 pl have "slot = 13" "d = 2" "r = ?k - (12 + a)" by (auto simp: map_place_def power2_eq_square)
    with 3 show ?thesis by (simp add: calc e aib(1) path2 word_div_nat word_mod_nat small del: of_nat_diff of_nat_add of_nat_mult)
  next
    case 4
    then have e: "?w - sb_triple_ind_s s = word_of_nat (?k - (12 + a + a * a))"
      using sub [of "12 + a + a * a"] by (simp only: weq aib(4))
    have m: "x mod (a * a) < 4294967296" for x
      using small [of "x mod (a * a)"] G(5) by (simp add: less_imp_le)
    from 4 pl have "slot = 14" "d = 3" "r = ?k - (12 + a + a * a)" by (auto simp: map_place_def power2_eq_square)
    with 4 show ?thesis
      by (simp add: calc e aib(1,2) path3 word_div_nat word_mod_nat small m del: of_nat_diff of_nat_add of_nat_mult)
  qed
  then show ?thesis by (simp only: a_def)
qed



section \<open>Looking at blocks\<close>

text \<open>
  Between the operations every buffer has been given back, so that a block holds what is kept of it.
  \<open>looked s s'\<close>: only the bookkeeping of the cache has changed.
\<close>

definition settled :: "'c block_cache \<Rightarrow> ('c \<Rightarrow> u32 \<Rightarrow> bytes) \<Rightarrow> 'c ext_state \<Rightarrow> bool" where
  "settled bc kept s \<longleftrightarrow> bc_data bc (blocks s) = kept (blocks s)"

definition looked :: "'c block_cache \<Rightarrow> ('c \<Rightarrow> u32 \<Rightarrow> bytes) \<Rightarrow> 'c ext_state \<Rightarrow> 'c ext_state \<Rightarrow> bool" where
  "looked bc kept s s' \<longleftrightarrow> (\<exists>c. s' = s\<lparr>blocks := c\<rparr> \<and> bc_data bc c = bc_data bc (blocks s) \<and> kept c = kept (blocks s))"

lemma looked_refl: "looked bc kept s s"
  by (auto simp: looked_def intro: exI [of _ "blocks s"])

lemma looked_trans: "looked bc kept s s' \<Longrightarrow> looked bc kept s' s'' \<Longrightarrow> looked bc kept s s''"
  by (auto simp: looked_def)

lemma looked_settled: "looked bc kept s s' \<Longrightarrow> settled bc kept s' \<longleftrightarrow> settled bc kept s"
  by (auto simp: looked_def settled_def)

lemma looked_view:
  assumes "looked bc kept s s'"
  shows "entry bc s' = entry bc s" "the_inode i s' = the_inode i s" "map_geometry bs s' \<longleftrightarrow> map_geometry bs s"
    "be_cpu s' = be_cpu s" "block_data bc b s' = block_data bc b s" "map_block bc bs s' i = map_block bc bs s i"
    "find_inode ino s' = find_inode ino s" "sb_block_size s' = sb_block_size s"
proof -
  from assms obtain c where s': "s' = s\<lparr>blocks := c\<rparr>" and d: "bc_data bc c = bc_data bc (blocks s)"
    by (auto simp: looked_def)
  show "map_geometry bs s' \<longleftrightarrow> map_geometry bs s" by (simp add: map_geometry_def s')
  show e: "entry bc s' = entry bc s" by (simp add: fun_eq_iff entry_def block_data_def s' d)
  show i: "the_inode i s' = the_inode i s" by (simp add: the_inode_def s')
  then show "map_block bc bs s' i = map_block bc bs s i" by (simp add: fun_eq_iff map_block_def e)
  show "be_cpu s' = be_cpu s" "block_data bc b s' = block_data bc b s" "find_inode ino s' = find_inode ino s"
    "sb_block_size s' = sb_block_size s"
    by (simp_all add: s' block_data_def d find_inode_def the_inode_def)
qed

text \<open>A look into one block: the buffer is got for reading and put back.\<close>

lemma visit_block:
  assumes c: "block_cache_contract bc bs kept marked" and s: "settled bc kept s"
  obtains t where "get_block bc b BLK_READ s = Some t" "looked bc kept s t" "looked bc kept s (put_block bc b t)"
    "block_data bc b t = block_data bc b s"
proof -
  let ?t = "s\<lparr>blocks := snd (bc_get bc b BLK_READ (blocks s))\<rparr>"
  have "looked bc kept s ?t" by (auto simp: looked_def cache_get_read [OF c])
  moreover have "looked bc kept ?t (put_block bc b ?t)"
    using s by (auto simp: looked_def put_block_def settled_def cache_get_read [OF c] cache_put [OF c] fun_eq_iff)
  ultimately show ?thesis
    using cache_get_read(1) [OF c] by (intro that [of ?t]) (auto intro: looked_trans simp: looked_view)
qed

lemma read_entry:
  assumes c: "block_cache_contract bc bs kept marked" and "4 * j + 4 \<le> bs" and "bs < 4294967296"
  shows "read_indirect_block_entry bc b (word_of_nat j) s = Some (entry bc s b j)"
proof -
  have "unat (word_of_nat j :: u32) = j" using assms(2,3) by (intro unat_word_of_nat32) simp
  then show ?thesis
    using assms(2) by (simp add: read_indirect_block_entry_def entry_def ld32_def block_data_def cache_length [OF c])
qed

lemma read_map_walk_leaf:
  assumes c: "block_cache_contract bc bs kept marked" and "4 * a = bs" and "bs < 4294967296"
    and "settled bc kept s" and "r < a ^ d"
  shows "\<exists>s'. read_map_walk bc (map word_of_nat (path a d r)) b s = Some (leaf (entry bc s) a d b r, s') \<and>
    looked bc kept s s'"
  using assms(4,5)
proof (induction d arbitrary: b r s)
  case 0
  then show ?case by (auto intro: looked_refl)
next
  case (Suc d)
  show ?case
  proof (cases "b = NO_BLOCK")
    case True
    then show ?thesis by (auto intro: looked_refl)
  next
    case False
    obtain t where t: "get_block bc b BLK_READ s = Some t" "looked bc kept s t" "looked bc kept s (put_block bc b t)"
      by (rule visit_block [OF c Suc.prems(1)])
    note j = digit_bounds [OF Suc.prems(2)]
    have rd: "read_indirect_block_entry bc b (word_of_nat (r div a ^ d)) t = Some (entry bc s b (r div a ^ d))"
      using read_entry [OF c, of "r div a ^ d"] j(1) assms(2,3) looked_view(1) [OF t(2)] by simp
    have "settled bc kept (put_block bc b t)" using looked_settled [OF t(3)] Suc.prems(1) by simp
    then obtain s' where s': "read_map_walk bc (map word_of_nat (path a d (r mod a ^ d))) (entry bc s b (r div a ^ d))
          (put_block bc b t) = Some (leaf (entry bc s) a d (entry bc s b (r div a ^ d)) (r mod a ^ d), s')"
      "looked bc kept (put_block bc b t) s'"
      using Suc.IH [of "put_block bc b t" "r mod a ^ d" "entry bc s b (r div a ^ d)"] j(2) looked_view(1) [OF t(3)] by auto
    with False t(1) rd looked_trans [OF t(3) s'(2)] show ?thesis by simp
  qed
qed

text \<open>\<open>read_map_entry\<close> finds the block of a position; the state is only looked at.\<close>

lemma read_map_entry_block:
  assumes c: "block_cache_contract bc bs kept marked" and g: "map_geometry bs s" and s: "settled bc kept s"
    and p: "p < 4294967296" and w: "ucast w = (word_of_nat p :: u32)"
  obtains s' where "read_map_entry bc i w s = Some (map_block bc bs s i (p div bs), s')" "looked bc kept s s'"
proof -
  define a where "a = bs div 4"
  note G = map_geometryD [OF g, folded a_def]
  obtain slot d r where pl: "map_place a (p div bs) = (slot, d, r)" by (metis prod_cases3)
  have k: "p div bs < 4194304" using p G(2) by (simp add: div_less_iff_less_mult)
  note P = map_place_cases [OF pl k G(5)]
  have calc: "calc_block_indirection_offsets (ucast w) s = Some (int d, word_of_nat slot # map word_of_nat (path a d r))"
    unfolding w a_def by (rule calc_block_indirection_offsets_place [OF g p pl [unfolded a_def]])
  have slot: "unat (word_of_nat slot :: u32) = slot" using P(1) by (intro unat_word_of_nat32) simp
  show ?thesis
  proof (cases "d = 0")
    case True
    then show ?thesis
      using that [OF _ looked_refl] calc slot P(4)
      by (simp add: read_map_entry_def map_block_def pl [unfolded a_def])
  next
    case False
    then have "toplevel_slot d = Some slot" using P(2,5) by (auto simp: toplevel_slot_def)
    then have top: "get_toplevel_indirect_block_entry i (nat (int d)) s = Some (i_block (odi (the_inode i s)) ! slot)"
      by (simp add: get_toplevel_indirect_block_entry_def)
    obtain s' where "read_map_walk bc (map word_of_nat (path a d r)) (i_block (odi (the_inode i s)) ! slot) s =
        Some (leaf (entry bc s) a d (i_block (odi (the_inode i s)) ! slot) r, s')" "looked bc kept s s'"
      using read_map_walk_leaf [OF c G(4) _ s P(3)] G(3) by force
    with that [of s'] top calc False show ?thesis
      by (simp add: read_map_entry_def map_block_def pl [unfolded a_def] a_def)
  qed
qed

end
