(* ===== verification/ExtRead.thy ===== *)
theory ExtRead
  imports ExtFile ExtMap
begin

text \<open>
  What \<open>read_file\<close> of read.c sends: the bytes of the file, which are those of the blocks its map
  names, and zeros where the map has a hole.
\<close>

section \<open>The bytes of a file\<close>

definition ext_byte :: "'c block_cache \<Rightarrow> nat \<Rightarrow> 'c ext_state \<Rightarrow> nat \<Rightarrow> nat \<Rightarrow> byte" where
  "ext_byte bc bs s i p =
     (let b = map_block bc bs s i (p div bs)
      in if b = NO_BLOCK then 0 else block_data bc b s ! (p mod bs))"

definition ext_size :: "'c ext_state \<Rightarrow> nat \<Rightarrow> nat" where
  "ext_size s i = unat (i_size (odi (the_inode i s)))"

definition ext_content :: "'c block_cache \<Rightarrow> nat \<Rightarrow> 'c ext_state \<Rightarrow> nat \<Rightarrow> bytes" where
  "ext_content bc bs s i = map (ext_byte bc bs s i) [0..<ext_size s i]"

lemma looked_content:
  assumes "looked bc kept s s'"
  shows "ext_byte bc bs s' i = ext_byte bc bs s i" "ext_size s' i = ext_size s i"
    "ext_content bc bs s' i = ext_content bc bs s i"
  by (simp_all add: fun_eq_iff ext_byte_def ext_size_def ext_content_def Let_def looked_view [OF assms])

lemma slice_content:
  "p \<le> q \<Longrightarrow> q \<le> ext_size s i \<Longrightarrow>
   take (q - p) (drop p (ext_content bc bs s i)) = map (ext_byte bc bs s i) [p..<q]"
  by (simp add: ext_content_def take_map drop_map)

text \<open>What the messages put into the client's buffer, one after the other from an offset on.\<close>

fun gathered :: "nat \<Rightarrow> ipc_out list \<Rightarrow> bytes option" where
  "gathered off [] = Some []"
| "gathered off (WriteBytes d at # out) =
     (if at = off then map_option ((@) d) (gathered (off + length d) out) else None)"
| "gathered off (_ # out) = None"

lemma gathered_append:
  "gathered off out = Some d \<Longrightarrow> gathered off (out @ out') = map_option ((@) d) (gathered (off + length d) out')"
  by (induction off out arbitrary: d rule: gathered.induct)
    (auto simp: map_option_case add.assoc split: if_splits option.splits)

lemma read_nonexistent_block_zeros:
  assumes "\<forall>m n. wm m n = int n"
  shows "\<exists>out'. read_nonexistent_block wm m n out = (0, out @ out') \<and> gathered m out' = Some (replicate n 0)"
proof (induction n arbitrary: m out rule: less_induct)
  case (less n)
  show ?case
  proof (cases "n = 0")
    case True
    then show ?thesis by (simp add: read_nonexistent_block.simps [of wm m 0 out])
  next
    case False
    let ?k = "if n < 4096 then n else 4096"
    from False less.IH [of "n - ?k" "m + ?k" "out @ [WriteBytes (replicate ?k 0) m]"]
    obtain out' where r: "read_nonexistent_block wm (m + ?k) (n - ?k) (out @ [WriteBytes (replicate ?k 0) m]) =
        (0, (out @ [WriteBytes (replicate ?k 0) m]) @ out')" "gathered (m + ?k) out' = Some (replicate (n - ?k) 0)"
      by (auto split: if_splits)
    have "gathered m (WriteBytes (replicate ?k 0) m # out') = Some (replicate n 0)"
      using r(2) by (auto simp: replicate_add [symmetric])
    with r(1) False assms show ?thesis
      by (subst read_nonexistent_block.simps) (auto simp: Let_def)
  qed
qed


section \<open>One chunk\<close>

lemma cache_readahead:
  assumes "block_cache_contract bc bs kept marked"
  obtains c' where "bc_get_readahead bc b c = (True, c')" "bc_data bc c' = bc_data bc c" "kept c' = kept c"
  using assms by (auto simp: block_cache_contract_def prod_eq_iff)

lemma put_looked:
  assumes "block_cache_contract bc bs kept marked" and "settled bc kept s"
  shows "looked bc kept s (put_block bc b s)"
  using assms(2) cache_put(2,3) [OF assms(1), of b "blocks s"]
  by (auto simp: looked_def put_block_def settled_def)

lemma read_chunk_bytes:
  assumes c: "block_cache_contract bc bs kept marked" and g: "map_geometry bs s" and s: "settled bc kept s"
    and wm: "\<forall>m n. wm m n = int n" and n: "p mod bs + n \<le> bs" and p: "p < 4294967296"
  obtains s' out where "read_chunk bc wm i (int p) (word_of_nat (p mod bs)) (word_of_nat n) off s = Some (0, out, s')"
    "looked bc kept s s'" "gathered (unat off) out = Some (map (ext_byte bc bs s i) [p..<p + n])"
proof -
  note G = map_geometryD [OF g]
  let ?b = "map_block bc bs s i (p div bs)"
  have w: "ucast (word_of_int (int p) :: 64 word) = (word_of_nat p :: u32)"
    using p by (simp add: unsigned_ucast_eq word_unat_eq_iff unsigned_of_nat take_bit_eq_mod)
  obtain t where t: "read_map_entry bc i (word_of_int (int p)) s = Some (?b, t)" "looked bc kept s t"
    by (rule read_map_entry_block [OF c g s p w])
  have un: "unat (word_of_nat n :: u32) = n" "unat (word_of_nat (p mod bs) :: u32) = p mod bs"
    using n G(3) by (auto intro!: unat_word_of_nat32)
  have dm: "q div bs = p div bs" "q mod bs = p mod bs + (q - p)" if "p \<le> q" "q < p + n" for q
  proof -
    have q: "q = p div bs * bs + (p mod bs + (q - p))" using that(1) by simp
    have lt: "p mod bs + (q - p) < bs" using that n by linarith
    show "q div bs = p div bs" by (subst q, subst div_mult_self3) (use lt in auto)
    show "q mod bs = p mod bs + (q - p)" by (subst q, subst mod_mult_self3) (use lt in auto)
  qed
  show ?thesis
  proof (cases "?b = NO_BLOCK")
    case True
    obtain out where out: "read_nonexistent_block wm (unat off) n [] = (0, out)"
        "gathered (unat off) out = Some (replicate n 0)"
      using read_nonexistent_block_zeros [OF wm, of "unat off" n "[]"] by auto
    have "map (ext_byte bc bs s i) [p..<p + n] = replicate n 0"
    proof (rule nth_equalityI)
      fix q assume "q < length (map (ext_byte bc bs s i) [p..<p + n])"
      then show "map (ext_byte bc bs s i) [p..<p + n] ! q = replicate n 0 ! q"
        using dm [of "p + q"] True by (simp add: ext_byte_def)
    qed simp
    with that [of out t] t True out un show ?thesis by (simp add: read_chunk_def)
  next
    case False
    obtain c' where ra: "bc_get_readahead bc ?b (blocks t) = (True, c')" "bc_data bc c' = bc_data bc (blocks t)"
      "kept c' = kept (blocks t)"
      by (rule cache_readahead [OF c])
    let ?u = "put_block bc ?b (t\<lparr>blocks := c'\<rparr>)"
    have l: "looked bc kept s (t\<lparr>blocks := c'\<rparr>)"
      using ra(2,3) by (intro looked_trans [OF t(2)]) (auto simp: looked_def)
    have u: "looked bc kept s ?u"
      by (rule looked_trans [OF l put_looked [OF c]]) (simp add: looked_settled [OF l] s)
    have d: "block_data bc ?b (t\<lparr>blocks := c'\<rparr>) = block_data bc ?b s" by (rule looked_view(5) [OF l])
    have len: "length (block_data bc ?b s) = bs" by (simp add: block_data_def cache_length [OF c])
    have "map (ext_byte bc bs s i) [p..<p + n] = slice (p mod bs) n (block_data bc ?b s)"
    proof (rule nth_equalityI)
      fix q assume "q < length (map (ext_byte bc bs s i) [p..<p + n])"
      then have q: "q < n" by simp
      then have "ext_byte bc bs s i (p + q) = block_data bc ?b s ! (p mod bs + q)"
        using dm [of "p + q"] False by (simp add: ext_byte_def)
      then show "map (ext_byte bc bs s i) [p..<p + n] ! q = slice (p mod bs) n (block_data bc ?b s) ! q"
        using q n len by (simp add: slice_def)
    qed (use n len in simp)
    with that [of "[WriteBytes (slice (p mod bs) n (block_data bc ?b s)) (unat off)]" ?u] t(1) u False wm un n len
    show ?thesis by (simp add: read_chunk_def ra(1) d Let_def)
  qed
qed



section \<open>The loop\<close>

text \<open>
  Where a read of \<open>n\<close> bytes from \<open>p\<close> stops, but for the end of the file: a chunk is never cut to
  what is still wanted, so that a read which passes the end of a block goes on to the end of its last
  block or, when it is shorter than a block, takes the whole number of bytes again from there.
\<close>

definition read_end :: "nat \<Rightarrow> nat \<Rightarrow> nat \<Rightarrow> nat" where
  "read_end bs p n =
     (if p mod bs + n \<le> bs then p + n
      else if n < bs then (p div bs + 1) * bs + n
      else (p + n + bs - 1) div bs * bs)"

lemma blocks_up_step: "0 < (bs :: nat) \<Longrightarrow> (x + bs + bs - 1) div bs = Suc ((x + bs - 1) div bs)"
proof -
  assume b: "0 < bs"
  then have "x + bs + bs - 1 = (x + bs - 1) + bs" by simp
  with b show ?thesis by (simp only: div_add_self2)
qed

lemma blocks_up_mult: "0 < (bs :: nat) \<Longrightarrow> (m * bs + n + bs - 1) div bs = m + (n + bs - 1) div bs"
proof -
  assume b: "0 < bs"
  then have "(m * bs + n + bs - 1) div bs = ((n + bs - 1) + m * bs) div bs" by (intro arg_cong [of _ _ "\<lambda>x. x div bs"]) linarith
  also have "\<dots> = m + (n + bs - 1) div bs" using b by (intro div_mult_self1) simp
  finally show ?thesis .
qed

lemma read_end_bounds:
  assumes "0 < bs"
  shows "p + n \<le> read_end bs p n" and "read_end bs p n < p + n + bs"
    and "p mod bs + n \<le> bs \<or> bs \<le> n \<and> bs dvd p + n \<Longrightarrow> read_end bs p n = p + n"
proof -
  have p: "p div bs * bs + p mod bs = p" by simp
  have r: "p mod bs < bs" using assms by simp
  have up: "x \<le> (x + bs - 1) div bs * bs" "(x + bs - 1) div bs * bs < x + bs" for x
    using ALIGN_UP_ge [OF assms, of x] assms div_times_less_eq_dividend [of "x + bs - 1" bs]
    by (simp add: ALIGN_UP_def, linarith)
  have "p < bs + p div bs * bs" "n < bs \<Longrightarrow> \<not> p mod bs + n \<le> bs \<Longrightarrow> p div bs * bs < p"
    using p r by linarith+
  then show "p + n \<le> read_end bs p n" "read_end bs p n < p + n + bs"
    using up [of "p + n"] assms by (auto simp: read_end_def)
  assume "p mod bs + n \<le> bs \<or> bs \<le> n \<and> bs dvd p + n"
  moreover have "(p + n + bs - 1) div bs * bs = p + n" if "bs dvd p + n"
  proof -
    from that obtain m where m: "p + n = m * bs" by (metis dvd_def mult.commute)
    with blocks_up_mult [OF assms, of m 0] assms show ?thesis by simp
  qed
  ultimately show "read_end bs p n = p + n" by (auto simp: read_end_def)
qed

definition reads_to ::
    "'c block_cache \<Rightarrow> ('c \<Rightarrow> u32 \<Rightarrow> bytes) \<Rightarrow> nat \<Rightarrow> nat \<Rightarrow> nat \<Rightarrow> nat \<Rightarrow> nat \<Rightarrow> ipc_out list \<Rightarrow> 'c ext_state \<Rightarrow>
     (int \<times> u32 \<times> ipc_out list \<times> 'c ext_state) option \<Rightarrow> bool" where
  "reads_to bc kept bs i q sent p out s R \<longleftrightarrow>
     (\<exists>out' s'. R = Some (0, word_of_nat (sent + (q - p)), out @ out', s') \<and> looked bc kept s s' \<and>
        gathered sent out' = Some (map (ext_byte bc bs s i) [p..<q]))"

lemma read_file_loop_stop:
  assumes "map_geometry bs s" and "unat n \<le> sent \<or> sz \<le> p" and "sent < 4294967296"
  shows "reads_to bc kept bs i p sent p out s (read_file_loop bc wm i (int sz) n (word_of_nat sent) (int p) out s)"
proof -
  have "sb_block_size s \<noteq> 0" using map_geometryD(1,2) [OF assms(1)] by auto
  then have "read_file_loop bc wm i (int sz) n (word_of_nat sent) (int p) out s = Some (0, word_of_nat sent, out, s)"
    using assms(2,3) by (subst read_file_loop.simps) (auto simp: word_less_nat_alt unat_word_of_nat32 Let_def)
  then show ?thesis by (auto simp: reads_to_def intro: looked_refl)
qed

lemma read_file_loop_step:
  assumes c: "block_cache_contract bc bs kept marked" and g: "map_geometry bs s" and s: "settled bc kept s"
    and wm: "\<forall>m n. wm m n = int n" and lt: "sent < unat n" "p < sz" "sent \<le> p" "sz < 4294967296"
    and k: "k = min (min (unat n) (bs - p mod bs)) (sz - p)" and q: "p + k \<le> q"
    and rest: "\<And>s' out. looked bc kept s s' \<Longrightarrow> reads_to bc kept bs i q (sent + k) (p + k) out s'
      (read_file_loop bc wm i (int sz) n (word_of_nat (sent + k)) (int (p + k)) out s')"
  shows "reads_to bc kept bs i q sent p out s (read_file_loop bc wm i (int sz) n (word_of_nat sent) (int p) out s)"
proof -
  note G = map_geometryD [OF g]
  have r: "p mod bs < bs" using G(2) by simp
  have nz: "sb_block_size s \<noteq> 0" using G(1,2) by auto
  have off: "offset_in_block (int p) (block_size s) = word_of_nat (p mod bs)"
    by (simp add: offset_in_block_def G(1)) (metis of_int_of_nat_eq of_nat_mod)
  have u: "unat (word_of_nat x :: u32) = x" if "x \<le> bs" for x
    using that G(3) by (intro unat_word_of_nat32) simp
  have bw: "ucast (sb_block_size s) = (word_of_nat bs :: u32)"
    using G(1,3) by (simp add: word_unat_eq_iff u)
  have ch: "(word_of_nat bs :: u32) - word_of_nat (p mod bs) = word_of_nat (bs - p mod bs)"
    using r by simp
  define c1 where "c1 = min (unat n) (bs - p mod bs)"
  have c1: "(if n < word_of_nat (bs - p mod bs) then n else word_of_nat (bs - p mod bs)) = (word_of_nat c1 :: u32)"
    by (auto simp: c1_def word_less_nat_alt u min_def)
  have ui: "uint (word_of_nat x :: u32) = int x" if "x \<le> bs" for x
    using u [OF that] by (metis uint_nat)
  have c1b: "c1 \<le> bs" and k1: "k = min c1 (sz - p)" by (simp_all add: c1_def k)
  have c2: "(if int (sz - p) < uint (word_of_nat c1 :: u32) then word_of_int (int (sz - p)) else word_of_nat c1)
      = (word_of_nat k :: u32)"
    using k1 by (simp add: ui [OF c1b] min_def del: of_nat_diff)
  have kb: "p mod bs + k \<le> bs" "k \<le> bs" using r by (auto simp: k)
  have p32: "p < 4294967296" using lt by simp
  have tw: "unat (word_of_nat sent :: u32) = sent" using lt by (intro unat_word_of_nat32) simp
  obtain s' o1 where rd: "read_chunk bc wm i (int p) (word_of_nat (p mod bs)) (word_of_nat k) (word_of_nat sent) s =
      Some (0, o1, s')" "looked bc kept s s'" "gathered sent o1 = Some (map (ext_byte bc bs s i) [p..<p + k])"
    by (rule read_chunk_bytes [OF c g s wm kb(1) p32, of i "word_of_nat sent"]) (simp add: tw)
  have go: "word_of_nat sent < n \<longleftrightarrow> True" "int sz \<le> int p \<longleftrightarrow> False" "int sz - int p = int (sz - p)"
    "(0 :: int) \<noteq> 0 \<longleftrightarrow> False"
    using lt by (simp_all add: word_less_nat_alt tw)
  have step: "word_of_nat sent + word_of_nat k = (word_of_nat (sent + k) :: u32)"
    "int p + uint (word_of_nat k :: u32) = int (p + k)"
    by (simp_all add: ui kb)
  have "read_file_loop bc wm i (int sz) n (word_of_nat sent) (int p) out s =
      read_file_loop bc wm i (int sz) n (word_of_nat (sent + k)) (int (p + k)) (out @ o1) s'"
    by (subst read_file_loop.simps)
      (simp only: go nz off bw ch c1 c2 rd(1) Let_def Option.bind.simps prod.case if_True if_False simp_thms
         step)
  moreover obtain o2 s2 where "read_file_loop bc wm i (int sz) n (word_of_nat (sent + k)) (int (p + k)) (out @ o1) s' =
      Some (0, word_of_nat (sent + k + (q - (p + k))), (out @ o1) @ o2, s2)" "looked bc kept s' s2"
      "gathered (sent + k) o2 = Some (map (ext_byte bc bs s i) [p + k..<q])"
    using rest [OF rd(2), of "out @ o1"] unfolding reads_to_def looked_content [OF rd(2)] by blast
  moreover have "map (ext_byte bc bs s i) [p..<p + k] @ map (ext_byte bc bs s i) [p + k..<q] =
      map (ext_byte bc bs s i) [p..<q]"
    using q upt_add_eq_append [of p "p + k" "q - (p + k)"] by (simp flip: map_append)
  ultimately show ?thesis
    using q looked_trans [OF rd(2)] gathered_append [OF rd(3), of o2]
    by (simp add: reads_to_def)
qed


lemma read_file_loop_blocks:
  assumes c: "block_cache_contract bc bs kept marked" and wm: "\<forall>m n. wm m n = int n"
    and n: "bs \<le> unat n" and sz: "sz < 4294967296"
  shows "map_geometry bs s \<Longrightarrow> settled bc kept s \<Longrightarrow> bs dvd p \<Longrightarrow> p \<le> sz \<Longrightarrow> sent \<le> p \<Longrightarrow>
    reads_to bc kept bs i (min sz (p + (unat n - sent + bs - 1) div bs * bs)) sent p out s
      (read_file_loop bc wm i (int sz) n (word_of_nat sent) (int p) out s)"
proof (induction "unat n - sent" arbitrary: s p sent out rule: less_induct)
  case less
  note G = map_geometryD [OF less.prems(1)]
  have b0: "0 < bs" using G(2) by simp
  show ?case
  proof (cases "unat n \<le> sent \<or> sz \<le> p")
    case True
    then have "min sz (p + (unat n - sent + bs - 1) div bs * bs) = p" using less.prems(4) b0 by auto
    then show ?thesis
      using read_file_loop_stop [OF less.prems(1) True] less.prems(4,5) sz by simp
  next
    case False
    let ?k = "min (min (unat n) (bs - p mod bs)) (sz - p)"
    have k: "?k = min bs (sz - p)" using less.prems(3) n by (simp add: dvd_imp_mod_0 min_def)
    let ?r = "unat n - sent"
    have up: "(?r + bs - 1) div bs = Suc ((?r - bs + bs - 1) div bs)"
    proof (cases "?r \<le> bs")
      case True
      have "(?r + bs - 1) div bs = 1" using True False b0
        by (intro div_nat_eqI) auto
      with True b0 show ?thesis by simp
    next
      case False
      then have "?r + bs - 1 = (?r - bs) + bs + bs - 1" by linarith
      then show ?thesis using blocks_up_step [OF b0, of "?r - bs"] by (simp only:)
    qed
    let ?q = "min sz (p + (?r + bs - 1) div bs * bs)"
    have q: "p + ?k \<le> ?q" using up False by (auto simp: k)
    show ?thesis
    proof (rule read_file_loop_step [OF c less.prems(1,2) wm _ _ less.prems(5) sz refl q])
      show "sent < unat n" "p < sz" using False by auto
      fix s' out assume l: "looked bc kept s s'"
      have g': "map_geometry bs s'" "settled bc kept s'"
        using less.prems(1,2) looked_view(3) [OF l] looked_settled [OF l] by auto
      show "reads_to bc kept bs i ?q (sent + ?k) (p + ?k) out s'
        (read_file_loop bc wm i (int sz) n (word_of_nat (sent + ?k)) (int (p + ?k)) out s')"
      proof (cases "sz - p \<le> bs")
        case True
        then have e: "p + ?k = sz" using k False by simp
        have qk: "?q = p + ?k" using e q by linarith
        have "sent + ?k < 4294967296" using e less.prems(5) sz by linarith
        moreover have "unat n \<le> sent + ?k \<or> sz \<le> p + ?k" by (simp only: e) simp
        ultimately show ?thesis unfolding qk by (intro read_file_loop_stop [OF g'(1)])
      next
        case big: False
        then have kb: "?k = bs" using k by simp
        have "min sz (p + bs + (unat n - (sent + bs) + bs - 1) div bs * bs) = ?q"
          using up by (simp add: algebra_simps)
        moreover have "reads_to bc kept bs i (min sz (p + bs + (unat n - (sent + bs) + bs - 1) div bs * bs)) (sent + bs)
            (p + bs) out s' (read_file_loop bc wm i (int sz) n (word_of_nat (sent + bs)) (int (p + bs)) out s')"
          by (rule less.hyps) (use False big g' less.prems b0 in auto)
        ultimately show ?thesis by (simp only: kb)
      qed
    qed
  qed
qed

lemma read_file_loop_short:
  assumes c: "block_cache_contract bc bs kept marked" and wm: "\<forall>m n. wm m n = int n" and sz: "sz < 4294967296"
    and g: "map_geometry bs s" and s: "settled bc kept s" and dvd: "bs dvd p"
    and lt: "unat n \<le> bs" "sent < unat n" "p < sz" "sent \<le> p"
  shows "reads_to bc kept bs i (min sz (p + unat n)) sent p out s
    (read_file_loop bc wm i (int sz) n (word_of_nat sent) (int p) out s)"
proof -
  let ?k = "min (min (unat n) (bs - p mod bs)) (sz - p)"
  have k: "?k = min (unat n) (sz - p)" using dvd lt(1) by (simp add: dvd_imp_mod_0)
  have q: "min sz (p + unat n) = p + ?k" unfolding k using lt(3) by linarith
  show ?thesis
    unfolding q
  proof (rule read_file_loop_step [OF c g s wm lt(2,3,4) sz refl order.refl])
    fix s' out assume l: "looked bc kept s s'"
    have "sent + ?k < 4294967296" unfolding k using lt(3,4) sz by linarith
    moreover have "unat n \<le> sent + ?k \<or> sz \<le> p + ?k" unfolding k by linarith
    ultimately show "reads_to bc kept bs i (p + ?k) (sent + ?k) (p + ?k) out s'
        (read_file_loop bc wm i (int sz) n (word_of_nat (sent + ?k)) (int (p + ?k)) out s')"
      using looked_view(3) [OF l] g by (intro read_file_loop_stop) auto
  qed
qed

lemma read_file_loop_bytes:
  assumes c: "block_cache_contract bc bs kept marked" and g: "map_geometry bs s" and s: "settled bc kept s"
    and wm: "\<forall>m n. wm m n = int n" and sz: "sz < 4294967296" and p: "p \<le> sz"
  shows "reads_to bc kept bs i (min sz (read_end bs p (unat n))) 0 p out s
    (read_file_loop bc wm i (int sz) n 0 (int p) out s)"
proof (cases "unat n = 0 \<or> sz = p")
  case True
  have "0 < bs" using map_geometryD(2) [OF g] by simp
  then have "min sz (read_end bs p (unat n)) = p"
    using True p read_end_bounds(1) [of bs p "unat n"] by (auto simp: read_end_def)
  with read_file_loop_stop [OF g, of n 0 sz p] True show ?thesis by auto
next
  case False
  note G = map_geometryD [OF g]
  have b0: "0 < bs" using G(2) by simp
  have r: "p mod bs < bs" using b0 by simp
  let ?q = "min sz (read_end bs p (unat n))"
  let ?k = "min (min (unat n) (bs - p mod bs)) (sz - p)"
  have view: "map_geometry bs s'" "settled bc kept s'" if "looked bc kept s s'" for s'
    using g s looked_view(3) [OF that] looked_settled [OF that] by auto
  have e: "(p div bs + 1) * bs = p + (bs - p mod bs)"
  proof -
    have "p div bs * bs + p mod bs = p" by simp
    then have "p div bs * bs + bs = p + (bs - p mod bs)" using r by linarith
    then show ?thesis by simp
  qed
  have n0: "0 < unat n" and pz: "p < sz" using False p by auto
  have first: "reads_to bc kept bs i ?q 0 p out s (read_file_loop bc wm i (int sz) n 0 (int p) out s)"
    if "\<And>s' out. looked bc kept s s' \<Longrightarrow> reads_to bc kept bs i ?q (0 + ?k) (p + ?k) out s'
      (read_file_loop bc wm i (int sz) n (word_of_nat (0 + ?k)) (int (p + ?k)) out s')" and "p + ?k \<le> ?q"
    using read_file_loop_step [OF c g s wm n0 pz _ sz refl that(2) that(1)] by simp
  have k32: "0 + ?k < 4294967296" using sz by auto
  consider "p + ?k = ?q" "unat n \<le> 0 + ?k \<or> sz \<le> p + ?k"
    | "?k = bs - p mod bs" "p + (bs - p mod bs) < sz" "bs < p mod bs + unat n"
  proof (cases "p mod bs + unat n \<le> bs")
    case True
    then have "?k = min (unat n) (sz - p)" by simp
    with True show ?thesis using that(1) pz by (cases "unat n \<le> sz - p") (auto simp: read_end_def)
  next
    case over: False
    show ?thesis
    proof (cases "sz \<le> p + (bs - p mod bs)")
      case True
      then have "?k = sz - p" using over by auto
      moreover have "sz \<le> read_end bs p (unat n)" using True over read_end_bounds(1) [OF b0, of p "unat n"] by linarith
      ultimately show ?thesis using that(1) pz by auto
    next
      case False
      then show ?thesis using that(2) over by auto
    qed
  qed
  then show ?thesis
  proof cases
    case 1
    show ?thesis
      by (rule first, unfold 1(1) [symmetric]) (use read_file_loop_stop [OF view(1) 1(2) k32] in auto)
  next
    case 2
    let ?e = "p + (bs - p mod bs)"
    have over: "read_end bs p (unat n) =
        (if unat n < bs then ?e + unat n else ?e + (unat n - (bs - p mod bs) + bs - 1) div bs * bs)"
    proof (cases "unat n < bs")
      case False
      have "p + unat n = (p div bs + 1) * bs + (unat n - (bs - p mod bs))" using e 2(3) r by linarith
      then have "(p + unat n + bs - 1) div bs * bs = (p div bs + 1) * bs + (unat n - (bs - p mod bs) + bs - 1) div bs * bs"
        using blocks_up_mult [OF b0, of "p div bs + 1" "unat n - (bs - p mod bs)"]
        by (simp only: add_mult_distrib)
      with False 2(3) e show ?thesis by (simp add: read_end_def)
    qed (use 2(3) e in \<open>simp add: read_end_def\<close>)
    have "bs dvd ?e" unfolding e [symmetric] by simp
    show ?thesis
    proof (rule first, unfold 2(1))
      show "?e \<le> ?q" using over 2(2) by auto
      fix s' out assume l: "looked bc kept s s'"
      show "reads_to bc kept bs i ?q (0 + (bs - p mod bs)) ?e out s'
        (read_file_loop bc wm i (int sz) n (word_of_nat (0 + (bs - p mod bs))) (int ?e) out s')"
      proof (cases "unat n < bs")
        case False
        then show ?thesis
          using read_file_loop_blocks [OF c wm _ sz view(1,2) [OF l] \<open>bs dvd ?e\<close>, of n "bs - p mod bs"] over 2(2)
          by simp
      next
        case True
        have "reads_to bc kept bs i (min sz (?e + unat n)) (0 + (bs - p mod bs)) ?e out s'
            (read_file_loop bc wm i (int sz) n (word_of_nat (0 + (bs - p mod bs))) (int ?e) out s')"
          using 2(2,3) r True by (intro read_file_loop_short [OF c wm sz view [OF l] \<open>bs dvd ?e\<close>]) linarith+
        with True over show ?thesis by simp
      qed
    qed
  qed
qed



section \<open>What a read delivers\<close>

text \<open>A change of the bookkeeping fields of a cached inode leaves every file as it is.\<close>

lemma upd_inode_content:
  assumes "\<And>n. odi (f n) = odi n"
  shows "map_block bc bs (upd_inode i f s) j = map_block bc bs s j"
    "ext_byte bc bs (upd_inode i f s) j = ext_byte bc bs s j"
    "ext_size (upd_inode i f s) j = ext_size s j" "ext_content bc bs (upd_inode i f s) j = ext_content bc bs s j"
proof -
  have o: "odi (the_inode j (upd_inode i f s)) = odi (the_inode j s)"
    by (cases "i < length (inode_cache s)"; cases "j = i") (simp_all add: the_inode_def upd_inode_def assms not_less list_update_beyond)
  have e: "entry bc (upd_inode i f s) = entry bc s" "block_data bc b (upd_inode i f s) = block_data bc b s" for b
    by (simp_all add: fun_eq_iff entry_def block_data_def upd_inode_def)
  show m: "map_block bc bs (upd_inode i f s) j = map_block bc bs s j"
    by (simp add: fun_eq_iff map_block_def e o)
  then show "ext_byte bc bs (upd_inode i f s) j = ext_byte bc bs s j"
    by (simp add: fun_eq_iff ext_byte_def e Let_def)
  then show "ext_content bc bs (upd_inode i f s) j = ext_content bc bs s j"
    "ext_size (upd_inode i f s) j = ext_size s j"
    by (simp_all add: ext_content_def ext_size_def o)
qed

lemma read_file_bytes:
  assumes c: "block_cache_contract bc bs kept marked" and g: "map_geometry bs s" and s: "settled bc kept s"
    and i: "find_inode ino s = Some (Some i)" and wm: "\<forall>m n. wm m n = int n"
    and n: "unat n + bs < 2147483648" and q: "q = min (ext_size s i) (read_end bs p (unat n))"
  obtains out s' where "read_file bc wm ino n (int p) s = Some (int (q - p), out, s')"
    "gathered 0 out = Some (take (q - p) (drop p (ext_content bc bs s i)))"
    "\<And>j. ext_content bc bs s' j = ext_content bc bs s j"
proof -
  let ?sz = "ext_size s i"
  have sz: "?sz < 4294967296" by (simp add: ext_size_def)
  have b0: "0 < bs" using map_geometryD(2) [OF g] by simp
  have "\<exists>E. reads_to bc kept bs i E 0 p [] s (read_file_loop bc wm i (int ?sz) n 0 (int p) [] s) \<and> E - p = q - p \<and>
      (p \<le> ?sz \<longrightarrow> p \<le> E \<and> E \<le> ?sz) \<and> (?sz < p \<longrightarrow> E = p)"
  proof (cases "p \<le> ?sz")
    case True
    have "p \<le> q" using True read_end_bounds(1) [OF b0, of p "unat n"] by (simp add: q)
    with True read_file_loop_bytes [OF c g s wm sz True, of i n "[]"] show ?thesis
      by (intro exI [of _ q]) (simp add: q)
  next
    case False
    with read_file_loop_stop [OF g, of n 0 ?sz p bc kept i "[]" wm] show ?thesis
      by (intro exI [of _ p]) (simp add: q)
  qed
  then obtain E out s' where r: "read_file_loop bc wm i (int ?sz) n 0 (int p) [] s =
      Some (0, word_of_nat (E - p), out, s')" "looked bc kept s s'"
      "gathered 0 out = Some (map (ext_byte bc bs s i) [p..<E])" and E: "E - p = q - p"
      "p \<le> ?sz \<Longrightarrow> p \<le> E \<and> E \<le> ?sz" "?sz < p \<Longrightarrow> E = p"
    by (auto simp: reads_to_def)
  have "q - p < 2147483648" using read_end_bounds(2) [OF b0, of p "unat n"] n by (simp add: q)
  then have ret: "sint (word_of_nat (E - p) :: u32) = int (q - p)"
    unfolding E(1) by (subst sint_small) (simp_all add: unat_word_of_nat32)
  have out: "map (ext_byte bc bs s i) [p..<E] = take (q - p) (drop p (ext_content bc bs s i))"
  proof (cases "p \<le> ?sz")
    case True
    with E(1,2) slice_content [of p E s i bc bs] show ?thesis by simp
  next
    case False
    with E(1,3) show ?thesis by (simp add: ext_content_def)
  qed
  let ?s = "inode_markdirty i (upd_inode i (\<lambda>n. n\<lparr>i_update := or (i_update n) ATIME\<rparr>) s')"
  have same: "ext_content bc bs ?s j = ext_content bc bs s j" for j
    by (simp add: inode_markdirty_def upd_inode_content looked_content [OF r(2)])
  have usz: "uint (i_size (odi (the_inode i s))) = int ?sz" by (simp add: ext_size_def)
  have rd: "read_file bc wm ino n (int p) s = Some (int (q - p), out, ?s)"
    unfolding read_file_def i Let_def usz r(1) ret
    by (simp only: Option.bind.simps option.case prod.case r(1) usz ret) simp
  show ?thesis by (rule that [OF rd r(3) [unfolded out] same])
qed


text \<open>
  A file system of one group with blocks of 1024 bytes: the bitmaps and the inode table are the
  blocks 1 to 3. Inode 5 has three blocks of which the second is a hole; block 6 is taken, the blocks 7 to 16 are free.
\<close>

definition demo_block :: "u32 \<Rightarrow> bytes" where
  "demo_block b =
     (if b = 1 then 0x3F # replicate 1023 0 else if b = 4 then replicate 1024 1
      else if b = 5 then replicate 1024 2 else replicate 1024 0)"

definition demo_inode :: inode where
  "demo_inode = zero_inode\<lparr>odi := (odi zero_inode)\<lparr>i_mode := 0x81A4, i_size := 3000, i_links_count := 1,
     i_blocks := 4, i_block := [4, 0, 5] @ replicate 12 0\<rparr>, i_ino := 5, i_count := 1\<rparr>"

definition demo_volume :: "memory_cache ext_state" where
  "demo_volume = (ext_globals \<lparr>mc_data = demo_block, mc_kept = demo_block, mc_marked = {}\<rparr>)
     \<lparr>superblock := zero_superblock\<lparr>s_blocks_count := 17, s_free_blocks_count := 10, s_first_data_block := 1,
        s_blocks_per_group := 16, s_inodes_per_group := 8\<rparr>,
      group_descs := [\<lparr>g_block_bitmap = 1, g_inode_bitmap = 2, g_inode_table = 3, g_free_blocks_count = 10,
        g_free_inodes_count = 0, g_used_dirs_count = 0, g_pad = 0, g_reserved = []\<rparr>],
      sb_groups_count := 1, sb_inode_table_blocks_per_group := 1, sb_block_size := 1024,
      sb_blocksize_bits := 10, sb_sectors_in_block := 2, sb_max_size := 0x7FFFFFFF, sb_inode_size := 128,
      sb_addr_in_block := 256, sb_addr_in_block2 := 65536, sb_doub_ind_s := 268, sb_triple_ind_s := 65804,
      sb_out_range_s := 0xFFFF0000, inode_cache := [demo_inode],
      hash_inodes := (replicate INODE_HASH_SIZE [])[5 := [0]]\<rparr>"

lemma demo_volume_geometry: "map_geometry 1024 demo_volume"
  by (simp add: map_geometry_def demo_volume_def)

lemma demo_volume_settled: "settled (memory_block_cache 1024) (\<lambda>c b. fit 1024 (mc_kept c b)) demo_volume"
  by (simp add: settled_def demo_volume_def ext_globals_def memory_block_cache_def)

lemma demo_volume_find: "find_inode 5 demo_volume = Some (Some 0)"
  by (simp add: find_inode_def hash_slot_def the_inode_def demo_volume_def demo_inode_def)

lemma demo_volume_size: "ext_size demo_volume 0 = 3000"
  by (simp add: ext_size_def the_inode_def demo_volume_def demo_inode_def)

text \<open>C11. On a mounted file system whose cache holds what is kept, and with messages that are taken
  whole, \<open>read_file\<close> returns and sends, one after the other, exactly the bytes of the file from the
  position up to \<open>read_end\<close> or the end of the file: the bytes of the blocks the map names through the
  direct, single, double and triple indirect blocks, zeros for its holes. It returns how many these
  are, and no file is changed. (By \<open>read_end_bounds\<close> these are at least the bytes asked for, less than
  a block more, and exactly those asked for when they lie in one block or end with one.)\<close>

theorem ext_read_file_delivers:
  assumes "block_cache_contract bc bs kept marked" and "map_geometry bs s" and "settled bc kept s"
    and "find_inode ino s = Some (Some i)" and "\<forall>m n. wm m n = int n" and "unat n + bs < 2147483648"
    and "q = min (ext_size s i) (read_end bs p (unat n))"
  shows "\<exists>out s'. read_file bc wm ino n (int p) s = Some (int (q - p), out, s') \<and>
    gathered 0 out = Some (take (q - p) (drop p (ext_content bc bs s i))) \<and>
    (\<forall>j. ext_content bc bs s' j = ext_content bc bs s j)"
  using read_file_bytes [OF assms] by metis

text \<open>1500 bytes from 1000 are asked for: the read goes on to the end of the file and sends 2000.\<close>

theorem ext_read_file_delivers_witness:
  "\<exists>out s'. read_file (memory_block_cache 1024) (\<lambda>m n. int n) 5 1500 1000 demo_volume = Some (2000, out, s') \<and>
    gathered 0 out = Some (take 2000 (drop 1000 (ext_content (memory_block_cache 1024) 1024 demo_volume 0))) \<and>
    (\<forall>j. ext_content (memory_block_cache 1024) 1024 s' j =
       ext_content (memory_block_cache 1024) 1024 demo_volume j)"
  using ext_read_file_delivers [OF memory_cache_contract demo_volume_geometry demo_volume_settled
      demo_volume_find, of "\<lambda>m n. int n" 1500 3000 1000]
  by (simp add: demo_volume_size read_end_def)

end
