(* ===== verification/ExtGrow.thy ===== *)
theory ExtGrow
  imports ExtRead
begin

text \<open>
  The writing half of the block map: \<open>enter_map_entry\<close> of block.c hangs a block into the trees of an
  inode and allocates the indirect blocks that are missing on the way. What every step may change is
  collected in one relation.
\<close>

section \<open>What writing may change\<close>

definition bitmap_blocks :: "'c ext_state \<Rightarrow> u32 set" where
  "bitmap_blocks s = g_block_bitmap ` set (group_descs s)"

text \<open>The part of the state that stays as it is while files are written.\<close>

definition volume where
  "volume s =
     ((be_cpu s, read_only s, map (\<lambda>g. (g_block_bitmap g, g_inode_bitmap g, g_inode_table g)) (group_descs s),
       s_blocks_count (superblock s), s_first_data_block (superblock s), s_blocks_per_group (superblock s),
       s_inodes_per_group (superblock s)),
      (sb_groups_count s, sb_inode_table_blocks_per_group s, sb_blocksize_bits s, sb_block_size s,
       sb_sectors_in_block s, sb_max_size s, sb_inode_size s),
      (sb_addr_in_block s, sb_addr_in_block2 s, sb_doub_ind_s s, sb_triple_ind_s s, sb_out_range_s s),
      (hash_inodes s, unused_inode_list s))"

text \<open>Of the inode that is written, all but its block map, its block count and its dirty flag.\<close>

definition inode_core :: "inode \<Rightarrow> inode" where
  "inode_core n = n\<lparr>odi := (odi n)\<lparr>i_blocks := 0, i_block := []\<rparr>, i_dirty := False\<rparr>"

definition same_inodes :: "nat \<Rightarrow> 'c ext_state \<Rightarrow> 'c ext_state \<Rightarrow> bool" where
  "same_inodes i s s' \<longleftrightarrow> length (inode_cache s') = length (inode_cache s) \<and>
     (\<forall>j. j \<noteq> i \<longrightarrow> the_inode j s' = the_inode j s) \<and> inode_core (the_inode i s') = inode_core (the_inode i s)"

definition slots :: "nat \<Rightarrow> 'c ext_state \<Rightarrow> u32 list" where
  "slots i s = i_block (odi (the_inode i s))"

text \<open>
  \<open>extends bc bs kept i F C s s'\<close>: the free blocks \<open>F\<close> have been taken, and blocks have been written
  only in \<open>C\<close>, \<open>F\<close> and the bitmaps; the bitmaps and the counts agree again.
\<close>

definition extends ::
    "'c block_cache \<Rightarrow> nat \<Rightarrow> ('c \<Rightarrow> u32 \<Rightarrow> bytes) \<Rightarrow> nat \<Rightarrow> u32 set \<Rightarrow> u32 set \<Rightarrow> 'c ext_state \<Rightarrow> 'c ext_state \<Rightarrow> bool" where
  "extends bc bs kept i F C s s' \<longleftrightarrow>
     alloc_inv bc bs s' \<and> settled bc kept s' \<and> volume s' = volume s \<and> same_inodes i s s' \<and>
     (\<forall>b \<in> F. b \<noteq> NO_BLOCK \<and> \<not> block_used bc s (unat b)) \<and>
     (\<forall>m. block_used bc s' m \<longleftrightarrow> block_used bc s m \<or> m \<in> unat ` F) \<and>
     (\<forall>b. b \<notin> C \<union> F \<union> bitmap_blocks s \<longrightarrow> block_data bc b s' = block_data bc b s)"

lemma extendsD:
  assumes "extends bc bs kept i F C s s'"
  shows "alloc_inv bc bs s'" "settled bc kept s'" "volume s' = volume s" "same_inodes i s s'"
    "b \<in> F \<Longrightarrow> b \<noteq> NO_BLOCK" "b \<in> F \<Longrightarrow> \<not> block_used bc s (unat b)"
    "block_used bc s' m \<longleftrightarrow> block_used bc s m \<or> m \<in> unat ` F"
    "b \<notin> C \<Longrightarrow> b \<notin> F \<Longrightarrow> b \<notin> bitmap_blocks s \<Longrightarrow> block_data bc b s' = block_data bc b s"
  using assms by (auto simp: extends_def)

lemma volume_bitmaps: "volume s' = volume s \<Longrightarrow> bitmap_blocks s' = bitmap_blocks s"
proof -
  assume "volume s' = volume s"
  then have "map (\<lambda>g. (g_block_bitmap g, g_inode_bitmap g, g_inode_table g)) (group_descs s') =
      map (\<lambda>g. (g_block_bitmap g, g_inode_bitmap g, g_inode_table g)) (group_descs s)"
    by (simp add: volume_def)
  from arg_cong [OF this, of "\<lambda>l. fst ` set l"] show ?thesis by (simp add: bitmap_blocks_def image_image)
qed

lemma volumeD:
  assumes "volume s' = volume s"
  shows "be_cpu s' = be_cpu s" "read_only s' = read_only s" "sb_block_size s' = sb_block_size s"
    "sb_sectors_in_block s' = sb_sectors_in_block s" "sb_max_size s' = sb_max_size s"
    "hash_inodes s' = hash_inodes s" "map_geometry bs s' \<longleftrightarrow> map_geometry bs s"
  using assms by (simp_all add: volume_def map_geometry_def)

lemma extends_trans:
  assumes e: "extends bc bs kept i F C s s'" and e': "extends bc bs kept i F' C' s' s''"
  shows "extends bc bs kept i (F \<union> F') (C \<union> C') s s''"
proof -
  have "same_inodes i s s''" using extendsD(4) [OF e] extendsD(4) [OF e'] by (simp add: same_inodes_def)
  then show ?thesis
    using e e' volume_bitmaps [OF extendsD(3) [OF e]] by (simp add: extends_def image_Un) blast
qed

lemma extends_mono: "extends bc bs kept i F C s s' \<Longrightarrow> C \<subseteq> C' \<Longrightarrow> extends bc bs kept i F C' s s'"
  by (auto simp: extends_def)

lemma alloc_inv_cong:
  assumes inv: "alloc_inv bc bs s"
    and eq: "superblock s' = superblock s" "group_descs s' = group_descs s" "sb_groups_count s' = sb_groups_count s"
      "sb_inode_table_blocks_per_group s' = sb_inode_table_blocks_per_group s" "be_cpu s' = be_cpu s"
    and d: "\<forall>b \<in> bitmap_blocks s. block_data bc b s' = block_data bc b s"
  shows "alloc_inv bc bs s'" and "block_used bc s' n \<longleftrightarrow> block_used bc s n"
proof -
  have e: "groups s' = groups s" "per_group s' = per_group s" "block_no s' = block_no s"
    by (simp_all add: groups_def per_group_def block_no_def eq fun_eq_iff)
  have fb: "free_bits bc s' g = free_bits bc s g" if "g < groups s" for g
  proof -
    have "g_block_bitmap (group_descs s ! g) \<in> bitmap_blocks s"
      using that alloc_invD(2) [OF inv] by (simp add: bitmap_blocks_def)
    then show ?thesis using d by (simp add: free_bits_def group_bitmap_def e eq)
  qed
  have chk: "check_block_number gd b s' = check_block_number gd b s" for gd b
    by (intro check_block_number_cong) (simp_all add: eq)
  show "alloc_inv bc bs s'" using inv fb unfolding alloc_inv_def e chk eq by simp
  show "block_used bc s' n \<longleftrightarrow> block_used bc s n" using fb by (auto simp: block_used_def e)
qed

lemma free_not_bitmap:
  assumes inv: "alloc_inv bc bs s" and "\<not> block_used bc s (unat b)"
  shows "b \<notin> bitmap_blocks s" and "b \<noteq> NO_BLOCK"
proof -
  from assms(2) obtain g k where g: "g < groups s" "k \<in> free_bits bc s g" "unat b = block_no s g k"
    by (auto simp: block_used_def)
  then have b: "b = word_of_nat (block_no s g k)" by (metis word_unat_eq_iff unat_word_of_nat32 unat_u32_lt)
  show "b \<noteq> NO_BLOCK" using alloc_invD(14) [OF inv g(1,2)] g(3) by auto
  show "b \<notin> bitmap_blocks s"
  proof
    assume "b \<in> bitmap_blocks s"
    then obtain h where h: "h < groups s" "b = g_block_bitmap (group_descs s ! h)"
      using alloc_invD(2) [OF inv] by (auto simp: bitmap_blocks_def in_set_conv_nth)
    have "check_block_number (group_descs s ! h) b s = Some ()"
      unfolding b by (rule alloc_invD(13) [OF inv g(1,2) h(1)])
    then show False by (simp add: check_block_number_def h(2))
  qed
qed


section \<open>The steps\<close>

lemma looked_extends:
  assumes "looked bc kept s s'" and "alloc_inv bc bs s" and "settled bc kept s"
  shows "extends bc bs kept i {} C s s'" and "slots j s' = slots j s"
proof -
  from assms(1) obtain c where s': "s' = s\<lparr>blocks := c\<rparr>" "bc_data bc c = bc_data bc (blocks s)" "kept c = kept (blocks s)"
    by (auto simp: looked_def)
  have d: "block_data bc b s' = block_data bc b s" for b by (simp add: s' block_data_def)
  have "alloc_inv bc bs s'" "block_used bc s' n \<longleftrightarrow> block_used bc s n" for n
    using alloc_inv_cong [OF assms(2), of s'] d by (simp_all add: s')
  moreover have "volume s' = volume s" "same_inodes i s s'" "settled bc kept s'"
    using assms(3) by (simp_all add: s' volume_def same_inodes_def the_inode_def settled_def)
  ultimately show "extends bc bs kept i {} C s s'" using d by (auto simp: extends_def)
  show "slots j s' = slots j s" by (simp add: slots_def the_inode_def s')
qed

text \<open>A block that is no bitmap gets new contents.\<close>

lemma rewrite_extends:
  assumes inv: "alloc_inv bc bs s" and s: "settled bc kept s" and b: "b \<notin> bitmap_blocks s"
    and s': "s' = s\<lparr>blocks := c\<rparr>" "bc_data bc c = (bc_data bc (blocks s))(b := d)" "kept c = (kept (blocks s))(b := d)"
  shows "extends bc bs kept i {} {b} s s'" and "slots j s' = slots j s"
    and "block_data bc b' s' = (if b' = b then d else block_data bc b' s)"
proof -
  show d: "block_data bc b' s' = (if b' = b then d else block_data bc b' s)" for b'
    by (simp add: block_data_def s')
  have "\<forall>b' \<in> bitmap_blocks s. block_data bc b' s' = block_data bc b' s" using b d by auto
  then have "alloc_inv bc bs s'" "block_used bc s' n \<longleftrightarrow> block_used bc s n" for n
    using alloc_inv_cong [OF inv, of s'] by (simp_all add: s')
  moreover have "volume s' = volume s" "same_inodes i s s'" "settled bc kept s'"
    using s by (simp_all add: s' volume_def same_inodes_def the_inode_def settled_def)
  ultimately show "extends bc bs kept i {} {b} s s'" using d by (auto simp: extends_def)
  show "slots j s' = slots j s" by (simp add: slots_def the_inode_def s')
qed

lemma inode_extends:
  assumes inv: "alloc_inv bc bs s" and s: "settled bc kept s" and f: "\<And>n. inode_core (f n) = inode_core n"
  shows "extends bc bs kept i {} C s (upd_inode i f s)" and "entry bc (upd_inode i f s) = entry bc s"
    and "block_data bc b (upd_inode i f s) = block_data bc b s"
proof -
  let ?s = "upd_inode i f s"
  show e: "block_data bc b ?s = block_data bc b s" for b by (simp add: block_data_def upd_inode_def)
  then show "entry bc ?s = entry bc s" by (simp add: fun_eq_iff entry_def) (simp add: upd_inode_def)
  have "alloc_inv bc bs ?s" "block_used bc ?s n \<longleftrightarrow> block_used bc s n" for n
    using alloc_inv_cong [OF inv, of ?s] e by (simp_all add: upd_inode_def)
  moreover have "same_inodes i s ?s"
    by (cases "i < length (inode_cache s)")
      (auto simp: same_inodes_def the_inode_def upd_inode_def f not_less list_update_beyond)
  moreover have "volume ?s = volume s" "settled bc kept ?s"
    using s by (simp_all add: volume_def upd_inode_def settled_def)
  ultimately show "extends bc bs kept i {} C s ?s" using e by (auto simp: extends_def)
qed

lemma upd_odi_extends:
  assumes inv: "alloc_inv bc bs s" and s: "settled bc kept s"
  shows "extends bc bs kept i {} C s (add_i_blocks i s)" "slots j (add_i_blocks i s) = slots j s"
    "entry bc (add_i_blocks i s) = entry bc s" "block_data bc b (add_i_blocks i s) = block_data bc b s"
    "extends bc bs kept i {} C s (inode_markdirty i s)" "slots j (inode_markdirty i s) = slots j s"
    "entry bc (inode_markdirty i s) = entry bc s" "block_data bc b (inode_markdirty i s) = block_data bc b s"
    "extends bc bs kept i {} C s (set_i_block i k v s)"
    "i < length (inode_cache s) \<Longrightarrow> slots i (set_i_block i k v s) = (slots i s)[k := v]"
    "entry bc (set_i_block i k v s) = entry bc s" "block_data bc b (set_i_block i k v s) = block_data bc b s"
proof -
  show "extends bc bs kept i {} C s (add_i_blocks i s)" "entry bc (add_i_blocks i s) = entry bc s"
    "block_data bc b (add_i_blocks i s) = block_data bc b s"
    "extends bc bs kept i {} C s (inode_markdirty i s)" "entry bc (inode_markdirty i s) = entry bc s"
    "block_data bc b (inode_markdirty i s) = block_data bc b s"
    "extends bc bs kept i {} C s (set_i_block i k v s)" "entry bc (set_i_block i k v s) = entry bc s"
    "block_data bc b (set_i_block i k v s) = block_data bc b s"
    unfolding add_i_blocks_def inode_markdirty_def set_i_block_def upd_odi_def
    by (rule inode_extends [OF inv s]; simp add: inode_core_def)+
  show "slots j (add_i_blocks i s) = slots j s" "slots j (inode_markdirty i s) = slots j s"
    by (cases "i < length (inode_cache s)"; cases "j = i";
        simp add: slots_def the_inode_def add_i_blocks_def inode_markdirty_def upd_odi_def upd_inode_def
          not_less list_update_beyond)+
  show "i < length (inode_cache s) \<Longrightarrow> slots i (set_i_block i k v s) = (slots i s)[k := v]"
    by (simp add: slots_def the_inode_def set_i_block_def upd_odi_def upd_inode_def)
qed


lemma map_same_update: "f x = f (xs ! k) \<Longrightarrow> map f (xs[k := x]) = map f xs"
  by (cases "k < length xs") (auto simp: nth_list_update list_update_beyond intro!: nth_equalityI)

text \<open>An allocation takes a free block, or there is none.\<close>

lemma alloc_extends:
  assumes c: "block_cache_contract bc bs kept marked" and inv: "alloc_inv bc bs s" and s: "settled bc kept s"
  obtains "alloc_block bc rnd i NO_BLOCK s = Some (NO_BLOCK, s)" "\<forall>m. block_used bc s m"
  | b s' where "alloc_block bc rnd i NO_BLOCK s = Some (b, s')" "b \<noteq> NO_BLOCK" "extends bc bs kept i {b} {} s s'"
    "slots i s' = slots i s"
proof (cases "s_free_blocks_count (superblock s) = 0")
  case True
  then have "\<forall>g < groups s. free_bits bc s g = {}" using alloc_invD(12) [OF inv] by auto
  then have "\<forall>m. block_used bc s m" by (auto simp: block_used_def)
  with that(1) alloc_block_result(1) [OF c inv True] show ?thesis by blast
next
  case False
  obtain g k bm where a: "alloc_block bc rnd i NO_BLOCK s = Some (word_of_nat (block_no s g k), take_block bc g bm s)"
    "g < groups s" "k \<in> free_bits bc s g" "length bm = bs div 4"
    "\<forall>j. bit_used bm j \<longleftrightarrow> bit_used (group_bitmap bc s g) j \<or> j = k"
    using alloc_block_result(2) [OF c inv False, of rnd i NO_BLOCK] by blast
  let ?b = "word_of_nat (block_no s g k) :: u32" and ?s = "take_block bc g bm s"
  have k: "k < per_group s" using a(3) by (simp add: free_bits_def)
  note u = unat_block_no [OF inv a(2) k] and st = take_block_state [OF c inv a(2-5)]
  have nu: "\<not> block_used bc s (unat ?b)" unfolding u using a(2,3) by (auto simp: block_used_def)
  have used: "block_used bc ?s m \<longleftrightarrow> block_used bc s m \<or> m = block_no s g k" for m
    by (rule block_used_take) (use st(1) a(2,3) in auto)
  have gl: "g < length (group_descs s)" using a(2) alloc_invD(2) [OF inv] by simp
  have "length (unwords32 (be_cpu s) bm) = bs" using a(4) alloc_invD(5) [OF inv] by simp presburger
  then have "settled bc kept ?s"
    using s by (simp add: settled_def take_block_def Let_def rewrite_cache [OF c])
  moreover have "volume ?s = volume s"
    by (simp add: volume_def take_block_def Let_def map_same_update)
  moreover have "same_inodes i s ?s" "slots i ?s = slots i s"
    by (simp_all add: same_inodes_def slots_def the_inode_def take_block_def Let_def)
  moreover have "g_block_bitmap (group_descs s ! g) \<in> bitmap_blocks s" using gl by (simp add: bitmap_blocks_def)
  then have "b' \<notin> bitmap_blocks s \<Longrightarrow> block_data bc b' ?s = block_data bc b' s" for b'
    using st(2) by metis
  ultimately show ?thesis
    using that(2) [OF a(1)] free_not_bitmap(2) [OF inv nu] nu used st(3) u by (auto simp: extends_def)
qed

text \<open>A fresh indirect block holds no entries.\<close>

lemma entry_zero:
  assumes "block_data bc b s = replicate bs 0" and "4 * j + 4 \<le> bs"
  shows "entry bc s b j = NO_BLOCK"
  using assms by (simp add: entry_def ld32_def dec32_def bswap4_def)

lemma clear_extends:
  assumes c: "block_cache_contract bc bs kept marked" and inv: "alloc_inv bc bs s" and s: "settled bc kept s"
    and b: "b \<notin> bitmap_blocks s"
  obtains s' where "clear_new_block bc b s = Some s'" "extends bc bs kept i {} {b} s s'" "slots i s' = slots i s"
    "\<And>b'. block_data bc b' s' = (if b' = b then replicate bs 0 else block_data bc b' s)"
proof -
  let ?t = "s\<lparr>blocks := snd (bc_get bc b BLK_CLEAR (blocks s))\<rparr>"
  let ?s = "put_block bc b (block_markdirty bc b ?t)"
  have "clear_new_block bc b s = Some ?s" by (simp add: clear_new_block_def cache_get_clear [OF c])
  moreover have "bc_data bc (blocks ?s) = (bc_data bc (blocks s))(b := replicate bs 0)"
    "kept (blocks ?s) = (kept (blocks s))(b := replicate bs 0)"
    by (simp_all add: put_block_def block_markdirty_def cache_put [OF c] cache_markdirty [OF c] cache_get_clear [OF c])
  moreover have "?s = s\<lparr>blocks := blocks ?s\<rparr>" by (simp add: put_block_def block_markdirty_def)
  ultimately show ?thesis using that rewrite_extends [OF inv s b, of ?s "blocks ?s" "replicate bs 0"] by blast
qed

text \<open>An entry of an indirect block is set; the buffer is marked dirty and put back.\<close>

lemma write_entry_extends:
  assumes c: "block_cache_contract bc bs kept marked" and inv: "alloc_inv bc bs s" and s: "settled bc kept s"
    and b: "b \<notin> bitmap_blocks s" and j: "4 * j + 4 \<le> bs" and bs: "bs < 4294967296" 
  obtains t where "write_indirect_block_entry bc b (word_of_nat j) v s = Some t"
    "extends bc bs kept i {} {b} s (put_block bc b (block_markdirty bc b t))"
    "slots i (put_block bc b (block_markdirty bc b t)) = slots i s"
    "\<And>b'. b' \<noteq> b \<Longrightarrow> block_data bc b' (put_block bc b (block_markdirty bc b t)) = block_data bc b' s"
    "\<And>k. bs mod 4 = 0 \<Longrightarrow> 4 * k + 4 \<le> bs \<Longrightarrow>
       entry bc (put_block bc b (block_markdirty bc b t)) b k = (if k = j then v else entry bc s b k)"
proof -
  have uj: "unat (word_of_nat j :: u32) = j" using j bs by (intro unat_word_of_nat32) simp
  let ?d = "splice (4 * j) (enc32 (be_cpu s) (bswap4 (be_cpu s) v)) (block_data bc b s)"
  let ?t = "set_block_data bc b ?d s"
  let ?s = "put_block bc b (block_markdirty bc b ?t)"
  have len: "length (block_data bc b s) = bs" "length ?d = bs"
    using j by (simp_all add: block_data_def cache_length [OF c])
  have "write_indirect_block_entry bc b (word_of_nat j) v s = Some ?t"
    using j len by (simp add: write_indirect_block_entry_def uj store_def)
  moreover have "bc_data bc (blocks ?s) = (bc_data bc (blocks s))(b := ?d)"
    "kept (blocks ?s) = (kept (blocks s))(b := ?d)"
    by (simp_all add: put_block_def block_markdirty_def set_block_data_def cache_put [OF c] cache_markdirty [OF c]
        cache_store [OF c len(2)])
  moreover have "?s = s\<lparr>blocks := blocks ?s\<rparr>" by (simp add: put_block_def block_markdirty_def set_block_data_def)
  ultimately have r: "extends bc bs kept i {} {b} s ?s" "slots i ?s = slots i s"
      "\<And>b'. block_data bc b' ?s = (if b' = b then ?d else block_data bc b' s)"
    using rewrite_extends [OF inv s b, of ?s "blocks ?s" ?d] by blast+
  have be: "be_cpu ?s = be_cpu s" by (simp add: put_block_def block_markdirty_def set_block_data_def)
  have "entry bc ?s b k = (if k = j then v else entry bc s b k)" if "bs mod 4 = 0" "4 * k + 4 \<le> bs" for k
  proof (cases "k = j")
    case True
    then show ?thesis using j len by (simp add: entry_def r(3) be ld32_splice_same)
  next
    case False
    then have "4 * k + 4 \<le> 4 * j \<or> 4 * j + 4 \<le> 4 * k" by linarith
    with False j len show ?thesis by (simp add: entry_def r(3) be ld32_splice_other)
  qed
  with that [of ?t] r \<open>write_indirect_block_entry bc b (word_of_nat j) v s = Some ?t\<close> show ?thesis by simp
qed



section \<open>Entering a block below an indirect block\<close>

text \<open>What \<open>enter_map_entry\<close> does from the block of the first level on.\<close>

definition enter_below ::
    "'c block_cache \<Rightarrow> nat \<Rightarrow> nat \<Rightarrow> u32 list \<Rightarrow> u32 \<Rightarrow> u32 \<Rightarrow> 'c ext_state \<Rightarrow> (int \<times> 'c ext_state) option" where
  "enter_below bc rnd i offs new bp s = do {
     (sc, bp, s) \<leftarrow> enter_map_walk bc rnd i (butlast offs) bp s;
     if sc \<noteq> 0 then Some (sc, s)
     else do {
       s \<leftarrow> get_block bc bp BLK_READ s;
       s \<leftarrow> write_indirect_block_entry bc bp (last offs) new s;
       Some (0, add_i_blocks i (put_block bc bp (block_markdirty bc bp s)))
     }
   }"

lemma enter_below_last:
  "enter_below bc rnd i [off] new bp s = do {
     s \<leftarrow> get_block bc bp BLK_READ s;
     s \<leftarrow> write_indirect_block_entry bc bp off new s;
     Some (0, add_i_blocks i (put_block bc bp (block_markdirty bc bp s)))
   }"
  by (simp add: enter_below_def)

lemma put_add_i_blocks: "put_block bc b (add_i_blocks i s) = add_i_blocks i (put_block bc b s)"
  by (simp add: put_block_def add_i_blocks_def upd_odi_def upd_inode_def)

lemma enter_below_step:
  "offs \<noteq> [] \<Longrightarrow> enter_below bc rnd i (off # offs) new bp s = do {
     s \<leftarrow> get_block bc bp BLK_READ s;
     block \<leftarrow> read_indirect_block_entry bc bp off s;
     if block = NO_BLOCK then do {
       (block, s) \<leftarrow> alloc_block bc rnd i NO_BLOCK s;
       if block = NO_BLOCK then Some (- ENOSPC, s)
       else do {
         s \<leftarrow> clear_new_block bc block s;
         s \<leftarrow> write_indirect_block_entry bc bp off block s;
         enter_below bc rnd i offs new block (add_i_blocks i (put_block bc bp (block_markdirty bc bp s)))
       }
     }
     else enter_below bc rnd i offs new block (put_block bc bp s)
   }"
  by (simp add: enter_below_def put_add_i_blocks Let_def split: Option.bind_split prod.splits if_splits)

definition tree_in :: "'c block_cache \<Rightarrow> 'c ext_state \<Rightarrow> nat \<Rightarrow> nat \<Rightarrow> u32 \<Rightarrow> bool" where
  "tree_in bc s a d b \<longleftrightarrow> tree_ok (entry bc s) a d b \<and>
     (\<forall>c \<in> nodes (entry bc s) a d b. block_used bc s (unat c) \<and> c \<notin> bitmap_blocks s)"

definition entered ::
    "'c block_cache \<Rightarrow> nat \<Rightarrow> ('c \<Rightarrow> u32 \<Rightarrow> bytes) \<Rightarrow> nat \<Rightarrow> nat \<Rightarrow> nat \<Rightarrow> u32 \<Rightarrow> nat \<Rightarrow> u32 \<Rightarrow> 'c ext_state \<Rightarrow>
     (int \<times> 'c ext_state) option \<Rightarrow> bool" where
  "entered bc bs kept i a d b r new s R \<longleftrightarrow>
     (\<exists>sc s' F. R = Some (sc, s') \<and> extends bc bs kept i F (inner (entry bc s) a d b) s s' \<and>
        slots i s' = slots i s \<and> finite F \<and> card F < d \<and> tree_ok (entry bc s') a d b \<and>
        nodes (entry bc s') a d b \<subseteq> nodes (entry bc s) a d b \<union> F \<union> {new} \<and>
        (sc = 0 \<and> (\<forall>x < a ^ d. leaf (entry bc s') a d b x = (if x = r then new else leaf (entry bc s) a d b x)) \<or>
         sc = - ENOSPC \<and> Suc (card F) < d \<and> (\<forall>m. block_used bc s' m) \<and>
           (\<forall>x < a ^ d. leaf (entry bc s') a d b x = leaf (entry bc s) a d b x)))"

lemma entry_same: "block_data bc b s' = block_data bc b s \<Longrightarrow> be_cpu s' = be_cpu s \<Longrightarrow> entry bc s' b = entry bc s b"
  by (simp add: fun_eq_iff entry_def)

lemma extends_sub: "extends bc bs kept i F C s s' \<Longrightarrow> C \<subseteq> C' \<union> F \<Longrightarrow> extends bc bs kept i F C' s s'"
  by (simp add: extends_def) blast

text \<open>One level: the child may be new, and the block is entered below it.\<close>

lemma entered_below_child:
  assumes t: "tree_in bc s a (Suc (Suc d)) bp" and bp: "bp \<noteq> NO_BLOCK" and r: "r < a ^ Suc (Suc d)"
    and off: "off = r div a ^ Suc d"
    and e1: "extends bc bs kept i F1 {bp} s s1" "slots i s1 = slots i s" "finite F1" "card F1 \<le> 1"
    and E1: "\<forall>k < a. entry bc s1 bp k = (if k = off then ch else entry bc s bp k)"
    and nodes1: "nodes (entry bc s1) a (Suc d) ch \<subseteq> nodes (entry bc s) a (Suc d) (entry bc s bp off) \<union> F1"
    and inner1: "inner (entry bc s1) a (Suc d) ch \<subseteq> inner (entry bc s) a (Suc d) (entry bc s bp off) \<union> F1"
    and leaf1: "\<forall>x < a ^ Suc d. leaf (entry bc s1) a (Suc d) ch x = leaf (entry bc s) a (Suc d) (entry bc s bp off) x"
    and new: "new \<notin> nodes (entry bc s) a (Suc (Suc d)) bp"
    and rec: "entered bc bs kept i a (Suc d) ch (r mod a ^ Suc d) new s1 R"
  shows "entered bc bs kept i a (Suc (Suc d)) bp r new s R"
proof -
  let ?E = "entry bc s" and ?E1 = "entry bc s1"
  obtain sc s' F2 where R: "R = Some (sc, s')" and e2: "extends bc bs kept i F2 (inner ?E1 a (Suc d) ch) s1 s'"
    and sl: "slots i s' = slots i s1" and F2: "finite F2" "card F2 < Suc d"
    and ok': "tree_ok (entry bc s') a (Suc d) ch"
    and nodes': "nodes (entry bc s') a (Suc d) ch \<subseteq> nodes ?E1 a (Suc d) ch \<union> F2 \<union> {new}"
    and res: "sc = 0 \<and> (\<forall>x < a ^ Suc d. leaf (entry bc s') a (Suc d) ch x =
          (if x = r mod a ^ Suc d then new else leaf ?E1 a (Suc d) ch x)) \<or>
        sc = - ENOSPC \<and> Suc (card F2) < Suc d \<and> (\<forall>m. block_used bc s' m) \<and>
          (\<forall>x < a ^ Suc d. leaf (entry bc s') a (Suc d) ch x = leaf ?E1 a (Suc d) ch x)"
    using rec unfolding entered_def by blast
  let ?E' = "entry bc s'"
  have lt: "off < a" using digit_bounds [OF r] by (simp add: off)
  have ok: "tree_ok ?E a (Suc (Suc d)) bp" and used: "\<forall>c \<in> nodes ?E a (Suc (Suc d)) bp. block_used bc s (unat c)"
    and nb: "\<forall>c \<in> nodes ?E a (Suc (Suc d)) bp. c \<notin> bitmap_blocks s"
    using t by (auto simp: tree_in_def)
  have sup: "nodes ?E a (Suc d) (?E bp k) \<subseteq> nodes ?E a (Suc (Suc d)) bp" if "k < a" for k using that bp by auto
  have inn: "inner ?E a (Suc d) (?E bp off) \<subseteq> inner ?E a (Suc (Suc d)) bp" using lt bp by auto
  have bpin: "bp \<in> inner ?E a (Suc (Suc d)) bp" "bp \<in> nodes ?E a (Suc (Suc d)) bp" using bp by auto
  have f1: "F1 \<inter> nodes ?E a (Suc (Suc d)) bp = {}" using extendsD(6) [OF e1(1)] used by blast
  have f2: "F2 \<inter> nodes ?E a (Suc (Suc d)) bp = {}"
    using extendsD(6) [OF e2] extendsD(7) [OF e1(1)] used by blast
  have bits: "bitmap_blocks s1 = bitmap_blocks s" by (rule volume_bitmaps [OF extendsD(3) [OF e1(1)]])
  have cpu: "be_cpu s1 = be_cpu s" "be_cpu s' = be_cpu s1"
    using volumeD(1) [OF extendsD(3) [OF e1(1)]] volumeD(1) [OF extendsD(3) [OF e2]] by auto
  have un: "?E' x = ?E1 x" if "x \<in> nodes ?E a (Suc (Suc d)) bp" "x \<notin> nodes ?E a (Suc d) (?E bp off)" for x
  proof (rule entry_same [OF _ cpu(2)], rule extendsD(8) [OF e2])
    show "x \<notin> inner ?E1 a (Suc d) ch"
      using that inner1 inner_nodes [of ?E a "Suc d" "?E bp off"] f1 by blast
    show "x \<notin> F2" using f2 that by blast
    show "x \<notin> bitmap_blocks s1" using nb that bits by blast
  qed
  have un1: "?E1 x = ?E x" if "x \<in> nodes ?E a (Suc (Suc d)) bp" "x \<noteq> bp" for x
    using that f1 nb by (intro entry_same [OF _ cpu(1)] extendsD(8) [OF e1(1)]) auto
  have bpn: "bp \<notin> nodes ?E a (Suc d) (?E bp k)" if "k < a" for k using ok bp that by auto
  have E': "\<forall>k < a. ?E' bp k = (if k = off then ch else ?E bp k)"
    using un [OF bpin(2) bpn [OF lt]] E1 by simp
  have other: "\<forall>k < a. k \<noteq> off \<longrightarrow> (\<forall>x \<in> inner ?E a (Suc d) (?E bp k). \<forall>l < a. ?E' x l = ?E x l)"
  proof (intro allI impI ballI)
    fix k x l assume k: "k < a" "k \<noteq> off" and x: "x \<in> inner ?E a (Suc d) (?E bp k)"
    have xn: "x \<in> nodes ?E a (Suc d) (?E bp k)" using x inner_nodes by blast
    moreover have "nodes ?E a (Suc d) (?E bp k) \<inter> nodes ?E a (Suc d) (?E bp off) = {}"
      using ok bp k lt by auto
    ultimately have "x \<in> nodes ?E a (Suc (Suc d)) bp" "x \<notin> nodes ?E a (Suc d) (?E bp off)" "x \<noteq> bp"
      using sup [OF k(1)] bpn [OF k(1)] by blast+
    then show "?E' x l = ?E x l" using un un1 by simp
  qed
  have sub: "nodes ?E' a (Suc d) ch \<subseteq> nodes ?E a (Suc d) (?E bp off) \<union> (F1 \<union> F2 \<union> {new})"
    using nodes' nodes1 by blast
  have N: "(F1 \<union> F2 \<union> {new}) \<inter> nodes ?E a (Suc (Suc d)) bp = {}" using f1 f2 new by blast
  note G = graft [OF ok bp lt E' other ok' sub N]
  have e: "extends bc bs kept i (F1 \<union> F2) (inner ?E a (Suc (Suc d)) bp) s s'"
    by (rule extends_sub [OF extends_trans [OF e1(1) e2]]) (use inner1 inn bpin in blast)
  have card: "card (F1 \<union> F2) < Suc (Suc d)" using card_Un_le [of F1 F2] e1(4) F2(2) by linarith
  have nn: "nodes ?E' a (Suc (Suc d)) bp \<subseteq> nodes ?E a (Suc (Suc d)) bp \<union> (F1 \<union> F2) \<union> {new}"
    using G(2) by blast
  have dm: "x = r \<longleftrightarrow> x div a ^ Suc d = off \<and> x mod a ^ Suc d = r mod a ^ Suc d" for x
    unfolding off by (metis div_mult_mod_eq)
  have lf: "leaf ?E' a (Suc (Suc d)) bp x = (if x div a ^ Suc d = off then leaf ?E' a (Suc d) ch (x mod a ^ Suc d)
      else leaf ?E a (Suc (Suc d)) bp x)" if "x < a ^ Suc (Suc d)" for x by (rule G(3) [OF that])
  have le: "leaf ?E a (Suc (Suc d)) bp x = leaf ?E1 a (Suc d) ch (x mod a ^ Suc d)"
    if "x < a ^ Suc (Suc d)" "x div a ^ Suc d = off" for x
    using leaf1 digit_bounds(2) [OF that(1)] that(2) bp by simp
  have "sc = 0 \<and> (\<forall>x < a ^ Suc (Suc d). leaf ?E' a (Suc (Suc d)) bp x = (if x = r then new else leaf ?E a (Suc (Suc d)) bp x)) \<or>
      sc = - ENOSPC \<and> Suc (card (F1 \<union> F2)) < Suc (Suc d) \<and> (\<forall>m. block_used bc s' m) \<and>
        (\<forall>x < a ^ Suc (Suc d). leaf ?E' a (Suc (Suc d)) bp x = leaf ?E a (Suc (Suc d)) bp x)"
    using res
  proof (elim disjE conjE)
    assume "sc = 0" and l: "\<forall>x < a ^ Suc d. leaf ?E' a (Suc d) ch x = (if x = r mod a ^ Suc d then new else leaf ?E1 a (Suc d) ch x)"
    have "leaf ?E' a (Suc (Suc d)) bp x = (if x = r then new else leaf ?E a (Suc (Suc d)) bp x)" if x: "x < a ^ Suc (Suc d)" for x
      using lf [OF x] le [OF x] l digit_bounds(2) [OF x] dm [of x] by (simp del: leaf.simps power_Suc)
    with \<open>sc = 0\<close> show ?thesis by blast
  next
    assume f: "Suc (card F2) < Suc d" and "sc = - ENOSPC" "\<forall>m. block_used bc s' m"
      and l: "\<forall>x < a ^ Suc d. leaf ?E' a (Suc d) ch x = leaf ?E1 a (Suc d) ch x"
    moreover have "Suc (card (F1 \<union> F2)) < Suc (Suc d)" using card_Un_le [of F1 F2] e1(4) f by linarith
    moreover have "leaf ?E' a (Suc (Suc d)) bp x = leaf ?E a (Suc (Suc d)) bp x" if x: "x < a ^ Suc (Suc d)" for x
      using lf [OF x] le [OF x] l digit_bounds(2) [OF x] by (simp del: leaf.simps power_Suc)
    ultimately show ?thesis by blast
  qed
  with R e sl e1(2,3) F2(1) card G(1) nn show ?thesis
    unfolding entered_def by (intro exI [of _ sc] exI [of _ s'] exI [of _ "F1 \<union> F2"]) simp
qed


text \<open>The last level: the entry of the block is written.\<close>

lemma enter_below_entry:
  assumes c: "block_cache_contract bc bs kept marked" and bs: "4 * a = bs" "bs < 4294967296"
    and inv: "alloc_inv bc bs s" and s: "settled bc kept s" and t: "tree_in bc s a (Suc 0) bp"
    and bp: "bp \<noteq> NO_BLOCK" and r: "r < a" and new: "new \<notin> nodes (entry bc s) a (Suc 0) bp"
  shows "entered bc bs kept i a (Suc 0) bp r new s (enter_below bc rnd i [word_of_nat r] new bp s)"
proof -
  obtain t where t1: "get_block bc bp BLK_READ s = Some t" "looked bc kept s t" by (rule visit_block [OF c s])
  note e1 = looked_extends(1) [OF t1(2) inv s, of i "{}"] looked_extends(2) [OF t1(2) inv s]
  have nb: "bp \<notin> bitmap_blocks s" using assms(6) bp by (auto simp: tree_in_def)
  then have nbt: "bp \<notin> bitmap_blocks t" using volume_bitmaps [OF extendsD(3) [OF e1(1)]] by simp
  have j: "4 * r + 4 \<le> bs" using r bs(1) by linarith
  obtain u where u: "write_indirect_block_entry bc bp (word_of_nat r) new t = Some u"
    "extends bc bs kept i {} {bp} t (put_block bc bp (block_markdirty bc bp u))"
    "slots i (put_block bc bp (block_markdirty bc bp u)) = slots i t"
    "\<And>k. bs mod 4 = 0 \<Longrightarrow> 4 * k + 4 \<le> bs \<Longrightarrow>
       entry bc (put_block bc bp (block_markdirty bc bp u)) bp k = (if k = r then new else entry bc t bp k)"
    using write_entry_extends [OF c extendsD(1,2) [OF e1(1)] nbt j bs(2)] by metis
  let ?v = "put_block bc bp (block_markdirty bc bp u)"
  note e3 = upd_odi_extends(1-3) [OF extendsD(1,2) [OF u(2)]]
  have ext: "extends bc bs kept i {} {bp} s (add_i_blocks i ?v)"
    using extends_trans [OF extends_trans [OF e1(1) u(2)] e3(1) [of i "{}"]] by simp
  have E: "entry bc (add_i_blocks i ?v) bp k = (if k = r then new else entry bc s bp k)" if "k < a" for k
  proof -
    have "4 * k + 4 \<le> bs" "bs mod 4 = 0" using that bs(1) by auto
    then show ?thesis using u(4) [of k] looked_view(1) [OF t1(2)] e3(3) by simp
  qed
  have ok: "tree_ok (entry bc s) a (Suc 0) bp" using assms(6) by (simp add: tree_in_def)
  have "inner (entry bc s) a (Suc 0) bp = {bp}" using bp by simp
  note G = graft [OF ok bp r, of "entry bc (add_i_blocks i ?v)" new "{new}"]
  have g: "tree_ok (entry bc (add_i_blocks i ?v)) a (Suc 0) bp"
    "nodes (entry bc (add_i_blocks i ?v)) a (Suc 0) bp \<subseteq> nodes (entry bc s) a (Suc 0) bp \<union> {new}"
    "\<forall>x < a ^ Suc 0. leaf (entry bc (add_i_blocks i ?v)) a (Suc 0) bp x =
        (if x = r then new else leaf (entry bc s) a (Suc 0) bp x)"
    using G E new by auto
  have "enter_below bc rnd i [word_of_nat r] new bp s = Some (0, add_i_blocks i ?v)"
    using t1(1) u(1) by (simp add: enter_below_last)
  with ext e3(2) u(3) e1(2) g \<open>inner (entry bc s) a (Suc 0) bp = {bp}\<close> show ?thesis
    unfolding entered_def by (intro exI [of _ 0] exI [of _ "add_i_blocks i ?v"] exI [of _ "{}"]) simp
qed

text \<open>A missing child is allocated, cleared and hung in.\<close>

lemma fresh_child:
  assumes c: "block_cache_contract bc bs kept marked" and bs: "4 * a = bs" "bs < 4294967296"
    and inv: "alloc_inv bc bs s" and bp: "bp \<notin> bitmap_blocks s" "block_used bc s (unat bp)" and off: "off < a"
    and e1: "extends bc bs kept i {b} {} s s1" "slots i s1 = slots i s"
  obtains s2 u where "clear_new_block bc b s1 = Some s2"
    "write_indirect_block_entry bc bp (word_of_nat off) b s2 = Some u"
    "extends bc bs kept i {b} {bp} s (add_i_blocks i (put_block bc bp (block_markdirty bc bp u)))"
    "slots i (add_i_blocks i (put_block bc bp (block_markdirty bc bp u))) = slots i s"
    "\<forall>k < a. entry bc (add_i_blocks i (put_block bc bp (block_markdirty bc bp u))) bp k =
       (if k = off then b else entry bc s bp k)"
    "\<forall>k < a. entry bc (add_i_blocks i (put_block bc bp (block_markdirty bc bp u))) b k = NO_BLOCK"
proof -
  have free: "\<not> block_used bc s (unat b)" using extendsD(6) [OF e1(1)] by simp
  note bb = free_not_bitmap [OF inv free]
  have ne: "b \<noteq> bp" using free bp(2) by auto
  have bits1: "bitmap_blocks s1 = bitmap_blocks s" by (rule volume_bitmaps [OF extendsD(3) [OF e1(1)]])
  obtain s2 where s2: "clear_new_block bc b s1 = Some s2" "extends bc bs kept i {} {b} s1 s2" "slots i s2 = slots i s1"
    "\<And>b'. block_data bc b' s2 = (if b' = b then replicate bs 0 else block_data bc b' s1)"
    using clear_extends [OF c extendsD(1,2) [OF e1(1)]] bb(1) bits1 by metis
  have bits2: "bitmap_blocks s2 = bitmap_blocks s" using volume_bitmaps [OF extendsD(3) [OF s2(2)]] bits1 by simp
  have j: "4 * off + 4 \<le> bs" using off bs(1) by linarith
  obtain u where u: "write_indirect_block_entry bc bp (word_of_nat off) b s2 = Some u"
    "extends bc bs kept i {} {bp} s2 (put_block bc bp (block_markdirty bc bp u))"
    "slots i (put_block bc bp (block_markdirty bc bp u)) = slots i s2"
    "\<And>b'. b' \<noteq> bp \<Longrightarrow> block_data bc b' (put_block bc bp (block_markdirty bc bp u)) = block_data bc b' s2"
    "\<And>k. bs mod 4 = 0 \<Longrightarrow> 4 * k + 4 \<le> bs \<Longrightarrow>
       entry bc (put_block bc bp (block_markdirty bc bp u)) bp k = (if k = off then b else entry bc s2 bp k)"
    using write_entry_extends [OF c extendsD(1,2) [OF s2(2)] _ j bs(2), of bp b] bp(1) bits2 by metis
  let ?v = "put_block bc bp (block_markdirty bc bp u)"
  note e3 = upd_odi_extends(1-4) [OF extendsD(1,2) [OF u(2)]]
  have "extends bc bs kept i {b} {bp} s (add_i_blocks i ?v)"
    by (rule extends_sub [of _ _ _ _ _ "{b, bp}"])
      (use extends_trans [OF extends_trans [OF extends_trans [OF e1(1) s2(2)] u(2)] e3(1) [of i "{}"]] in \<open>auto simp: insert_commute\<close>)
  moreover have "slots i (add_i_blocks i ?v) = slots i s" using e3(2) u(3) s2(3) e1(2) by simp
  moreover have "entry bc s2 bp = entry bc s bp"
    using s2(4) [of bp] ne extendsD(8) [OF e1(1), of bp] bp(1) volumeD(1) [OF extendsD(3) [OF e1(1)]]
      volumeD(1) [OF extendsD(3) [OF s2(2)]] by (intro entry_same) auto
  then have "\<forall>k < a. entry bc (add_i_blocks i ?v) bp k = (if k = off then b else entry bc s bp k)"
    using u(5) bs(1) by (auto simp: e3(3))
  moreover have "block_data bc b (add_i_blocks i ?v) = replicate bs 0"
    using e3(4) u(4) [OF ne] s2(4) by simp
  then have "\<forall>k < a. entry bc (add_i_blocks i ?v) b k = NO_BLOCK" using entry_zero bs(1) by (metis mult_Suc_right Suc_leI mult_le_mono2 add.commute)
  ultimately show ?thesis using that s2(1) u(1) by blast
qed

lemma enter_below_ok:
  assumes c: "block_cache_contract bc bs kept marked" and bs: "4 * a = bs" "bs < 4294967296"
  shows "alloc_inv bc bs s \<Longrightarrow> settled bc kept s \<Longrightarrow> tree_in bc s a (Suc d) bp \<Longrightarrow> bp \<noteq> NO_BLOCK \<Longrightarrow>
    r < a ^ Suc d \<Longrightarrow> new \<notin> nodes (entry bc s) a (Suc d) bp \<Longrightarrow> block_used bc s (unat new) \<Longrightarrow>
    entered bc bs kept i a (Suc d) bp r new s (enter_below bc rnd i (map word_of_nat (path a (Suc d) r)) new bp s)"
proof (induction d arbitrary: bp r s)
  case 0
  have "path a (Suc 0) r = [r]" by simp
  with enter_below_entry [OF c bs 0(1-4) _ 0(6)] 0(5) show ?case by simp
next
  case (Suc d)
  note inv = Suc.prems(1) and s = Suc.prems(2) and t = Suc.prems(3) and bp = Suc.prems(4)
    and r = Suc.prems(5) and new = Suc.prems(6)
  let ?E = "entry bc s" and ?off = "r div a ^ Suc d" and ?r = "r mod a ^ Suc d"
  let ?path = "map word_of_nat (path a (Suc d) ?r) :: u32 list"
  note dg = digit_bounds [OF r]
  have ok: "tree_ok ?E a (Suc (Suc d)) bp" and used: "\<forall>c \<in> nodes ?E a (Suc (Suc d)) bp. block_used bc s (unat c)"
    and nb: "\<forall>c \<in> nodes ?E a (Suc (Suc d)) bp. c \<notin> bitmap_blocks s"
    using t by (auto simp: tree_in_def)
  have sup: "nodes ?E a (Suc d) (?E bp ?off) \<subseteq> nodes ?E a (Suc (Suc d)) bp" using dg(1) bp by auto
  have nw: "new \<notin> nodes ?E a (Suc d) (?E bp ?off)" using new sup by blast
  have j: "4 * ?off + 4 \<le> bs" using dg(1) bs(1) by linarith
  obtain t1 where t1: "get_block bc bp BLK_READ s = Some t1" "looked bc kept s t1" "looked bc kept s (put_block bc bp t1)"
    by (rule visit_block [OF c s])
  have rd: "read_indirect_block_entry bc bp (word_of_nat ?off) t1 = Some (?E bp ?off)"
    using read_entry [OF c j bs(2), of bp t1] looked_view(1) [OF t1(2)] by simp
  have ne: "path a (Suc d) ?r \<noteq> []" by simp
  have unfold: "enter_below bc rnd i (map word_of_nat (path a (Suc (Suc d)) r)) new bp s =
    (if ?E bp ?off = NO_BLOCK then do {
       (block, s) \<leftarrow> alloc_block bc rnd i NO_BLOCK t1;
       if block = NO_BLOCK then Some (- ENOSPC, s)
       else do {
         s \<leftarrow> clear_new_block bc block s;
         s \<leftarrow> write_indirect_block_entry bc bp (word_of_nat ?off) block s;
         enter_below bc rnd i ?path new block (add_i_blocks i (put_block bc bp (block_markdirty bc bp s)))
       }
     } else enter_below bc rnd i ?path new (?E bp ?off) (put_block bc bp t1))"
    using ne by (subst path.simps, subst list.map, subst enter_below_step) (simp_all add: t1(1) rd del: power_Suc path.simps)
  show ?case
  proof (cases "?E bp ?off = NO_BLOCK")
    case False
    let ?s1 = "put_block bc bp t1"
    note e1 = looked_extends(1) [OF t1(3) inv s, of i "{bp}"] looked_extends(2) [OF t1(3) inv s]
    have E1: "entry bc ?s1 = ?E" by (rule looked_view(1) [OF t1(3)])
    have bits: "bitmap_blocks ?s1 = bitmap_blocks s" by (rule volume_bitmaps [OF extendsD(3) [OF e1(1)]])
    have "tree_in bc ?s1 a (Suc d) (?E bp ?off)"
      using ok used nb sup bp dg(1) extendsD(7) [OF e1(1)] by (auto simp: tree_in_def E1 bits)
    then have "entered bc bs kept i a (Suc d) (?E bp ?off) ?r new ?s1
        (enter_below bc rnd i ?path new (?E bp ?off) ?s1)"
      using nw Suc.prems(7) extendsD(7) [OF e1(1)]
      by (intro Suc.IH [OF extendsD(1,2) [OF e1(1)] _ False dg(2)]) (simp_all add: E1 del: nodes.simps power_Suc)
    then have "entered bc bs kept i a (Suc (Suc d)) bp r new s (enter_below bc rnd i ?path new (?E bp ?off) ?s1)"
      by (intro entered_below_child [OF t bp r refl e1 _ _ _ _ _ _ new]) (simp_all add: E1)
    with False show ?thesis by (simp only: unfold if_False)
  next
    case True
    note e1 = looked_extends(1) [OF t1(2) inv s, of i "{}"] looked_extends(2) [OF t1(2) inv s]
    have E1: "entry bc t1 = ?E" by (rule looked_view(1) [OF t1(2)])
    have bits1: "bitmap_blocks t1 = bitmap_blocks s" by (rule volume_bitmaps [OF extendsD(3) [OF e1(1)]])
    have bpin: "bp \<in> nodes ?E a (Suc (Suc d)) bp" by (rule root_in_nodes [OF bp])
    show ?thesis
    proof (rule alloc_extends [OF c extendsD(1,2) [OF e1(1)], of rnd i])
      assume a: "alloc_block bc rnd i NO_BLOCK t1 = Some (NO_BLOCK, t1)" "\<forall>m. block_used bc t1 m"
      have "enter_below bc rnd i (map word_of_nat (path a (Suc (Suc d)) r)) new bp s = Some (- ENOSPC, t1)"
        by (simp only: unfold True a(1)) simp
      moreover note extends_mono [OF e1(1), of "inner ?E a (Suc (Suc d)) bp"]
      ultimately show ?thesis
        using a(2) ok e1(2) unfolding entered_def
        by (intro exI [of _ "- ENOSPC"] exI [of _ t1] exI [of _ "{}"]) (auto simp: E1)
    next
      fix b s1 assume a: "alloc_block bc rnd i NO_BLOCK t1 = Some (b, s1)" "b \<noteq> NO_BLOCK"
        "extends bc bs kept i {b} {} t1 s1" "slots i s1 = slots i t1"
      obtain s2 u where u: "clear_new_block bc b s1 = Some s2"
        "write_indirect_block_entry bc bp (word_of_nat ?off) b s2 = Some u"
        "extends bc bs kept i {b} {bp} t1 (add_i_blocks i (put_block bc bp (block_markdirty bc bp u)))"
        "slots i (add_i_blocks i (put_block bc bp (block_markdirty bc bp u))) = slots i t1"
        "\<forall>k < a. entry bc (add_i_blocks i (put_block bc bp (block_markdirty bc bp u))) bp k =
           (if k = ?off then b else entry bc t1 bp k)"
        "\<forall>k < a. entry bc (add_i_blocks i (put_block bc bp (block_markdirty bc bp u))) b k = NO_BLOCK"
        by (rule fresh_child [OF c bs extendsD(1) [OF e1(1)] _ _ dg(1) a(3,4)])
          (use nb used bpin bits1 extendsD(7) [OF e1(1)] in auto)
      let ?v = "add_i_blocks i (put_block bc bp (block_markdirty bc bp u))"
      have ev: "extends bc bs kept i {b} {bp} s ?v" using extends_trans [OF e1(1) u(3)] by simp
      have Eb: "nodes (entry bc ?v) a (Suc d) b = {b}" "inner (entry bc ?v) a (Suc d) b = {b}"
        "tree_ok (entry bc ?v) a (Suc d) b" "\<forall>x < a ^ Suc d. leaf (entry bc ?v) a (Suc d) b x = NO_BLOCK"
        using u(6) a(2) digit_bounds by auto
      have bfree: "\<not> block_used bc s (unat b)" using extendsD(6) [OF ev] by simp
      have "tree_in bc ?v a (Suc d) b"
        using Eb(1,3) free_not_bitmap(1) [OF inv bfree] volume_bitmaps [OF extendsD(3) [OF ev]] extendsD(7) [OF ev]
        by (simp add: tree_in_def)
      moreover have "new \<noteq> b" using Suc.prems(7) bfree by auto
      ultimately have "entered bc bs kept i a (Suc d) b ?r new ?v (enter_below bc rnd i ?path new b ?v)"
        using extendsD(7) [OF ev] Suc.prems(7) Eb(1)
        by (intro Suc.IH [OF extendsD(1,2) [OF ev] _ a(2) dg(2)]) auto
      then have "entered bc bs kept i a (Suc (Suc d)) bp r new s (enter_below bc rnd i ?path new b ?v)"
        using u(4,5) e1(2) Eb
        by (intro entered_below_child [OF t bp r refl ev _ _ _ _ _ _ _ new])
          (simp_all add: E1 True del: nodes.simps inner.simps leaf.simps tree_ok.simps power_Suc)
      then show ?thesis by (simp only: unfold True) (simp add: a u del: power_Suc path.simps)
    qed
  qed
qed

end
