(* ===== verification/ExtEnter.thy ===== *)
theory ExtEnter
  imports ExtGrow
begin

text \<open>
  \<open>enter_map_entry\<close> of block.c as a whole: the block of one position of the file becomes the one
  entered, and every other position keeps its block.
\<close>

section \<open>The map of an inode\<close>

definition root_depth :: "nat \<Rightarrow> nat" where
  "root_depth k = (if k < 12 then 0 else k - 11)"

lemma place_root:
  assumes "map_place (bs div 4) k = (slot, d, r)" and "k < 4194304" and "1024 \<le> bs"
  shows "slot < 15" "d = root_depth slot" "r < (bs div 4) ^ d" "d \<le> 3"
    "d = 0 \<Longrightarrow> slot = k \<and> k < 12 \<and> r = 0" "0 < d \<Longrightarrow> toplevel_slot d = Some slot"
proof -
  have "256 \<le> bs div 4" using assms(3) by simp
  note P = map_place_cases [OF assms(1,2) this]
  show "slot < 15" "r < (bs div 4) ^ d" "d \<le> 3" by (rule P)+
  show "d = root_depth slot" using P(4,5) by (cases "d = 0") (auto simp: root_depth_def)
  show "d = 0 \<Longrightarrow> slot = k \<and> k < 12 \<and> r = 0" using P(3,4) by auto
  assume "0 < d"
  then have "d = 1 \<or> d = 2 \<or> d = 3" using P(2) by auto
  then show "toplevel_slot d = Some slot" using P(5) by (auto simp: toplevel_slot_def)
qed

lemma place_eq:
  assumes "map_place a k = (slot, d, r)" and "map_place a k' = (slot, d', r')"
  shows "k' = k \<longleftrightarrow> r' = r"
  using assms by (auto simp: map_place_def split: if_splits)

definition root_nodes :: "'c block_cache \<Rightarrow> nat \<Rightarrow> 'c ext_state \<Rightarrow> nat \<Rightarrow> nat \<Rightarrow> u32 set" where
  "root_nodes bc bs s i k = nodes (entry bc s) (bs div 4) (root_depth k) (slots i s ! k)"

definition file_nodes :: "'c block_cache \<Rightarrow> nat \<Rightarrow> 'c ext_state \<Rightarrow> nat \<Rightarrow> u32 set" where
  "file_nodes bc bs s i = (\<Union>k<15. root_nodes bc bs s i k)"

definition root_inner :: "'c block_cache \<Rightarrow> nat \<Rightarrow> 'c ext_state \<Rightarrow> nat \<Rightarrow> nat \<Rightarrow> u32 set" where
  "root_inner bc bs s i k = inner (entry bc s) (bs div 4) (root_depth k) (slots i s ! k)"

definition file_inner :: "'c block_cache \<Rightarrow> nat \<Rightarrow> 'c ext_state \<Rightarrow> nat \<Rightarrow> u32 set" where
  "file_inner bc bs s i = (\<Union>k<15. root_inner bc bs s i k)"

text \<open>
  A well-formed map: no block occurs twice in the trees of the inode, and all of them are in use and
  are no bitmaps.
\<close>

definition map_ok :: "'c block_cache \<Rightarrow> nat \<Rightarrow> 'c ext_state \<Rightarrow> nat \<Rightarrow> bool" where
  "map_ok bc bs s i \<longleftrightarrow> i < length (inode_cache s) \<and> length (slots i s) = 15 \<and>
     (\<forall>k < 15. tree_ok (entry bc s) (bs div 4) (root_depth k) (slots i s ! k) \<and>
        (\<forall>l < 15. l \<noteq> k \<longrightarrow> root_nodes bc bs s i k \<inter> root_nodes bc bs s i l = {})) \<and>
     (\<forall>c \<in> file_nodes bc bs s i. block_used bc s (unat c) \<and> c \<notin> bitmap_blocks s)"

lemma map_okD:
  assumes "map_ok bc bs s i"
  shows "i < length (inode_cache s)" "length (slots i s) = 15"
    "k < 15 \<Longrightarrow> tree_ok (entry bc s) (bs div 4) (root_depth k) (slots i s ! k)"
    "k < 15 \<Longrightarrow> l < 15 \<Longrightarrow> l \<noteq> k \<Longrightarrow> root_nodes bc bs s i k \<inter> root_nodes bc bs s i l = {}"
    "c \<in> file_nodes bc bs s i \<Longrightarrow> block_used bc s (unat c)" "c \<in> file_nodes bc bs s i \<Longrightarrow> c \<notin> bitmap_blocks s"
  using assms by (auto simp: map_ok_def)

lemma root_nodes_file: "k < 15 \<Longrightarrow> root_nodes bc bs s i k \<subseteq> file_nodes bc bs s i"
  by (auto simp: file_nodes_def)

lemma root_inner_nodes: "root_inner bc bs s i k \<subseteq> root_nodes bc bs s i k"
  by (simp add: root_inner_def root_nodes_def inner_nodes)

lemma file_inner_nodes: "file_inner bc bs s i \<subseteq> file_nodes bc bs s i"
  using root_inner_nodes by (fastforce simp: file_inner_def file_nodes_def)

lemma root_inner_file: "k < 15 \<Longrightarrow> root_inner bc bs s i k \<subseteq> file_inner bc bs s i"
  by (auto simp: file_inner_def)

lemma map_block_slots:
  "map_block bc bs s i k = (case map_place (bs div 4) k of (slot, d, r) \<Rightarrow>
     leaf (entry bc s) (bs div 4) d (slots i s ! slot) r)"
  by (simp add: map_block_def slots_def)

text \<open>The block of a position is one of the blocks of the map.\<close>

lemma map_block_node:
  assumes "k < 4194304" and "1024 \<le> bs" and "map_block bc bs s i k \<noteq> NO_BLOCK"
  shows "map_block bc bs s i k \<in> file_nodes bc bs s i"
proof -
  obtain slot d r where pl: "map_place (bs div 4) k = (slot, d, r)" by (metis prod_cases3)
  note P = place_root [OF pl assms(1,2)]
  have "leaf (entry bc s) (bs div 4) d (slots i s ! slot) r \<in> nodes (entry bc s) (bs div 4) d (slots i s ! slot)"
    using assms(3) by (intro leaf_in_nodes P(3)) (simp add: map_block_slots pl)
  then have "map_block bc bs s i k \<in> root_nodes bc bs s i slot"
    using P(2) by (simp add: map_block_slots pl root_nodes_def)
  then show ?thesis using root_nodes_file [OF P(1)] by blast
qed

text \<open>One root is replaced by a tree that has, besides blocks of the old one, only new ones.\<close>

lemma replace_root:
  assumes ok: "map_ok bc bs s i" and k: "k < 15" and i': "i < length (inode_cache s')"
    and slots: "slots i s' = (slots i s)[k := c]"
    and other: "\<forall>l < 15. l \<noteq> k \<longrightarrow> (\<forall>x \<in> root_inner bc bs s i l. entry bc s' x = entry bc s x)"
    and sub: "tree_ok (entry bc s') (bs div 4) (root_depth k) c"
      "nodes (entry bc s') (bs div 4) (root_depth k) c \<subseteq> root_nodes bc bs s i k \<union> N"
    and N: "N \<inter> file_nodes bc bs s i = {}" "\<forall>x \<in> N. block_used bc s' (unat x) \<and> x \<notin> bitmap_blocks s'"
    and keep: "\<forall>m. block_used bc s m \<longrightarrow> block_used bc s' m" "bitmap_blocks s' = bitmap_blocks s"
  shows "map_ok bc bs s' i" and "file_nodes bc bs s' i \<subseteq> file_nodes bc bs s i \<union> N"
    and "map_place (bs div 4) k' = (slot, d, r) \<Longrightarrow> k' < 4194304 \<Longrightarrow> 1024 \<le> bs \<Longrightarrow>
      map_block bc bs s' i k' = (if slot = k then leaf (entry bc s') (bs div 4) d c r else map_block bc bs s i k')"
proof -
  note D = map_okD [OF ok]
  have len: "length (slots i s') = 15" using slots D(2) by simp
  have nth: "slots i s' ! l = (if l = k then c else slots i s ! l)" if "l < 15" for l
    using slots D(2) that by (simp add: nth_list_update)
  have same: "nodes (entry bc s') (bs div 4) (root_depth l) (slots i s ! l) = root_nodes bc bs s i l"
    "tree_ok (entry bc s') (bs div 4) (root_depth l) (slots i s ! l)"
    "\<And>r. r < (bs div 4) ^ root_depth l \<Longrightarrow> leaf (entry bc s') (bs div 4) (root_depth l) (slots i s ! l) r =
       leaf (entry bc s) (bs div 4) (root_depth l) (slots i s ! l) r" if l: "l < 15" "l \<noteq> k" for l
  proof -
    have "\<forall>x \<in> inner (entry bc s) (bs div 4) (root_depth l) (slots i s ! l). \<forall>j < bs div 4. entry bc s' x j = entry bc s x j"
      using other l by (simp add: root_inner_def)
    note T = tree_cong [OF this]
    show "nodes (entry bc s') (bs div 4) (root_depth l) (slots i s ! l) = root_nodes bc bs s i l"
      "tree_ok (entry bc s') (bs div 4) (root_depth l) (slots i s ! l)"
      using T(1,3) D(3) [OF l(1)] by (simp_all add: root_nodes_def)
    show "\<And>r. r < (bs div 4) ^ root_depth l \<Longrightarrow> leaf (entry bc s') (bs div 4) (root_depth l) (slots i s ! l) r =
       leaf (entry bc s) (bs div 4) (root_depth l) (slots i s ! l) r" by (rule T(4))
  qed
  have rn: "root_nodes bc bs s' i l = (if l = k then nodes (entry bc s') (bs div 4) (root_depth k) c
      else root_nodes bc bs s i l)" if "l < 15" for l
    using nth [OF that] same(1) [OF that] by (auto simp: root_nodes_def)
  have rk: "root_nodes bc bs s' i k \<subseteq> root_nodes bc bs s i k \<union> N" using rn [OF k] sub(2) by simp
  show nn: "file_nodes bc bs s' i \<subseteq> file_nodes bc bs s i \<union> N"
  proof
    fix x assume "x \<in> file_nodes bc bs s' i"
    then obtain l where l: "l < 15" "x \<in> root_nodes bc bs s' i l" by (auto simp: file_nodes_def)
    then show "x \<in> file_nodes bc bs s i \<union> N"
      using rn [OF l(1)] rk root_nodes_file [OF l(1), of bc bs s i] by (auto split: if_splits)
  qed
  have disj: "root_nodes bc bs s' i l \<inter> root_nodes bc bs s' i m = {}" if "l < 15" "m < 15" "m \<noteq> l" for l m
  proof -
    have *: "root_nodes bc bs s' i k \<inter> root_nodes bc bs s i m = {}" if m: "m < 15" "m \<noteq> k" for m
      using rk N(1) root_nodes_file [OF m(1), of bc bs s i] D(4) [OF k m(1)] m(2) by blast
    show ?thesis
    proof (cases "l = k \<or> m = k")
      case True
      then show ?thesis using * [of m] * [of l] rn that by auto
    next
      case False
      then show ?thesis using rn that D(4) by simp
    qed
  qed
  have tree: "tree_ok (entry bc s') (bs div 4) (root_depth l) (slots i s' ! l)" if "l < 15" for l
    using nth [OF that] sub(1) same(2) [OF that] by auto
  have "block_used bc s' (unat x) \<and> x \<notin> bitmap_blocks s'" if "x \<in> file_nodes bc bs s' i" for x
    using that nn N(2) D(5,6) keep by blast
  with i' len tree disj show "map_ok bc bs s' i" by (simp add: map_ok_def)
  assume pl: "map_place (bs div 4) k' = (slot, d, r)" and "k' < 4194304" "1024 \<le> bs"
  note P = place_root [OF this]
  show "map_block bc bs s' i k' = (if slot = k then leaf (entry bc s') (bs div 4) d c r else map_block bc bs s i k')"
    using nth [OF P(1)] same(3) [OF P(1)] P(2,3) by (simp add: map_block_slots pl)
qed


text \<open>Nothing of the map changes when the indirect blocks hold the same entries.\<close>

lemma map_same:
  assumes ok: "map_ok bc bs s i" and i': "i < length (inode_cache s')" and slots: "slots i s' = slots i s"
    and same: "\<forall>x \<in> file_inner bc bs s i. entry bc s' x = entry bc s x"
    and keep: "\<forall>m. block_used bc s m \<longrightarrow> block_used bc s' m" "bitmap_blocks s' = bitmap_blocks s"
  shows "map_ok bc bs s' i" and "file_nodes bc bs s' i \<subseteq> file_nodes bc bs s i"
    and "k < 4194304 \<Longrightarrow> 1024 \<le> bs \<Longrightarrow> map_block bc bs s' i k = map_block bc bs s i k"
proof -
  have s0: "slots i s' = (slots i s)[0 := slots i s ! 0]" using slots by simp
  have other: "\<forall>l < 15. l \<noteq> 0 \<longrightarrow> (\<forall>x \<in> root_inner bc bs s i l. entry bc s' x = entry bc s x)"
    using same root_inner_file by blast
  have sub: "tree_ok (entry bc s') (bs div 4) (root_depth 0) (slots i s ! 0)"
    "nodes (entry bc s') (bs div 4) (root_depth 0) (slots i s ! 0) \<subseteq> root_nodes bc bs s i 0 \<union> {}"
    by (simp_all add: root_depth_def root_nodes_def)
  note R = replace_root [OF ok _ i' s0 other sub _ _ keep, simplified]
  show "map_ok bc bs s' i" "file_nodes bc bs s' i \<subseteq> file_nodes bc bs s i" by (rule R)+
  assume k: "k < 4194304" "1024 \<le> bs"
  obtain slot d r where pl: "map_place (bs div 4) k = (slot, d, r)" by (metis prod_cases3)
  then show "map_block bc bs s' i k = map_block bc bs s i k"
    using R(3) [OF pl k] place_root(2) [OF pl k] by (auto simp: map_block_slots root_depth_def)
qed


section \<open>Entering a block\<close>

definition map_entered ::
    "'c block_cache \<Rightarrow> nat \<Rightarrow> ('c \<Rightarrow> u32 \<Rightarrow> bytes) \<Rightarrow> nat \<Rightarrow> nat \<Rightarrow> u32 \<Rightarrow> 'c ext_state \<Rightarrow>
     (int \<times> 'c ext_state) option \<Rightarrow> bool" where
  "map_entered bc bs kept i k new s R \<longleftrightarrow>
     (\<exists>sc s' F. R = Some (sc, s') \<and> extends bc bs kept i F (file_inner bc bs s i) s s' \<and> finite F \<and> card F \<le> 3 \<and>
        map_ok bc bs s' i \<and> file_nodes bc bs s' i \<subseteq> file_nodes bc bs s i \<union> F \<union> {new} \<and>
        (sc = 0 \<and> (\<forall>x < 4194304. map_block bc bs s' i x = (if x = k then new else map_block bc bs s i x)) \<or>
         sc = - ENOSPC \<and> card F < 3 \<and> (\<forall>m. block_used bc s' m) \<and>
           (\<forall>x < 4194304. map_block bc bs s' i x = map_block bc bs s i x)))"

text \<open>The root may be new, and the block is entered below it.\<close>

lemma map_entered_root:
  assumes inv: "alloc_inv bc bs s" and ok: "map_ok bc bs s i" and g: "1024 \<le> bs" and k: "k < 4194304"
    and pl: "map_place (bs div 4) k = (slot, d, r)"
    and e1: "extends bc bs kept i F1 {} s s1" "slots i s1 = (slots i s)[slot := ch]" "finite F1" "card F1 \<le> 1"
    and nodes1: "nodes (entry bc s1) (bs div 4) d ch \<subseteq> root_nodes bc bs s i slot \<union> F1"
    and inner1: "inner (entry bc s1) (bs div 4) d ch \<subseteq> file_inner bc bs s i \<union> F1"
    and leaf1: "\<forall>x < (bs div 4) ^ d. leaf (entry bc s1) (bs div 4) d ch x =
      leaf (entry bc s) (bs div 4) d (slots i s ! slot) x"
    and new: "new \<notin> file_nodes bc bs s i" "block_used bc s (unat new)" "new \<notin> bitmap_blocks s"
    and rec: "entered bc bs kept i (bs div 4) d ch r new s1 R"
  shows "map_entered bc bs kept i k new s R"
proof -
  let ?a = "bs div 4" and ?E1 = "entry bc s1"
  note P = place_root [OF pl k g] and D = map_okD [OF ok]
  obtain sc s' F2 where R: "R = Some (sc, s')" and e2: "extends bc bs kept i F2 (inner ?E1 ?a d ch) s1 s'"
    and sl: "slots i s' = slots i s1" and F2: "finite F2" "card F2 < d"
    and ok': "tree_ok (entry bc s') ?a d ch"
    and nodes': "nodes (entry bc s') ?a d ch \<subseteq> nodes ?E1 ?a d ch \<union> F2 \<union> {new}"
    and res: "sc = 0 \<and> (\<forall>x < ?a ^ d. leaf (entry bc s') ?a d ch x = (if x = r then new else leaf ?E1 ?a d ch x)) \<or>
        sc = - ENOSPC \<and> Suc (card F2) < d \<and> (\<forall>m. block_used bc s' m) \<and> (\<forall>x < ?a ^ d. leaf (entry bc s') ?a d ch x = leaf ?E1 ?a d ch x)"
    using rec unfolding entered_def by blast
  let ?F = "F1 \<union> F2"
  have e: "extends bc bs kept i ?F (file_inner bc bs s i) s s'"
    by (rule extends_sub [OF extends_trans [OF e1(1) e2]]) (use inner1 in blast)
  have free: "b \<in> ?F \<Longrightarrow> \<not> block_used bc s (unat b)" for b using extendsD(6) [OF e] .
  have F: "?F \<inter> file_nodes bc bs s i = {}" using free D(5) by blast
  have bits: "bitmap_blocks s' = bitmap_blocks s" by (rule volume_bitmaps [OF extendsD(3) [OF e]])
  have len: "length (inode_cache s') = length (inode_cache s)"
    using extendsD(4) [OF e] by (simp add: same_inodes_def)
  have other: "\<forall>l < 15. l \<noteq> slot \<longrightarrow> (\<forall>x \<in> root_inner bc bs s i l. entry bc s' x = entry bc s x)"
  proof (intro allI impI ballI)
    fix l x assume "l < 15" "l \<noteq> slot" "x \<in> root_inner bc bs s i l"
    then have l: "l < 15" "l \<noteq> slot" "x \<in> root_nodes bc bs s i l" using root_inner_nodes by blast+
    have x: "x \<in> file_nodes bc bs s i" using l root_nodes_file by blast
    have nx: "x \<notin> root_nodes bc bs s i slot" using l D(4) [OF P(1) l(1)] by blast
    have "block_data bc x s' = block_data bc x s1"
      using nx x F nodes1 inner_nodes [of ?E1 ?a d ch] D(6) [OF x] volume_bitmaps [OF extendsD(3) [OF e1(1)]]
      by (intro extendsD(8) [OF e2]) blast+
    also have "block_data bc x s1 = block_data bc x s"
      using x F D(6) [OF x] by (intro extendsD(8) [OF e1(1)]) blast+
    finally show "entry bc s' x = entry bc s x" by (rule entry_same) (rule volumeD(1) [OF extendsD(3) [OF e]])
  qed
  have sub: "nodes (entry bc s') ?a (root_depth slot) ch \<subseteq> root_nodes bc bs s i slot \<union> (?F \<union> {new})"
    using nodes' nodes1 P(2) by blast
  have N: "(?F \<union> {new}) \<inter> file_nodes bc bs s i = {}" using F new(1) by blast
  have keep: "\<forall>m. block_used bc s m \<longrightarrow> block_used bc s' m" using extendsD(7) [OF e] by blast
  have Nu: "\<forall>x \<in> ?F \<union> {new}. block_used bc s' (unat x) \<and> x \<notin> bitmap_blocks s'"
  proof
    fix x assume x: "x \<in> ?F \<union> {new}"
    show "block_used bc s' (unat x) \<and> x \<notin> bitmap_blocks s'"
    proof (cases "x \<in> ?F")
      case True
      then show ?thesis using free_not_bitmap(1) [OF inv free [OF True]] extendsD(7) [OF e] bits by blast
    next
      case False
      then show ?thesis using x new(2,3) keep bits by blast
    qed
  qed
  have slots': "slots i s' = (slots i s)[slot := ch]" using sl e1(2) by simp
  note RR = replace_root [OF ok P(1) _ slots' other ok' [unfolded P(2)] sub N Nu keep bits]
  have i': "i < length (inode_cache s')" using D(1) len by simp
  have same: "map_block bc bs s' i x = (if slot' = slot then leaf (entry bc s') ?a d ch r' else map_block bc bs s i x)"
    if "x < 4194304" "map_place ?a x = (slot', d', r')" for x slot' d' r'
    using RR(3) [OF i' that(2,1) g] place_root(2) [OF that(2,1) g] P(2) by simp
  have old: "map_block bc bs s i x = leaf ?E1 ?a d ch r'" "r' < ?a ^ d"
    if "x < 4194304" "map_place ?a x = (slot, d', r')" for x d' r'
    using leaf1 place_root(2,3) [OF that(2,1) g] P(2) by (simp_all add: map_block_slots that(2))
  have "sc = 0 \<and> (\<forall>x < 4194304. map_block bc bs s' i x = (if x = k then new else map_block bc bs s i x)) \<or>
      sc = - ENOSPC \<and> card ?F < 3 \<and> (\<forall>m. block_used bc s' m) \<and> (\<forall>x < 4194304. map_block bc bs s' i x = map_block bc bs s i x)"
    using res
  proof (elim disjE conjE)
    assume "sc = 0" and l: "\<forall>x < ?a ^ d. leaf (entry bc s') ?a d ch x = (if x = r then new else leaf ?E1 ?a d ch x)"
    have "map_block bc bs s' i x = (if x = k then new else map_block bc bs s i x)" if x: "x < 4194304" for x
    proof -
      obtain slot' d' r' where pl': "map_place ?a x = (slot', d', r')" by (metis prod_cases3)
      show ?thesis
      proof (cases "slot' = slot")
        case True
        with same [OF x pl'] old [OF x, of d' r'] pl' l place_eq [OF pl, of x d' r'] show ?thesis by simp
      next
        case False
        then have "x \<noteq> k" using pl pl' by auto
        with same [OF x pl'] False show ?thesis by simp
      qed
    qed
    with \<open>sc = 0\<close> show ?thesis by blast
  next
    assume f: "Suc (card F2) < d" and "sc = - ENOSPC" "\<forall>m. block_used bc s' m"
      and l: "\<forall>x < ?a ^ d. leaf (entry bc s') ?a d ch x = leaf ?E1 ?a d ch x"
    moreover have "card ?F < 3" using card_Un_le [of F1 F2] e1(4) f P(4) by linarith
    moreover have "map_block bc bs s' i x = map_block bc bs s i x" if x: "x < 4194304" for x
    proof -
      obtain slot' d' r' where pl': "map_place ?a x = (slot', d', r')" by (metis prod_cases3)
      with same [OF x pl'] old [OF x, of d' r'] l show ?thesis by auto
    qed
    ultimately show ?thesis by blast
  qed
  moreover have "card ?F \<le> 3" using card_Un_le [of F1 F2] e1(4) F2(2) P(4) by linarith
  moreover have "finite ?F" using e1(3) F2(1) by simp
  ultimately show ?thesis
    using R e RR(1,2) [OF i'] unfolding map_entered_def
    by (intro exI [of _ sc] exI [of _ s'] exI [of _ ?F]) (simp add: Un_assoc)
qed


text \<open>A direct block is entered in the inode itself.\<close>

lemma map_entered_direct:
  assumes inv: "alloc_inv bc bs s" and st: "settled bc kept s" and ok: "map_ok bc bs s i" and g: "1024 \<le> bs"
    and k: "k < 4194304" and pl: "map_place (bs div 4) k = (slot, 0, r)"
    and new: "new \<notin> file_nodes bc bs s i" "block_used bc s (unat new)" "new \<notin> bitmap_blocks s"
  shows "map_entered bc bs kept i k new s (Some (0, add_i_blocks i (set_i_block i slot new s)))"
proof -
  let ?s = "add_i_blocks i (set_i_block i slot new s)"
  note P = place_root [OF pl k g] and D = map_okD [OF ok]
  note e1 = upd_odi_extends(9) [OF inv st, of i "{}" slot new]
  note e2 = upd_odi_extends(1) [OF extendsD(1,2) [OF e1], of i "{}"]
  have e: "extends bc bs kept i {} {} s ?s" using extends_trans [OF e1 e2] by simp
  have E: "entry bc ?s = entry bc s"
    using upd_odi_extends(3) [OF extendsD(1,2) [OF e1]] upd_odi_extends(11) [OF inv st] by simp
  have sl: "slots i ?s = (slots i s)[slot := new]"
    using upd_odi_extends(2) [OF extendsD(1,2) [OF e1]] upd_odi_extends(10) [OF inv st D(1)] by simp
  have len: "i < length (inode_cache ?s)" using extendsD(4) [OF e] D(1) by (simp add: same_inodes_def)
  have bits: "bitmap_blocks ?s = bitmap_blocks s" by (rule volume_bitmaps [OF extendsD(3) [OF e]])
  have keep: "\<forall>m. block_used bc s m \<longrightarrow> block_used bc ?s m" using extendsD(7) [OF e] by simp
  have sub: "tree_ok (entry bc ?s) (bs div 4) (root_depth slot) new"
    "nodes (entry bc ?s) (bs div 4) (root_depth slot) new \<subseteq> root_nodes bc bs s i slot \<union> {new}"
    by (simp_all add: P(2) [symmetric])
  have N: "{new} \<inter> file_nodes bc bs s i = {}" "\<forall>x \<in> {new}. block_used bc ?s (unat x) \<and> x \<notin> bitmap_blocks ?s"
    using new keep bits by auto
  note R = replace_root [OF ok P(1) len sl _ sub N keep bits]
  have blk: "map_block bc bs ?s i x = (if x = k then new else map_block bc bs s i x)" if x: "x < 4194304" for x
  proof -
    obtain slot' d' r' where pl': "map_place (bs div 4) x = (slot', d', r')" by (metis prod_cases3)
    show ?thesis
    proof (cases "slot' = slot")
      case True
      then have "d' = 0" using place_root(2) [OF pl' x g] P(2) by simp
      then have "r' = 0" "x = k"
        using place_root(5) [OF pl' x g] P(5) True by auto
      with R(3) [OF _ pl' x g] True \<open>d' = 0\<close> show ?thesis by (simp add: E)
    next
      case False
      then have "x \<noteq> k" using pl pl' by auto
      with R(3) [OF _ pl' x g] False show ?thesis by (simp add: E)
    qed
  qed
  have "extends bc bs kept i {} (file_inner bc bs s i) s ?s" by (rule extends_mono [OF e]) simp
  with blk R(1,2) show ?thesis
    unfolding map_entered_def by (intro exI [of _ 0] exI [of _ ?s] exI [of _ "{}"]) (simp add: E)
qed

text \<open>The result of entering is the same when only the bookkeeping of the inode changed before.\<close>

lemma map_entered_after:
  assumes ok: "map_ok bc bs s i" and g: "1024 \<le> bs" and e: "extends bc bs kept i {} {} s s1"
    and same: "slots i s1 = slots i s" "entry bc s1 = entry bc s"
    and rec: "map_entered bc bs kept i k new s1 R"
  shows "map_entered bc bs kept i k new s R"
proof -
  have v: "file_inner bc bs s1 i = file_inner bc bs s i" "file_nodes bc bs s1 i = file_nodes bc bs s i"
    "map_block bc bs s1 i = map_block bc bs s i"
    by (simp_all add: file_inner_def root_inner_def file_nodes_def root_nodes_def fun_eq_iff map_block_slots same)
  have "extends bc bs kept i F C s1 s' \<Longrightarrow> extends bc bs kept i F C s s'" for F C s'
    using extends_trans [OF e, of F C s'] by simp
  then show ?thesis using rec unfolding map_entered_def v by blast
qed

lemma map_ok_after:
  assumes ok: "map_ok bc bs s i" and e: "extends bc bs kept i {} C s s1"
    and same: "slots i s1 = slots i s" "entry bc s1 = entry bc s"
  shows "map_ok bc bs s1 i" and "file_nodes bc bs s1 i = file_nodes bc bs s i"
proof -
  show "map_ok bc bs s1 i"
    using map_okD(1) [OF ok] extendsD(4,7) [OF e] volume_bitmaps [OF extendsD(3) [OF e]]
    by (intro map_same(1) [OF ok]) (simp_all add: same same_inodes_def)
  show "file_nodes bc bs s1 i = file_nodes bc bs s i"
    by (simp add: file_nodes_def root_nodes_def same)
qed


lemma enter_map_entry_below:
  assumes "calc_block_indirection_offsets pos s = Some (int d, w # offs)" and "0 < d" and "offs \<noteq> []"
    and "toplevel_slot d = Some slot"
  shows "enter_map_entry bc rnd i pos new s =
    (let s0 = inode_markdirty i s in
     if slots i s0 ! slot = NO_BLOCK then do {
       (block, s1) \<leftarrow> alloc_block bc rnd i NO_BLOCK s0;
       if block = NO_BLOCK then Some (- ENOSPC, s1)
       else do {
         s2 \<leftarrow> clear_new_block bc block s1;
         enter_below bc rnd i offs new block (add_i_blocks i (set_i_block i slot block s2))
       }
     } else enter_below bc rnd i offs new (slots i s0 ! slot) s0)"
  using assms
  by (auto simp: enter_map_entry_def enter_below_def Let_def get_toplevel_indirect_block_entry_def
      set_toplevel_indirect_block_entry_def slots_def split: Option.bind_split prod.splits if_splits)

text \<open>A missing root is allocated, cleared and put into its slot.\<close>

lemma fresh_root:
  assumes c: "block_cache_contract bc bs kept marked" and bs: "4 * a = bs" and inv: "alloc_inv bc bs s"
    and i: "i < length (inode_cache s)" and e1: "extends bc bs kept i {b} {} s s1" "slots i s1 = slots i s"
  obtains s2 where "clear_new_block bc b s1 = Some s2"
    "extends bc bs kept i {b} {} s (add_i_blocks i (set_i_block i slot b s2))"
    "slots i (add_i_blocks i (set_i_block i slot b s2)) = (slots i s)[slot := b]"
    "\<forall>k < a. entry bc (add_i_blocks i (set_i_block i slot b s2)) b k = NO_BLOCK"
proof -
  have free: "\<not> block_used bc s (unat b)" using extendsD(6) [OF e1(1)] by simp
  have bits1: "bitmap_blocks s1 = bitmap_blocks s" by (rule volume_bitmaps [OF extendsD(3) [OF e1(1)]])
  obtain s2 where s2: "clear_new_block bc b s1 = Some s2" "extends bc bs kept i {} {b} s1 s2" "slots i s2 = slots i s1"
    "\<And>b'. block_data bc b' s2 = (if b' = b then replicate bs 0 else block_data bc b' s1)"
    using clear_extends [OF c extendsD(1,2) [OF e1(1)]] free_not_bitmap(1) [OF inv free] bits1 by metis
  let ?t = "set_i_block i slot b s2" and ?v = "add_i_blocks i (set_i_block i slot b s2)"
  note e3 = upd_odi_extends(9) [OF extendsD(1,2) [OF s2(2)], of i "{}" slot b]
  note e4 = upd_odi_extends(1) [OF extendsD(1,2) [OF e3], of i "{}"]
  have "extends bc bs kept i {b} {} s ?v"
    by (rule extends_sub [of _ _ _ _ _ "{b}"])
      (use extends_trans [OF extends_trans [OF extends_trans [OF e1(1) s2(2)] e3] e4] in simp_all)
  moreover have "i < length (inode_cache s2)"
    using i extendsD(4) [OF extends_trans [OF e1(1) s2(2)]] by (simp add: same_inodes_def)
  then have "slots i ?v = (slots i s)[slot := b]"
    using upd_odi_extends(2) [OF extendsD(1,2) [OF e3]] upd_odi_extends(10) [OF extendsD(1,2) [OF s2(2)]]
      s2(3) e1(2) by simp
  moreover have "block_data bc b ?v = replicate bs 0"
    using upd_odi_extends(4) [OF extendsD(1,2) [OF e3]] upd_odi_extends(12) [OF extendsD(1,2) [OF s2(2)]] s2(4)
    by simp
  then have "\<forall>k < a. entry bc ?v b k = NO_BLOCK"
    using bs by (auto intro: entry_zero)
  ultimately show ?thesis using that s2(1) by blast
qed

lemma enter_map_entry_block:
  assumes c: "block_cache_contract bc bs kept marked" and g: "map_geometry bs s" and inv: "alloc_inv bc bs s"
    and st: "settled bc kept s" and ok: "map_ok bc bs s i" and p: "p < 4294967296"
    and new: "new \<notin> file_nodes bc bs s i" "block_used bc s (unat new)" "new \<notin> bitmap_blocks s"
  shows "map_entered bc bs kept i (p div bs) new s (enter_map_entry bc rnd i (word_of_nat p) new s)"
proof -
  note G = map_geometryD [OF g]
  let ?a = "bs div 4" and ?k = "p div bs" and ?s = "inode_markdirty i s"
  obtain slot d r where pl: "map_place ?a ?k = (slot, d, r)" by (metis prod_cases3)
  have k: "?k < 4194304" using p G(2) by (simp add: div_less_iff_less_mult)
  note P = place_root [OF pl k G(2)]
  note calc = calc_block_indirection_offsets_place [OF g p pl]
  note e = upd_odi_extends(5) [OF inv st, of i "{}"]
  have same: "slots i ?s = slots i s" "entry bc ?s = entry bc s"
    using upd_odi_extends(6,7) [OF inv st] by auto
  have ok1: "map_ok bc bs ?s i" and fn: "file_nodes bc bs ?s i = file_nodes bc bs s i"
    by (rule map_ok_after [OF ok e same])+
  have new1: "new \<notin> file_nodes bc bs ?s i" "block_used bc ?s (unat new)" "new \<notin> bitmap_blocks ?s"
    using new fn extendsD(7) [OF e] volume_bitmaps [OF extendsD(3) [OF e]] by auto
  note inv1 = extendsD(1) [OF e] and st1 = extendsD(2) [OF e]
  have "map_entered bc bs kept i ?k new ?s (enter_map_entry bc rnd i (word_of_nat p) new s)"
  proof (cases "d = 0")
    case True
    have "unat (word_of_nat slot :: u32) = slot" using P(1) by (intro unat_word_of_nat32) simp
    then have "enter_map_entry bc rnd i (word_of_nat p) new s = Some (0, add_i_blocks i (set_i_block i slot new ?s))"
      using calc True by (simp add: enter_map_entry_def Let_def)
    then show ?thesis using map_entered_direct [OF inv1 st1 ok1 G(2) k pl [unfolded True] new1] by simp
  next
    case False
    let ?top = "slots i ?s ! slot" and ?path = "map word_of_nat (path ?a d r) :: u32 list"
    have ne: "?path \<noteq> []" using False by (cases d) simp_all
    note unfold = enter_map_entry_below [OF calc _ ne P(6), unfolded Let_def, of bc rnd i new]
    have tree: "tree_ok (entry bc ?s) ?a d ?top" "nodes (entry bc ?s) ?a d ?top = root_nodes bc bs ?s i slot"
      "inner (entry bc ?s) ?a d ?top = root_inner bc bs ?s i slot"
      using map_okD(3) [OF ok1 P(1)] P(2) by (simp_all add: root_nodes_def root_inner_def)
    note below = enter_below_ok [OF c G(4) _, where i = i and rnd = rnd and d = "d - 1" and r = r and new = new]
    show ?thesis
    proof (cases "?top = NO_BLOCK")
      case top: False
      have "tree_in bc ?s ?a d ?top"
        using tree map_okD(5,6) [OF ok1] root_nodes_file [OF P(1)] by (fastforce simp: tree_in_def)
      moreover have "new \<notin> nodes (entry bc ?s) ?a d ?top" using tree(2) root_nodes_file [OF P(1)] new1(1) by blast
      ultimately have "entered bc bs kept i ?a d ?top r new ?s (enter_below bc rnd i ?path new ?top ?s)"
        using below [of ?s ?top] inv1 st1 top P(3) new1(2) False G(3) by simp
      then have "map_entered bc bs kept i ?k new ?s (enter_below bc rnd i ?path new ?top ?s)"
        using tree root_inner_file [OF P(1), of bc bs ?s i] looked_extends(1) [OF looked_refl inv1 st1, of i "{}"]
        by (intro map_entered_root [OF inv1 ok1 G(2) k pl, where ch = ?top and ?F1.0 = "{}" and ?s1.0 = ?s] new1) simp_all
      then show ?thesis using unfold False top by simp
    next
      case True
      show ?thesis
      proof (rule alloc_extends [OF c inv1 st1, of rnd i])
        assume a: "alloc_block bc rnd i NO_BLOCK ?s = Some (NO_BLOCK, ?s)" "\<forall>m. block_used bc ?s m"
        then have "enter_map_entry bc rnd i (word_of_nat p) new s = Some (- ENOSPC, ?s)"
          using unfold False True by simp
        with a(2) ok1 looked_extends(1) [OF looked_refl inv1 st1, of i "file_inner bc bs ?s i"] show ?thesis
          unfolding map_entered_def by (intro exI [of _ "- ENOSPC"] exI [of _ ?s] exI [of _ "{}"]) auto
      next
        fix b s1 assume a: "alloc_block bc rnd i NO_BLOCK ?s = Some (b, s1)" "b \<noteq> NO_BLOCK"
          "extends bc bs kept i {b} {} ?s s1" "slots i s1 = slots i ?s"
        obtain s2 where s2: "clear_new_block bc b s1 = Some s2"
          "extends bc bs kept i {b} {} ?s (add_i_blocks i (set_i_block i slot b s2))"
          "slots i (add_i_blocks i (set_i_block i slot b s2)) = (slots i ?s)[slot := b]"
          "\<forall>k < ?a. entry bc (add_i_blocks i (set_i_block i slot b s2)) b k = NO_BLOCK"
          using fresh_root [OF c G(4) inv1 map_okD(1) [OF ok1] a(3,4)] by metis
        let ?v = "add_i_blocks i (set_i_block i slot b s2)"
        obtain d' where d: "d = Suc d'" using False by (cases d) auto
        have Eb: "nodes (entry bc ?v) ?a d b = {b}" "inner (entry bc ?v) ?a d b = {b}"
          "tree_ok (entry bc ?v) ?a d b" "\<forall>x < ?a ^ d. leaf (entry bc ?v) ?a d b x = NO_BLOCK"
          using s2(4) a(2) digit_bounds by (auto simp: d)
        have bfree: "\<not> block_used bc ?s (unat b)" using extendsD(6) [OF s2(2)] by simp
        have "tree_in bc ?v ?a d b"
          using Eb(1,3) free_not_bitmap(1) [OF inv1 bfree] volume_bitmaps [OF extendsD(3) [OF s2(2)]]
            extendsD(7) [OF s2(2)] by (simp add: tree_in_def)
        moreover have "new \<noteq> b" using new1(2) bfree by auto
        ultimately have "entered bc bs kept i ?a d b r new ?v (enter_below bc rnd i ?path new b ?v)"
          using below [of ?v b] extendsD(1,2,7) [OF s2(2)] a(2) P(3) new1(2) False G(3) Eb(1) by simp
        then have "map_entered bc bs kept i ?k new ?s (enter_below bc rnd i ?path new b ?v)"
          using s2 Eb True
          by (intro map_entered_root [OF inv1 ok1 G(2) k pl, where ch = b and ?F1.0 = "{b}" and ?s1.0 = ?v] new1)
            simp_all
        then show ?thesis using unfold False True a(1,2) s2(1) by simp
      qed
    qed
  qed
  then show ?thesis by (rule map_entered_after [OF ok G(2) e same])
qed



section \<open>What entering a block promises\<close>

lemma demo_volume_simps [simp]:
  "groups demo_volume = 1" "per_group demo_volume = 16" "block_no demo_volume 0 k = 1 + k"
  by (simp_all add: demo_volume_def groups_def per_group_def block_no_def)

lemma demo_volume_bitmap: "group_bitmap (memory_block_cache 1024) demo_volume 0 = 0x3F # replicate 255 0"
proof -
  have d: "block_data (memory_block_cache 1024) 1 demo_volume = 0x3F # replicate 1023 0"
    by (simp add: block_data_def memory_block_cache_def demo_volume_def ext_globals_def demo_block_def fit_def)
  have z: "dec32 False 0 0 0 0 = 0" "dec32 False 0x3F 0 0 0 = 0x3F" by (simp_all add: dec32_def)
  have "words32 False (0x3F # replicate 1023 0) = 0x3F # replicate 255 0"
  proof (rule nth_equalityI)
    fix k assume "k < length (words32 False (0x3F # replicate 1023 0))"
    then have k: "k < 256" by simp
    then show "words32 False (0x3F # replicate 1023 0) ! k = (0x3F # replicate 255 0) ! k"
      using z by (cases k) (simp_all add: nth_words32 nth_Cons' numeral_2_eq_2 numeral_3_eq_3)
  qed simp
  then show ?thesis using d by (simp add: group_bitmap_def) (simp add: demo_volume_def ext_globals_def)
qed

lemma demo_volume_free: "free_bits (memory_block_cache 1024) demo_volume 0 = {6..<16}"
proof -
  have "(0x3F :: u32) = mask 6" by (simp add: mask_eq_exp_minus_1)
  then have b: "bit (0x3F :: u32) k \<longleftrightarrow> k < 6" if "k < 16" for k
    using that by (simp only: bit_mask_iff) simp
  have "bit_used (0x3F # replicate 255 0) k \<longleftrightarrow> k < 6" if k: "k < 16" for k
  proof -
    have "k div 32 = 0" "k mod 32 = k" using k by simp_all
    then show ?thesis by (simp only: bit_used_def nth_Cons_0 b [OF k])
  qed
  then show ?thesis by (auto simp: free_bits_def demo_volume_bitmap)
qed

lemma demo_volume_inv: "alloc_inv (memory_block_cache 1024) 1024 demo_volume"
proof -
  have "check_block_number (group_descs demo_volume ! 0) (word_of_nat (1 + k)) demo_volume = Some ()"
    if k: "k \<in> {6..<16}" for k
  proof -
    have "unat (word_of_nat (1 + k) :: u32) = 1 + k" using k by (intro unat_word_of_nat32) simp
    with k show ?thesis
      by (simp add: demo_volume_def ext_globals_def check_block_number_def word_unat_eq_iff word_less_nat_alt word_le_nat_alt)
  qed
  then show ?thesis
    unfolding alloc_inv_def
    by (simp add: demo_volume_free) (simp add: demo_volume_def ext_globals_def inj_on_def)
qed

lemma demo_volume_used: "block_used (memory_block_cache 1024) demo_volume n \<longleftrightarrow> n \<notin> {7..<17}"
proof -
  have "block_used (memory_block_cache 1024) demo_volume n \<longleftrightarrow> \<not> (\<exists>k \<in> {6..<16}. n = 1 + k)"
    by (simp add: block_used_def demo_volume_free)
  also have "(\<exists>k \<in> {6..<16}. n = 1 + k) \<longleftrightarrow> n \<in> {7..<17}"
    by (auto simp: Bex_def intro!: exI [of _ "n - 1"])
  finally show ?thesis .
qed

lemma demo_volume_slots: "slots 0 demo_volume = [4, 0, 5] @ replicate 12 0"
  by (simp add: slots_def the_inode_def demo_volume_def demo_inode_def)

lemma demo_volume_bitmaps: "bitmap_blocks demo_volume = {1}"
  by (simp add: bitmap_blocks_def demo_volume_def)

lemma demo_volume_nodes:
  "k < 15 \<Longrightarrow> root_nodes bc bs demo_volume 0 k = (if k = 0 then {4} else if k = 2 then {5} else {})"
  "k < 15 \<Longrightarrow> tree_ok (entry bc demo_volume) a (root_depth k) (slots 0 demo_volume ! k)"
proof -
  assume k: "k < 15"
  have s: "slots 0 demo_volume ! k = (if k = 0 then 4 else if k = 2 then 5 else 0)"
    using k by (simp add: demo_volume_slots nth_append nth_Cons')
  then show "root_nodes bc bs demo_volume 0 k = (if k = 0 then {4} else if k = 2 then {5} else {})"
    "tree_ok (entry bc demo_volume) a (root_depth k) (slots 0 demo_volume ! k)"
    by (simp_all add: root_nodes_def root_depth_def)
qed

lemma demo_volume_map:
  "map_ok (memory_block_cache 1024) 1024 demo_volume 0" "file_nodes bc bs demo_volume 0 = {4, 5}"
proof -
  show f: "file_nodes bc bs demo_volume 0 = {4, 5}" for bc :: "memory_cache block_cache" and bs
    by (auto simp: file_nodes_def demo_volume_nodes split: if_splits intro: bexI [of _ 0] bexI [of _ 2])
  have "length (slots 0 demo_volume) = 15" by (simp add: demo_volume_slots)
  moreover have "0 < length (inode_cache demo_volume)" by (simp add: demo_volume_def)
  ultimately show "map_ok (memory_block_cache 1024) 1024 demo_volume 0"
    using demo_volume_nodes unfolding map_ok_def by (auto simp: f demo_volume_used demo_volume_bitmaps)
qed


lemma entered_free:
  assumes "map_entered bc bs kept i k new s R" and inv: "alloc_inv bc bs s" and free: "3 \<le> card {m. \<not> block_used bc s m}"
  shows "\<exists>s'. R = Some (0, s')"
proof (rule ccontr)
  assume no: "\<nexists>s'. R = Some (0, s')"
  obtain sc s' F where r: "R = Some (sc, s')" "extends bc bs kept i F (file_inner bc bs s i) s s'" "finite F"
    "sc = 0 \<or> card F < 3 \<and> (\<forall>m. block_used bc s' m)"
    using assms(1) unfolding map_entered_def by blast
  with no have f: "card F < 3" "\<forall>m. block_used bc s' m" by auto
  then have "{m. \<not> block_used bc s m} \<subseteq> unat ` F" using extendsD(7) [OF r(2)] by blast
  then have "card {m. \<not> block_used bc s m} \<le> card F"
    using r(3) by (meson card_image_le card_mono finite_imageI le_trans)
  with free f(1) show False by simp
qed

text \<open>C12. \<open>enter_map_entry\<close> always returns. When it returns 0, \<open>read_map_entry\<close> finds the block entered for
  every position in that block of the file, and for every other position of 32 bits what it found
  before, whichever direct or indirect blocks are on the way; the map stays well formed and the bitmaps
  consistent. Otherwise it returns ENOSPC, no block is left free and every position keeps its block.
  Three free blocks are always enough.\<close>

theorem ext_map_entry_entered:
  assumes c: "block_cache_contract bc bs kept marked" and g: "map_geometry bs s" and inv: "alloc_inv bc bs s"
    and st: "settled bc kept s" and ok: "map_ok bc bs s i" and p: "p < 2 ^ 32"
    and new: "new \<notin> file_nodes bc bs s i" "block_used bc s (unat new)" "new \<notin> bitmap_blocks s"
  shows "\<exists>sc s'. enter_map_entry bc rnd i (word_of_nat p) new s = Some (sc, s') \<and>
    alloc_inv bc bs s' \<and> map_ok bc bs s' i \<and> (3 \<le> card {m. \<not> block_used bc s m} \<longrightarrow> sc = 0) \<and>
    (sc = 0 \<and> (\<forall>q < 2 ^ 32. map_option fst (read_map_entry bc i (word_of_nat q) s') =
        (if q div bs = p div bs then Some new else map_option fst (read_map_entry bc i (word_of_nat q) s))) \<or>
     sc = - ENOSPC \<and> (\<forall>m. block_used bc s' m) \<and>
       (\<forall>q < 2 ^ 32. map_option fst (read_map_entry bc i (word_of_nat q) s') =
          map_option fst (read_map_entry bc i (word_of_nat q) s)))"
proof -
  have m: "map_entered bc bs kept i (p div bs) new s (enter_map_entry bc rnd i (word_of_nat p) new s)"
    using p by (intro enter_map_entry_block [OF c g inv st ok _ new]) simp
  then obtain sc s' F where r: "enter_map_entry bc rnd i (word_of_nat p) new s = Some (sc, s')"
    "extends bc bs kept i F (file_inner bc bs s i) s s'" "map_ok bc bs s' i"
    "sc = 0 \<and> (\<forall>x < 4194304. map_block bc bs s' i x = (if x = p div bs then new else map_block bc bs s i x)) \<or>
     sc = - ENOSPC \<and> (\<forall>m. block_used bc s' m) \<and> (\<forall>x < 4194304. map_block bc bs s' i x = map_block bc bs s i x)"
    unfolding map_entered_def by blast
  note e = extendsD [OF r(2)]
  have g': "map_geometry bs s'" using g volumeD(7) [OF e(3)] by blast
  have rd: "map_option fst (read_map_entry bc i (word_of_nat q) t) = Some (map_block bc bs t i (q div bs))"
    if "map_geometry bs t" "settled bc kept t" "q < 2 ^ 32" for q t
  proof -
    have w: "ucast (word_of_nat q :: 64 word) = (word_of_nat q :: u32)"
      using that(3) by (simp add: unsigned_ucast_eq word_unat_eq_iff unsigned_of_nat take_bit_eq_mod)
    from that(3) have "q < 4294967296" by simp
    from read_map_entry_block [OF c that(1,2) this w] show ?thesis by (metis fst_conv option.map(2))
  qed
  have q: "q div bs < 4194304" if "q < 2 ^ 32" for q
    using that map_geometryD(2) [OF g] by (simp add: div_less_iff_less_mult)
  have "3 \<le> card {m. \<not> block_used bc s m} \<longrightarrow> sc = 0" using entered_free [OF m inv] r(1) by auto
  moreover have "sc = 0 \<and> (\<forall>q < 2 ^ 32. map_option fst (read_map_entry bc i (word_of_nat q) s') =
        (if q div bs = p div bs then Some new else map_option fst (read_map_entry bc i (word_of_nat q) s))) \<or>
     sc = - ENOSPC \<and> (\<forall>m. block_used bc s' m) \<and>
       (\<forall>q < 2 ^ 32. map_option fst (read_map_entry bc i (word_of_nat q) s') =
          map_option fst (read_map_entry bc i (word_of_nat q) s))"
    using r(4)
  proof (elim disjE conjE)
    assume "sc = 0" and b: "\<forall>x < 4194304. map_block bc bs s' i x = (if x = p div bs then new else map_block bc bs s i x)"
    have "map_option fst (read_map_entry bc i (word_of_nat x) s') =
        (if x div bs = p div bs then Some new else map_option fst (read_map_entry bc i (word_of_nat x) s))"
      if "x < 2 ^ 32" for x
      unfolding rd [OF g st that] rd [OF g' e(2) that] using b q [OF that] by simp
    with \<open>sc = 0\<close> show ?thesis by blast
  next
    assume "sc = - ENOSPC" "\<forall>m. block_used bc s' m" and b: "\<forall>x < 4194304. map_block bc bs s' i x = map_block bc bs s i x"
    moreover have "map_option fst (read_map_entry bc i (word_of_nat x) s') =
        map_option fst (read_map_entry bc i (word_of_nat x) s)" if "x < 2 ^ 32" for x
      unfolding rd [OF g st that] rd [OF g' e(2) that] using b q [OF that] by simp
    ultimately show ?thesis by blast
  qed
  ultimately show ?thesis using r(1,3) e(1) by blast
qed

text \<open>Block 6 is entered as the block 100 of the file, which needs an indirect block.\<close>

theorem ext_map_entry_entered_witness:
  "\<exists>sc s'. enter_map_entry (memory_block_cache 1024) 0 0 (word_of_nat 102400) 6 demo_volume = Some (sc, s') \<and>
    alloc_inv (memory_block_cache 1024) 1024 s' \<and> map_ok (memory_block_cache 1024) 1024 s' 0 \<and>
    (3 \<le> card {m. \<not> block_used (memory_block_cache 1024) demo_volume m} \<longrightarrow> sc = 0) \<and>
    (sc = 0 \<and> (\<forall>q < 2 ^ 32. map_option fst (read_map_entry (memory_block_cache 1024) 0 (word_of_nat q) s') =
        (if q div 1024 = 102400 div 1024 then Some 6
         else map_option fst (read_map_entry (memory_block_cache 1024) 0 (word_of_nat q) demo_volume))) \<or>
     sc = - ENOSPC \<and> (\<forall>m. block_used (memory_block_cache 1024) s' m) \<and>
       (\<forall>q < 2 ^ 32. map_option fst (read_map_entry (memory_block_cache 1024) 0 (word_of_nat q) s') =
          map_option fst (read_map_entry (memory_block_cache 1024) 0 (word_of_nat q) demo_volume)))"
  by (rule ext_map_entry_entered [OF memory_cache_contract demo_volume_geometry demo_volume_inv
        demo_volume_settled demo_volume_map(1)])
    (simp_all add: demo_volume_map(2) demo_volume_used demo_volume_bitmaps)

end
