(* ===== verification/Spec2Isabelle.thy ===== *)
theory Spec2Isabelle
  imports Devfs Ifs ExtOps ExtSuper ExtAlloc FatInit FatMain FatVolume Replies Servers FatMount FatReach
    ExtEnter
begin

text \<open>
  A model of the file system handlers of CheviotOS: \<open>devfs\<close>, \<open>ifs\<close>, \<open>extfs\<close> and \<open>fatfs\<close>
  under src/. Each handler is a process that mounts itself, receives the requests of the virtual
  file system as messages and answers each with \<open>replymsg\<close>, after sending or receiving data with
  \<open>writemsg\<close> and \<open>readmsg\<close>.

  \<^bold>\<open>How the code is modelled.\<close> Every function of the code is a function of the same name over an
  explicit state. A C integer is a word of its width, or an \<open>int\<close> with the conversion written out
  where the code mixes widths; error codes are negative integers. The outer \<open>option\<close> of a result is
  the code's definedness: None is a read outside a buffer, a null pointer followed, a division by
  zero, \<open>exit\<close> or \<open>panic\<close>, or a loop that never ends (loops without an obvious bound are
  \<open>partial_function (option)\<close>, all others have a termination proof). An inner None is the code's own
  NULL or -1. A pointer to a cached object is an index into a list. The messages of a request are a
  list of \<open>ipc_out\<close>, and what the kernel, \<open>malloc\<close>, uninitialised memory and the block device do are
  arguments of the model.

  \<^bold>\<open>The parts.\<close>

  \<^item> \<open>Prelude\<close>, \<open>Packed\<close>: bytes, words in both byte orders, C strings, packed structures. \<open>Ipc\<close>: the
    messages. \<open>Alloc\<close>: the locale \<open>slot_allocator\<close>, the contract of an allocator of numbered slots,
    with what follows from it for a client. \<open>Disk\<close>: the locale \<open>byte_store\<close>, the contract of a
    store of bytes read and written through sectors.
  \<^item> devfs (src/devfs): \<open>Devfs\<close>: the node table and the handlers.
  \<^item> ifs (src/ifs): \<open>Ifs\<close>: the boot image, its nodes and the handlers.
  \<^item> extfs (src/extfs): \<open>ExtTypes\<close> (ext2.h, globals.c), \<open>ExtBitmap\<close> (bitmap.c, utility.c),
    \<open>ExtSuper\<close> (superblock.c), \<open>ExtBlock\<close> (block.c, inode_block.c and the like), \<open>ExtInodeCache\<close>
    (inode.c, inode_cache.c), \<open>ExtDir\<close> (dir*.c, lookup), \<open>ExtFile\<close> (read.c, write.c), \<open>ExtOps\<close>
    (ops_*.c, main.c). \<open>ExtAlloc\<close> proves the allocator of blocks and interprets \<open>slot_allocator\<close>.
    \<open>ExtTree\<close> has trees of blocks, \<open>ExtMap\<close> shows that \<open>read_map_entry\<close> finds the leaf of a file
    position in the trees of the inode, \<open>ExtRead\<close> what reading a file delivers; \<open>ExtGrow\<close> has the
    relation \<open>extends\<close>, what writing may change, and \<open>ExtEnter\<close> that \<open>enter_map_entry\<close> updates one position.
    The block cache is a library outside the repository, the argument \<open>bc\<close>;
    \<open>block_cache_contract\<close> states what the proofs use of it.
  \<^item> fatfs (src/fatfs): \<open>FatSector\<close> (sector.c), \<open>FatTypes\<close> (fat.h, globals.c), \<open>FatCluster\<close>
    (cluster.c), \<open>FatDir\<close> (dir.c), \<open>FatNode\<close> (node.c, lookup.c), \<open>FatFile\<close> (file.c), \<open>FatFormat\<close>
    (format.c), \<open>FatInit\<close> (init.c), \<open>FatMain\<close> (main.c). The block device is the argument \<open>dv\<close>, with
    \<open>device_contract\<close>.

  \<^bold>\<open>What is proved.\<close> The proofs about fatfs are stacked as the code is: \<open>FatCache\<close> shows that the
  sector cache keeps its lists and its data consistent and interprets \<open>byte_store\<close>; \<open>FatStore\<close>
  draws from it that runs of the cache refine a plain array of bytes, that flushing makes the device
  current, and the store of a partition; \<open>FatTable\<close> reads that store as a table of entries, with the
  FAT12 entries that share a byte; \<open>FatChain\<close> shows the search for a free cluster and interprets
  \<open>slot_allocator\<close>; \<open>FatData\<close> has chains, and files as lists of bytes; \<open>FatGrow\<close> what
  appending a cluster does, and writing past the clusters of a file; \<open>FatVolume\<close> the promises of a
  mounted volume; \<open>FatMount\<close> shows that start-up mounts such volumes. \<open>Keeps\<close> has the rules for
  invariants of fallible code with state, and \<open>FatReach\<close> uses them for the nodes in core: what holds of
  them in every state fatfs can reach (\<open>fat_reachable\<close>, which contains all runs of the main loop, by the
  locale \<open>kept_server\<close>). \<open>Replies\<close> has the protocol with the kernel: one reply for each request.
  \<open>Posix\<close> models the options, numbers and events the processes use of the C library and the kernel,
  \<open>Servers\<close> their start-up and main loops; the locale \<open>server\<close> is the contract of a server that never
  gets stuck, with devfs and ifs as its instances.
  The witnesses run on small concrete volumes: \<open>demo_fat\<close>, \<open>demo_new\<close>, \<open>demo_disk\<close>, \<open>demo_ext\<close>, \<open>demo_volume\<close> and the images of devfs and ifs.

  \<^bold>\<open>Bounds.\<close> No fuel is used. Devices have at most 2 to the 32 sectors (\<open>device_contract\<close>), as
  sector numbers are 32 bits; file offsets of fatfs are below 2 to the 31, as \<open>off_t\<close> is signed.

  \<^bold>\<open>Not modelled.\<close> The system calls that open devices, mount the handler and wait for events (their
  results are arguments), the exec of sysinit, logging, and code under \<open>#if 0\<close>. The files under src/extfs that build a user-mode test have no code of their own.
\<close>

end
